(* ===== verification/Prelude.thy ===== *)
theory Prelude
  imports Main "HOL-Library.Char_ord" "HOL-Library.Word"
begin

text \<open>
  Shared vocabulary of the development.

  The programs are C daemons. An operation of theirs either returns or leaves the defined
  behaviour of the language (it reads a null pointer, uses an object after it was freed,
  writes past the end of a buffer, exhausts the stack, uses a variable it never set,
  lets a signed integer overflow). Both are values here:
  \<open>Ok x\<close> is a return, \<open>Crash k\<close> is undefined behaviour of kind \<open>k\<close>. A pointer
  that may be null is an \<open>option\<close>; a C string is a \<open>string\<close> without the
  terminating NUL.
\<close>

named_theorems outcome_simps \<open>case analysis on outcomes\<close>
named_theorems engine_simps \<open>field-wise effect of the rule engine's operations\<close>
named_theorems parser_simps \<open>field-wise effect of the parser's actions\<close>

subsection \<open>Outcomes\<close>

datatype crash =
    Null_Deref
  | Use_After_Free
  | Buffer_Overflow
  | Stack_Overflow
  | Indeterminate_Value
  | Signed_Overflow

datatype 'a outcome = Ok (outcome_val: 'a) | Crash crash

fun obind :: "'a outcome \<Rightarrow> ('a \<Rightarrow> 'b outcome) \<Rightarrow> 'b outcome" where
  "obind (Ok x) f = f x"
| "obind (Crash k) f = Crash k"

definition omap :: "('a \<Rightarrow> 'b) \<Rightarrow> 'a outcome \<Rightarrow> 'b outcome" where
  "omap f m = obind m (\<lambda>x. Ok (f x))"

definition returns :: "'a outcome \<Rightarrow> bool" where
  "returns m \<longleftrightarrow> (case m of Ok _ \<Rightarrow> True | Crash _ \<Rightarrow> False)"

lemma omap_Ok [simp]: "omap f (Ok x) = Ok (f x)"
  by (simp add: omap_def)

lemma omap_Crash [simp]: "omap f (Crash k) = Crash k"
  by (simp add: omap_def)

lemma returns_simps [simp]: "returns (Ok x)" "\<not> returns (Crash k)"
  by (simp_all add: returns_def)

lemma returns_iff: "returns m \<longleftrightarrow> (\<exists>x. m = Ok x)"
  by (cases m) simp_all

lemma obind_Ok_iff [outcome_simps]: "obind m f = Ok y \<longleftrightarrow> (\<exists>x. m = Ok x \<and> f x = Ok y)"
  by (cases m) simp_all

lemma obind_Crash_iff [outcome_simps]:
  "obind m f = Crash k \<longleftrightarrow> m = Crash k \<or> (\<exists>x. m = Ok x \<and> f x = Crash k)"
  by (cases m) simp_all

lemma omap_Ok_iff [outcome_simps]: "omap f m = Ok y \<longleftrightarrow> (\<exists>x. m = Ok x \<and> y = f x)"
  by (cases m) auto

lemma returns_obind: "returns (obind m f) \<longleftrightarrow> (\<exists>x. m = Ok x \<and> returns (f x))"
  by (cases m) simp_all

lemma obind_assoc: "obind (obind m f) g = obind m (\<lambda>x. obind (f x) g)"
  by (cases m) simp_all

lemma obind_cong [fundef_cong]:
  "m = n \<Longrightarrow> (\<And>x. n = Ok x \<Longrightarrow> f x = g x) \<Longrightarrow> obind m f = obind n g"
  by (cases n) simp_all

text \<open>A null check followed by a use of the pointer.\<close>

definition deref :: "'a option \<Rightarrow> 'a outcome" where
  "deref p = (case p of None \<Rightarrow> Crash Null_Deref | Some x \<Rightarrow> Ok x)"

lemma deref_simps [simp]: "deref None = Crash Null_Deref" "deref (Some x) = Ok x"
  by (simp_all add: deref_def)

text \<open>Access to a heap object through its address: a freed or never allocated object is gone.\<close>

definition access :: "('k \<rightharpoonup> 'a) \<Rightarrow> 'k \<Rightarrow> 'a outcome" where
  "access h a = (case h a of None \<Rightarrow> Crash Use_After_Free | Some x \<Rightarrow> Ok x)"

lemma access_Some [simp]: "h a = Some x \<Longrightarrow> access h a = Ok x"
  by (simp add: access_def)

lemma access_None [simp]: "h a = None \<Longrightarrow> access h a = Crash Use_After_Free"
  by (simp add: access_def)

lemma access_Ok_iff [outcome_simps]: "access h a = Ok x \<longleftrightarrow> h a = Some x"
  by (simp add: access_def split: option.splits)

subsection \<open>Loops over lists\<close>

text \<open>\<open>list_for_each_entry\<close> with a state that the body threads through.\<close>

fun ofold :: "('a \<Rightarrow> 's \<Rightarrow> 's outcome) \<Rightarrow> 'a list \<Rightarrow> 's \<Rightarrow> 's outcome" where
  "ofold f [] s = Ok s"
| "ofold f (x # xs) s = obind (f x s) (ofold f xs)"

lemma ofold_append: "ofold f (xs @ ys) s = obind (ofold f xs s) (ofold f ys)"
  by (induction xs arbitrary: s) (auto simp: obind_assoc intro: obind_cong)

lemma ofold_inv:
  assumes "ofold f xs s = Ok t" and "P s"
    and "\<And>x s t. x \<in> set xs \<Longrightarrow> P s \<Longrightarrow> f x s = Ok t \<Longrightarrow> P t"
  shows "P t"
  using assms by (induction xs arbitrary: s) (auto simp: outcome_simps)

lemma ofold_returns:
  assumes "P s"
    and "\<And>x s. x \<in> set xs \<Longrightarrow> P s \<Longrightarrow> \<exists>t. f x s = Ok t \<and> P t"
  shows "\<exists>t. ofold f xs s = Ok t \<and> P t"
  using assms
proof (induction xs arbitrary: s)
  case Nil
  then show ?case by simp
next
  case (Cons x xs)
  from Cons.prems obtain t where t: "f x s = Ok t" "P t" by auto
  with Cons.IH [of t] Cons.prems(2) show ?case by simp
qed

subsection \<open>Decimal numbers, as printed and scanned by the C library\<close>

definition digit_char :: "nat \<Rightarrow> char" where
  "digit_char d = char_of (48 + d)"

definition digit_val :: "char \<Rightarrow> nat" where
  "digit_val c = of_char c - 48"

definition is_digit :: "char \<Rightarrow> bool" where
  "is_digit c \<longleftrightarrow> CHR ''0'' \<le> c \<and> c \<le> CHR ''9''"

fun show_nat :: "nat \<Rightarrow> string" where
  "show_nat n = (if n < 10 then [digit_char n] else show_nat (n div 10) @ [digit_char (n mod 10)])"

declare show_nat.simps [simp del]

definition show_int :: "int \<Rightarrow> string" where
  "show_int i = (if i < 0 then CHR ''-'' # show_nat (nat (- i)) else show_nat (nat i))"

definition read_nat :: "string \<Rightarrow> nat" where
  "read_nat cs = foldl (\<lambda>n c. 10 * n + digit_val c) 0 cs"

lemma digit_val_char [simp]: "d < 10 \<Longrightarrow> digit_val (digit_char d) = d"
  by (simp add: digit_val_def digit_char_def of_char_of)

lemma is_digit_code: "is_digit c \<longleftrightarrow> 48 \<le> (of_char c :: nat) \<and> of_char c \<le> (57 :: nat)"
  by (simp add: is_digit_def less_eq_char_def)

lemma is_digit_char [simp]: "d < 10 \<Longrightarrow> is_digit (digit_char d)"
  by (simp add: is_digit_code digit_char_def of_char_of)

lemma show_nat_digits: "c \<in> set (show_nat n) \<Longrightarrow> is_digit c"
proof (induction n rule: show_nat.induct)
  case (1 n)
  then show ?case
    by (cases "n < 10") (auto simp: show_nat.simps [of n])
qed

lemma show_nat_nonempty [simp]: "show_nat n \<noteq> []"
  by (simp add: show_nat.simps [of n])

lemma read_nat_snoc: "read_nat (cs @ [c]) = 10 * read_nat cs + digit_val c"
  by (simp add: read_nat_def)

lemma read_show_nat [simp]: "read_nat (show_nat n) = n"
proof (induction n rule: show_nat.induct)
  case (1 n)
  show ?case
  proof (cases "n < 10")
    case True
    then show ?thesis by (simp add: show_nat.simps [of n] read_nat_def)
  next
    case False
    then have "read_nat (show_nat (n div 10)) = n div 10" by (rule 1)
    with False show ?thesis by (simp add: show_nat.simps [of n] read_nat_snoc)
  qed
qed

subsection \<open>Integer widths\<close>

text \<open>
  \<open>int\<close> has 32 bits and \<open>long\<close> 64 (the LP64 model of the x86-64 targets);
  a conversion to a narrower signed type keeps the low bits.
\<close>

definition to_int32 :: "int \<Rightarrow> int" where
  "to_int32 i = (i + 2 ^ 31) mod 2 ^ 32 - 2 ^ 31"

definition in_int32 :: "int \<Rightarrow> bool" where
  "in_int32 i \<longleftrightarrow> - (2 ^ 31) \<le> i \<and> i < 2 ^ 31"

definition clamp_long :: "int \<Rightarrow> int" where
  "clamp_long i = max (- (2 ^ 63)) (min (2 ^ 63 - 1) i)"

lemma to_int32_id [simp]: "in_int32 i \<Longrightarrow> to_int32 i = i"
  by (simp add: in_int32_def to_int32_def)

lemma to_int32_range: "in_int32 (to_int32 i)"
proof -
  have "0 \<le> (i + 2 ^ 31) mod 2 ^ 32" "(i + 2 ^ 31) mod 2 ^ 32 < (2 ^ 32 :: int)"
    by simp_all
  then show ?thesis by (simp add: in_int32_def to_int32_def)
qed

lemma clamp_long_id [simp]: "in_int32 i \<Longrightarrow> clamp_long i = i"
  by (simp add: in_int32_def clamp_long_def)

subsection \<open>Lists\<close>

fun find_first :: "('a \<Rightarrow> bool) \<Rightarrow> 'a list \<Rightarrow> 'a option" where
  "find_first P [] = None"
| "find_first P (x # xs) = (if P x then Some x else find_first P xs)"

lemma find_first_Some_in: "find_first P xs = Some x \<Longrightarrow> x \<in> set xs \<and> P x"
  by (induction xs) (auto split: if_splits)

lemma find_first_None: "find_first P xs = None \<longleftrightarrow> (\<forall>x \<in> set xs. \<not> P x)"
  by (induction xs) auto

lemma find_first_append:
  "find_first P (xs @ ys) =
     (case find_first P xs of None \<Rightarrow> find_first P ys | Some x \<Rightarrow> Some x)"
  by (induction xs) auto

fun remove_first :: "'a \<Rightarrow> 'a list \<Rightarrow> 'a list" where
  "remove_first a [] = []"
| "remove_first a (x # xs) = (if x = a then xs else x # remove_first a xs)"

lemma remove_first_remove1: "remove_first a xs = remove1 a xs"
  by (induction xs) auto

end
