(* ===== verification/Arg_Types.thy ===== *)
theory Arg_Types
  imports Prelude
begin

text \<open>
  The arguments of conditions and actions (xcpmd \<open>rules.h\<close>, \<open>rules.c\<close>): the tagged
  union \<open>struct arg_node\<close>, its type letters, and its printed form, together with the
  parts of \<open>printf\<close> and \<open>sscanf\<close> that printing and parsing an argument use.
\<close>

subsection \<open>Single-precision values\<close>

text \<open>
  A \<open>float\<close> is \<open>m * 2 ^ e\<close> with a sign, normalised as IEEE binary32 does
  (\<open>2 ^ 23 \<le> m < 2 ^ 24\<close>, or \<open>e = -149\<close> for subnormals), or an infinity. The
  scanned literals never denote a NaN.
\<close>

datatype f32 = F32 bool nat int | F32_Inf bool

fun bit_length :: "nat \<Rightarrow> nat" where
  "bit_length n = (if n = 0 then 0 else Suc (bit_length (n div 2)))"

declare bit_length.simps [simp del]

definition scale :: "nat \<Rightarrow> nat \<Rightarrow> int \<Rightarrow> nat \<times> nat" where
  \<comment> \<open>numerator and denominator of \<open>n / d / 2 ^ e\<close>\<close>
  "scale n d e = (if e < 0 then (n * 2 ^ nat (- e), d) else (n, d * 2 ^ nat e))"

definition round_half_even :: "nat \<Rightarrow> nat \<Rightarrow> nat" where
  "round_half_even n d =
     (let q = n div d; r = n mod d
      in if 2 * r < d then q
         else if 2 * r > d then Suc q
         else if even q then q else Suc q)"

definition f32_of_ratio :: "bool \<Rightarrow> nat \<Rightarrow> nat \<Rightarrow> f32" where
  "f32_of_ratio neg n d =
     (if n = 0 then F32 neg 0 (- 149)
      else
        let g = int (bit_length n) - int (bit_length d) - 24;
            (n1, d1) = scale n d g;
            e = max (- 149) (if n1 div d1 \<ge> 2 ^ 24 then g + 1 else g);
            (n2, d2) = scale n d e;
            m = round_half_even n2 d2;
            (m', e') = (if m = 2 ^ 24 then (2 ^ 23, e + 1) else (m, e))
        in if e' > 104 then F32_Inf neg else F32 neg m' e')"

fun show_f32 :: "f32 \<Rightarrow> string" where
  \<comment> \<open>\<open>printf "%f"\<close>: six decimals\<close>
  "show_f32 (F32_Inf neg) = (if neg then ''-inf'' else ''inf'')"
| "show_f32 (F32 neg m e) =
     (let (n, d) = scale (m * 10 ^ 6) 1 (- e);
          v = round_half_even n d;
          frac = show_nat (v mod 10 ^ 6)
      in (if neg then ''-'' else '''') @ show_nat (v div 10 ^ 6) @ ''.'' @
         replicate (6 - length frac) (CHR ''0'') @ frac)"

text \<open>
  \<open>sscanf\<close> with \<open>%ld\<close> and \<open>%f\<close> on the accumulated characters of a literal
  (an optional minus sign, digits, and for floats one period). \<open>None\<close> is a matching
  failure, which leaves the target variable unassigned. An out-of-range \<open>long\<close> is
  clamped as \<open>strtol\<close> does.
\<close>

definition split_sign :: "string \<Rightarrow> bool \<times> string" where
  "split_sign cs = (case cs of [] \<Rightarrow> (False, [])
     | c # r \<Rightarrow> if c = CHR ''-'' then (True, r) else (False, cs))"

definition scan_ld :: "string \<Rightarrow> int option" where
  "scan_ld cs =
     (let (neg, r) = split_sign cs; ds = takeWhile is_digit r
      in if ds = [] then None
         else Some (clamp_long (if neg then - int (read_nat ds) else int (read_nat ds))))"

definition scan_f :: "string \<Rightarrow> f32 option" where
  "scan_f cs =
     (let (neg, r) = split_sign cs;
          ip = takeWhile is_digit r;
          r' = dropWhile is_digit r;
          fp = (if r' \<noteq> [] \<and> hd r' = CHR ''.'' then takeWhile is_digit (tl r') else [])
      in if ip @ fp = [] then None
         else Some (f32_of_ratio neg (read_nat (ip @ fp)) (10 ^ length fp)))"

lemma is_digit_not_minus: "is_digit c \<Longrightarrow> c \<noteq> CHR ''-''"
  by (auto simp: is_digit_code)

lemma scan_show_int: "in_int32 i \<Longrightarrow> scan_ld (show_int i) = Some i"
proof -
  assume i: "in_int32 i"
  have dig: "takeWhile is_digit (show_nat n) = show_nat n" for n
    by (simp add: takeWhile_eq_all_conv show_nat_digits)
  show ?thesis
  proof (cases "i < 0")
    case True
    with i show ?thesis
      by (simp add: scan_ld_def show_int_def split_sign_def dig Let_def)
  next
    case False
    obtain c cs where c: "show_nat (nat i) = c # cs"
      by (cases "show_nat (nat i)") simp_all
    have "is_digit c" using show_nat_digits [of c "nat i"] c by simp
    then have "split_sign (show_int i) = (False, show_nat (nat i))"
      using False c by (simp add: show_int_def split_sign_def is_digit_not_minus)
    with False i show ?thesis by (simp add: scan_ld_def dig Let_def)
  qed
qed

subsection \<open>Arguments\<close>

datatype arg_type =
  ARG_INT | ARG_BOOL | ARG_CHAR | ARG_FLOAT | ARG_STR | ARG_VOIDPTR | ARG_NONE | ARG_VAR

fun arg_type_code :: "arg_type \<Rightarrow> char" where
  "arg_type_code ARG_INT = CHR ''i''"
| "arg_type_code ARG_BOOL = CHR ''b''"
| "arg_type_code ARG_CHAR = CHR ''c''"
| "arg_type_code ARG_FLOAT = CHR ''f''"
| "arg_type_code ARG_STR = CHR ''s''"
| "arg_type_code ARG_VOIDPTR = CHR ''p''"
| "arg_type_code ARG_NONE = CHR ''n''"
| "arg_type_code ARG_VAR = CHR ''v''"

text \<open>The union \<open>arg_u\<close> with the tag that says which member was written.\<close>

datatype arg =
    Arg_Int int
  | Arg_Bool bool
  | Arg_Char char
  | Arg_Float f32
  | Arg_Str string
  | Arg_Voidptr "64 word"
  | Arg_None
  | Arg_Var string

fun arg_type_of :: "arg \<Rightarrow> arg_type" where
  "arg_type_of (Arg_Int _) = ARG_INT"
| "arg_type_of (Arg_Bool _) = ARG_BOOL"
| "arg_type_of (Arg_Char _) = ARG_CHAR"
| "arg_type_of (Arg_Float _) = ARG_FLOAT"
| "arg_type_of (Arg_Str _) = ARG_STR"
| "arg_type_of (Arg_Voidptr _) = ARG_VOIDPTR"
| "arg_type_of Arg_None = ARG_NONE"
| "arg_type_of (Arg_Var _) = ARG_VAR"

definition arg_type_to_string :: "char \<Rightarrow> string" where
  "arg_type_to_string c =
     (if c = CHR ''i'' then ''int''
      else if c = CHR ''s'' then ''string''
      else if c = CHR ''b'' then ''bool''
      else if c = CHR ''n'' then ''void''
      else if c = CHR ''c'' then ''char''
      else if c = CHR ''f'' then ''float''
      else if c = CHR ''p'' then ''void *''
      else if c = CHR '' '' then '' ''
      else if c = CHR ''v'' then ''var''
      else ''unknown_type'')"

text \<open>
  \<open>long_prototype\<close> appends the name of every letter; on the empty prototype no append
  happens and the null pointer it started from comes back.
\<close>

definition long_prototype :: "string option \<Rightarrow> string option" where
  "long_prototype p =
     (case p of None \<Rightarrow> Some ''''
      | Some cs \<Rightarrow> if cs = [] then None else Some (concat (map arg_type_to_string cs)))"

text \<open>The printed form of a pointer (\<open>%p\<close>) is a parameter: it depends on the C library.\<close>

definition arg_to_string :: "(64 word \<Rightarrow> string) \<Rightarrow> arg \<Rightarrow> string" where
  "arg_to_string show_ptr a =
     (case a of
        Arg_Str s \<Rightarrow> [CHR 0x22] @ s @ [CHR 0x22]
      | Arg_Int i \<Rightarrow> show_int i
      | Arg_Bool b \<Rightarrow> (if b then ''t'' else ''f'')
      | Arg_Float f \<Rightarrow> show_f32 f
      | Arg_Char c \<Rightarrow> [CHR 0x27, c, CHR 0x27]
      | Arg_Voidptr p \<Rightarrow> ''0x'' @ show_ptr p
      | Arg_None \<Rightarrow> ''none''
      | Arg_Var v \<Rightarrow> CHR ''$'' # v)"

lemma arg_type_code_inj: "arg_type_code a = arg_type_code b \<longleftrightarrow> a = b"
  by (cases a; cases b) simp_all

lemma arg_type_code_not_space [simp]: "arg_type_code t \<noteq> CHR '' ''"
  by (cases t) simp_all

end
