(* ===== verification/Parser.thy ===== *)
theory Parser
  imports Arg_Types
begin

unbundle bit_operations_syntax

text \<open>
  The policy parser of xcpmd (\<open>parser.c\<close>): a table-driven state machine over the
  characters of a rule's strings or of a variable definition. The machine itself is
  independent of what its results are used for: looking variables up, adding a variable
  and handing a finished rule to the rule engine are the fields of \<open>parser_ops\<close>, over an
  arbitrary state \<open>'s\<close>. The theories \<open>Var_Cache\<close> and \<open>Apply_Rule\<close> supply them.

  The accumulators have the fixed size the code allocates. A character written past the
  end of one is \<open>Crash Buffer_Overflow\<close>. \<open>parse_rest\<close> is what lies between
  \<open>parse_ptr\<close> and \<open>parse_str_end\<close>; at its end the current character is the NUL.
\<close>

subsection \<open>Data\<close>

datatype parsed_type =
    TYPE_UNDETERMINED | TYPE_INT | TYPE_FLOAT | TYPE_STR | TYPE_BOOL | TYPE_VAR
  | TYPE_ACTION | TYPE_CONDITION | TYPE_UNDO_ACTION | TYPE_VAR_MAP | TYPE_RULE | TYPE_ARG

text \<open>The union \<open>fn_arg_val\<close> together with the \<open>type\<close> member of \<open>struct fn_arg\<close>.\<close>

datatype fn_arg = FA_Int int | FA_Float f32 | FA_Str string | FA_Bool bool | FA_Var string

record fn =
  fn_name :: string
  fn_args :: "fn_arg list"
  fn_undo :: bool

datatype fsm_state =
    S_start | S_invertFn | S_accumName | S_beginAccumArg | S_accumVar | S_accumInt
  | S_beginAccumFloat | S_accumFloat | S_accumStr | S_endAccumStr | S_accumBool
  | S_acceptFn | S_acceptRule

datatype fsm_action =
    A_accumName | A_invertFn | A_accumArg | A_beginAccumVar | A_beginAccumInt
  | A_beginAccumFloat | A_beginAccumStr | A_beginAccumTrue | A_beginAccumFalse
  | A_acceptArg | A_acceptFn | A_acceptFns

type_synonym var_map = "(string \<times> fn_arg) list"

record parse_data =
  rule_name :: "string option"
  pstate :: fsm_state
  undo :: bool
  finished :: bool
  error_code :: nat
  rule_error_code :: nat
  var_map_str :: "string option"
  conditions_str :: "string option"
  actions_str :: "string option"
  undo_actions_str :: "string option"
  subject_type :: parsed_type
  parsing :: parsed_type
  cur_arg_type :: parsed_type
  parse_rest :: string
  accum_sz :: nat
  accum_name :: string
  accum_arg :: string
  var_map :: var_map
  pargs :: "fn_arg list"
  pconditions :: "fn list"
  pactions :: "fn list"
  pundo_actions :: "fn list"
  parsed_arg :: "fn option"
  message :: "string option"

abbreviation (input) NO_PARSE_ERROR :: nat where "NO_PARSE_ERROR \<equiv> 0x000"
abbreviation (input) RULE_INVALID :: nat where "RULE_INVALID \<equiv> 0x100"
abbreviation (input) FSM_ERROR :: nat where "FSM_ERROR \<equiv> 0x200"
abbreviation (input) BOOL_ERROR :: nat where "BOOL_ERROR \<equiv> 0x300"
abbreviation (input) VAR_MISSING :: nat where "VAR_MISSING \<equiv> 0x400"
abbreviation (input) INVALID_VAR_TYPE :: nat where "INVALID_VAR_TYPE \<equiv> 0x500"
abbreviation (input) OVERLAPPING_VARS :: nat where "OVERLAPPING_VARS \<equiv> 0x600"
abbreviation (input) RECOVERABLE_ERROR :: nat where "RECOVERABLE_ERROR \<equiv> 0x700"
abbreviation (input) DB_ERROR :: nat where "DB_ERROR \<equiv> 0x800"
abbreviation (input) MEMORY_ERROR :: nat where "MEMORY_ERROR \<equiv> 0x900"
abbreviation (input) BAD_CONDITION :: nat where "BAD_CONDITION \<equiv> 0x010"
abbreviation (input) BAD_ACTION :: nat where "BAD_ACTION \<equiv> 0x020"
abbreviation (input) BAD_UNDO :: nat where "BAD_UNDO \<equiv> 0x040"
abbreviation (input) RULE_ERROR_MASK :: nat where "RULE_ERROR_MASK \<equiv> 0x00F"
abbreviation (input) RECOVERABLE_MASK :: nat where "RECOVERABLE_MASK \<equiv> 0x0F0"
abbreviation (input) PARSE_ERROR_MASK :: nat where "PARSE_ERROR_MASK \<equiv> 0xF00"
abbreviation (input) RULE_CODE_NOT_SET :: nat where "RULE_CODE_NOT_SET \<equiv> 0x000"
abbreviation (input) RULE_VALID :: nat where "RULE_VALID \<equiv> 0x001"
abbreviation (input) NO_NAME :: nat where "NO_NAME \<equiv> 0x002"
abbreviation (input) NO_CONDITIONS :: nat where "NO_CONDITIONS \<equiv> 0x003"
abbreviation (input) NO_ACTIONS :: nat where "NO_ACTIONS \<equiv> 0x004"
abbreviation (input) NAME_COLLISION :: nat where "NAME_COLLISION \<equiv> 0x005"
abbreviation (input) BAD_PROTO :: nat where "BAD_PROTO \<equiv> 0x006"

text \<open>
  What the machine calls. \<open>indet_long\<close> and \<open>indet_float\<close> are the contents of the
  uninitialised local \<open>val\<close> of \<open>action_acceptArg\<close> when \<open>sscanf\<close> matches nothing.
\<close>

record 's parser_ops =
  op_lookup_var :: "string \<Rightarrow> 's \<Rightarrow> (bool \<times> 's) outcome"
  op_add_var :: "string \<Rightarrow> arg \<Rightarrow> string option \<Rightarrow> 's \<Rightarrow> (bool \<times> string option \<times> 's) outcome"
  op_apply_rule :: "string option \<Rightarrow> fn list \<Rightarrow> fn list \<Rightarrow> fn list \<Rightarrow> string option \<Rightarrow> 's \<Rightarrow>
    (nat \<times> string option \<times> 's) outcome"
  indet_long :: int
  indet_float :: f32

subsection \<open>Helpers\<close>

fun conv_fn_arg :: "fn_arg \<Rightarrow> arg" where
  "conv_fn_arg (FA_Int i) = Arg_Int (to_int32 i)"
| "conv_fn_arg (FA_Float f) = Arg_Float f"
| "conv_fn_arg (FA_Str s) = Arg_Str s"
| "conv_fn_arg (FA_Bool b) = Arg_Bool b"
| "conv_fn_arg (FA_Var v) = Arg_Var v"

definition str_append :: "string option \<Rightarrow> string \<Rightarrow> string option" where
  \<comment> \<open>\<open>safe_str_append\<close>, the formatting already done\<close>
  "str_append p s = (case p of None \<Rightarrow> Some s | Some t \<Rightarrow> Some (t @ s))"

definition perror :: "string \<Rightarrow> parse_data \<Rightarrow> parse_data" where
  \<comment> \<open>\<open>error(data, ...)\<close>\<close>
  "perror msg d = d\<lparr>message := Some msg\<rparr>"

definition parse_error :: "string \<Rightarrow> char \<Rightarrow> parse_data \<Rightarrow> parse_data" where
  "parse_error expected c d =
     (let ascii = '' (ASCII '' @ show_nat (of_char c) @ '')'';
          quote = CHR 0x27; esc = CHR 0x5C;
          got = ''expected '' @ expected @ '', got ''
      in if c = CHR 0x00 then perror (got @ [quote, esc, CHR ''0'', quote] @ ascii) d
         else if c = CHR 0x0A then perror (got @ [quote, esc, CHR ''n'', quote] @ ascii) d
         else if c = CHR 0x09 then perror (got @ [quote, esc, CHR ''t'', quote] @ ascii) d
         else if c = CHR 0x0D then perror (got @ [quote, esc, CHR ''r'', quote] @ ascii) d
         else if c < CHR '' '' \<or> c > CHR ''~'' then perror (got @ ''ASCII '' @ show_nat (of_char c)) d
         else perror (got @ [quote, c, quote] @ ascii) d)"

definition get_var_from_map :: "var_map \<Rightarrow> string \<Rightarrow> fn_arg option" where
  "get_var_from_map vm name =
     (case find_first (\<lambda>v. fst v = name) vm of
        None \<Rightarrow> None
      | Some (_, FA_Var _) \<Rightarrow> None
      | Some (_, a) \<Rightarrow> Some a)"

fun parsed_type_of :: "fn_arg \<Rightarrow> parsed_type" where
  "parsed_type_of (FA_Int _) = TYPE_INT"
| "parsed_type_of (FA_Float _) = TYPE_FLOAT"
| "parsed_type_of (FA_Str _) = TYPE_STR"
| "parsed_type_of (FA_Bool _) = TYPE_BOOL"
| "parsed_type_of (FA_Var _) = TYPE_VAR"

text \<open>
  The C function is declared to return \<open>bool\<close> but returns error codes: the caller sees
  only whether the code was nonzero.
\<close>

definition add_to_var_map_code ::
  "'s parser_ops \<Rightarrow> var_map \<Rightarrow> string \<Rightarrow> fn_arg \<Rightarrow> string option \<Rightarrow> 's \<Rightarrow>
   (nat \<times> var_map \<times> string option \<times> 's) outcome" where
  "add_to_var_map_code ops vm name a msg s =
     (if get_var_from_map vm name \<noteq> None then Ok (OVERLAPPING_VARS, vm, msg, s)
      else obind (op_add_var ops name (conv_fn_arg a) msg s)
        (\<lambda>(added, msg', s').
           if \<not> added then Ok (INVALID_VAR_TYPE, vm, msg', s')
           else Ok (NO_PARSE_ERROR, vm @ [(name, a)], msg', s')))"

definition add_to_var_map_as_arg ::
  "'s parser_ops \<Rightarrow> var_map \<Rightarrow> string \<Rightarrow> fn_arg \<Rightarrow> string option \<Rightarrow> 's \<Rightarrow>
   (bool \<times> var_map \<times> string option \<times> 's) outcome" where
  "add_to_var_map_as_arg ops vm name a msg s =
     omap (\<lambda>(code, r). (code \<noteq> 0, r)) (add_to_var_map_code ops vm name a msg s)"

definition cleanup_parse_data :: "parse_data \<Rightarrow> parse_data" where
  "cleanup_parse_data d = d\<lparr>message := None, accum_sz := 0, accum_name := [], accum_arg := [],
     pargs := [], pconditions := [], pactions := [], pundo_actions := [], parsed_arg := None\<rparr>"

definition init_parse_data ::
  "string option \<Rightarrow> string option \<Rightarrow> string option \<Rightarrow> string option \<Rightarrow> string option \<Rightarrow> parsed_type \<Rightarrow>
   parse_data \<Rightarrow> parse_data" where
  "init_parse_data name vstr cstr astr ustr subject d =
     cleanup_parse_data (d\<lparr>rule_name := name, pstate := S_start, undo := True, finished := False,
       error_code := NO_PARSE_ERROR, rule_error_code := RULE_CODE_NOT_SET,
       var_map_str := vstr, conditions_str := cstr, actions_str := astr, undo_actions_str := ustr,
       subject_type := subject,
       parsing := (if subject = TYPE_RULE then TYPE_CONDITION else subject),
       cur_arg_type := TYPE_UNDETERMINED, parse_rest := []\<rparr>)"

definition adv_parse_ptr :: "parse_data \<Rightarrow> parse_data" where
  \<comment> \<open>only called when \<open>parse_ptr\<close> is not yet at \<open>parse_str_end\<close>\<close>
  "adv_parse_ptr d = d\<lparr>parse_rest := tl (parse_rest d)\<rparr>"

definition get_parse_char :: "parse_data \<Rightarrow> char" where
  "get_parse_char d = (case parse_rest d of [] \<Rightarrow> CHR 0x00 | c # _ \<Rightarrow> c)"

definition load_parse_string :: "string option \<Rightarrow> parse_data \<Rightarrow> parse_data" where
  "load_parse_string str d =
     d\<lparr>parse_rest := (case str of None \<Rightarrow> [] | Some s \<Rightarrow> s),
       accum_sz := 256, accum_name := [], accum_arg := []\<rparr>"

subsection \<open>Transition conditions\<close>

definition condition_isAlphanumeric_us :: "char \<Rightarrow> bool" where
  "condition_isAlphanumeric_us c \<longleftrightarrow> c = CHR ''_'' \<or> (CHR ''A'' \<le> c \<and> c \<le> CHR ''Z'') \<or>
     (CHR ''a'' \<le> c \<and> c \<le> CHR ''z'') \<or> (CHR ''0'' \<le> c \<and> c \<le> CHR ''9'')"

definition condition_isDblQuote :: "char \<Rightarrow> bool" where
  "condition_isDblQuote c \<longleftrightarrow> c = CHR 0x22"

definition condition_isDblQuoteOrNull :: "char \<Rightarrow> bool" where
  "condition_isDblQuoteOrNull c \<longleftrightarrow> c = CHR 0x22 \<or> c = CHR 0x00"

definition condition_isNotDblQuoteOrNull :: "char \<Rightarrow> bool" where
  "condition_isNotDblQuoteOrNull c \<longleftrightarrow> c \<noteq> CHR 0x22 \<and> c \<noteq> CHR 0x00"

definition condition_isPeriod :: "char \<Rightarrow> bool" where
  "condition_isPeriod c \<longleftrightarrow> c = CHR ''.''"

definition condition_isDigit :: "char \<Rightarrow> bool" where
  "condition_isDigit c \<longleftrightarrow> CHR ''0'' \<le> c \<and> c \<le> CHR ''9''"

definition condition_isDigitOrMinus :: "char \<Rightarrow> bool" where
  "condition_isDigitOrMinus c \<longleftrightarrow> (CHR ''0'' \<le> c \<and> c \<le> CHR ''9'') \<or> c = CHR ''-''"

definition condition_isSpace :: "char \<Rightarrow> bool" where
  "condition_isSpace c \<longleftrightarrow> c = CHR '' ''"

definition condition_isExclaimation :: "char \<Rightarrow> bool" where
  "condition_isExclaimation c \<longleftrightarrow> c = CHR ''!''"

definition condition_isOpenParen :: "char \<Rightarrow> bool" where
  "condition_isOpenParen c \<longleftrightarrow> c = CHR ''(''"

definition condition_isClosedParen :: "char \<Rightarrow> bool" where
  "condition_isClosedParen c \<longleftrightarrow> c = CHR '')''"

definition condition_isDollarSign :: "char \<Rightarrow> bool" where
  "condition_isDollarSign c \<longleftrightarrow> c = CHR ''$''"

definition condition_isTrue :: "char \<Rightarrow> bool" where
  "condition_isTrue c \<longleftrightarrow> c = CHR ''t'' \<or> c = CHR ''T'' \<or> c = CHR ''y'' \<or> c = CHR ''Y''"

definition condition_isFalse :: "char \<Rightarrow> bool" where
  "condition_isFalse c \<longleftrightarrow> c = CHR ''f'' \<or> c = CHR ''F'' \<or> c = CHR ''n'' \<or> c = CHR ''N''"

definition condition_isNull :: "char \<Rightarrow> bool" where
  "condition_isNull c \<longleftrightarrow> c = CHR 0x00"

definition condition_isNewline :: "char \<Rightarrow> bool" where
  "condition_isNewline c \<longleftrightarrow> c = CHR 0x0A"

lemmas condition_defs =
  condition_isAlphanumeric_us_def condition_isDblQuote_def condition_isDblQuoteOrNull_def
  condition_isNotDblQuoteOrNull_def condition_isPeriod_def condition_isDigit_def
  condition_isDigitOrMinus_def condition_isSpace_def condition_isExclaimation_def
  condition_isOpenParen_def condition_isClosedParen_def condition_isDollarSign_def
  condition_isTrue_def condition_isFalse_def condition_isNull_def condition_isNewline_def

subsection \<open>Transition actions\<close>

definition action_accumName :: "char \<Rightarrow> parse_data \<Rightarrow> parse_data outcome" where
  "action_accumName c d =
     (if length (accum_name d) < accum_sz d then Ok (d\<lparr>accum_name := accum_name d @ [c]\<rparr>)
      else Crash Buffer_Overflow)"

definition action_invertFn :: "parse_data \<Rightarrow> parse_data" where
  "action_invertFn d = d\<lparr>undo := False\<rparr>"

definition action_accumArg :: "char \<Rightarrow> parse_data \<Rightarrow> parse_data outcome" where
  "action_accumArg c d =
     (if length (accum_arg d) < accum_sz d then Ok (d\<lparr>accum_arg := accum_arg d @ [c]\<rparr>)
      else Crash Buffer_Overflow)"

definition action_beginAccumVar :: "parse_data \<Rightarrow> parse_data" where
  "action_beginAccumVar d = d\<lparr>cur_arg_type := TYPE_VAR\<rparr>"

definition action_beginAccumInt :: "char \<Rightarrow> parse_data \<Rightarrow> parse_data outcome" where
  "action_beginAccumInt c d = action_accumArg c (d\<lparr>cur_arg_type := TYPE_INT\<rparr>)"

definition action_beginAccumFloat :: "char \<Rightarrow> parse_data \<Rightarrow> parse_data outcome" where
  "action_beginAccumFloat c d = action_accumArg c (d\<lparr>cur_arg_type := TYPE_FLOAT\<rparr>)"

definition action_beginAccumStr :: "parse_data \<Rightarrow> parse_data" where
  "action_beginAccumStr d = d\<lparr>cur_arg_type := TYPE_STR\<rparr>"

definition action_beginAccumTrue :: "parse_data \<Rightarrow> parse_data outcome" where
  "action_beginAccumTrue d = action_accumArg (CHR ''t'') (d\<lparr>cur_arg_type := TYPE_BOOL\<rparr>)"

definition action_beginAccumFalse :: "parse_data \<Rightarrow> parse_data outcome" where
  "action_beginAccumFalse d = action_accumArg (CHR ''f'') (d\<lparr>cur_arg_type := TYPE_BOOL\<rparr>)"

fun parsed_type_num :: "parsed_type \<Rightarrow> nat" where
  "parsed_type_num TYPE_UNDETERMINED = 0"
| "parsed_type_num TYPE_INT = 1"
| "parsed_type_num TYPE_FLOAT = 2"
| "parsed_type_num TYPE_STR = 3"
| "parsed_type_num TYPE_BOOL = 4"
| "parsed_type_num TYPE_VAR = 5"
| "parsed_type_num TYPE_ACTION = 50"
| "parsed_type_num TYPE_CONDITION = 51"
| "parsed_type_num TYPE_UNDO_ACTION = 52"
| "parsed_type_num TYPE_VAR_MAP = 90"
| "parsed_type_num TYPE_RULE = 91"
| "parsed_type_num TYPE_ARG = 92"

definition push_arg :: "fn_arg \<Rightarrow> parse_data \<Rightarrow> parse_data" where
  \<comment> \<open>the last four lines of \<open>action_acceptArg\<close>\<close>
  "push_arg a d = d\<lparr>pargs := pargs d @ [a], accum_arg := []\<rparr>"

definition fail :: "nat \<Rightarrow> string \<Rightarrow> parse_data \<Rightarrow> parse_data" where
  "fail code msg d = perror msg d\<lparr>error_code := code, finished := True\<rparr>"

definition action_acceptArg ::
  "'s parser_ops \<Rightarrow> parse_data \<Rightarrow> 's \<Rightarrow> (parse_data \<times> 's) outcome" where
  "action_acceptArg ops d s =
     (if accum_sz d \<le> length (accum_arg d) then Crash Buffer_Overflow
      else if accum_arg d = [] then Ok (d, s)
      else
        (case cur_arg_type d of
           TYPE_INT \<Rightarrow>
             Ok (push_arg (FA_Int (case scan_ld (accum_arg d) of None \<Rightarrow> indet_long ops | Some i \<Rightarrow> i)) d, s)
         | TYPE_FLOAT \<Rightarrow>
             Ok (push_arg (FA_Float (case scan_f (accum_arg d) of None \<Rightarrow> indet_float ops | Some f \<Rightarrow> f)) d, s)
         | TYPE_STR \<Rightarrow> Ok (push_arg (FA_Str (accum_arg d)) d, s)
         | TYPE_BOOL \<Rightarrow>
             if hd (accum_arg d) = CHR ''t'' then Ok (push_arg (FA_Bool True) d, s)
             else if hd (accum_arg d) = CHR ''f'' then Ok (push_arg (FA_Bool False) d, s)
             else Ok (fail BOOL_ERROR
               (''boolean type detected but argument accumulator has invalid data ('' @ accum_arg d @ '')'') d, s)
         | TYPE_VAR \<Rightarrow>
             obind (op_lookup_var ops (accum_arg d) s) (\<lambda>(found, s').
               if get_var_from_map (var_map d) (accum_arg d) = None \<and> \<not> found
               then Ok (fail VAR_MISSING (''unable to resolve variable '' @ accum_arg d) d, s')
               else Ok (push_arg (FA_Var (accum_arg d)) d, s'))
         | t \<Rightarrow> Ok (fail FSM_ERROR (''invalid parsing mode: '' @ show_nat (parsed_type_num t)) d, s)))"

definition end_fn :: "parse_data \<Rightarrow> parse_data" where
  \<comment> \<open>the last four lines of \<open>action_acceptFn\<close>\<close>
  "end_fn d = d\<lparr>pargs := [], accum_name := [], undo := True\<rparr>"

definition accept_var_map_entry ::
  "'s parser_ops \<Rightarrow> parse_data \<Rightarrow> 's \<Rightarrow> (parse_data \<times> 's) outcome" where
  \<comment> \<open>the \<open>TYPE_VAR_MAP\<close> case of \<open>action_acceptFn\<close>\<close>
  "accept_var_map_entry ops d s =
     (case pargs d of
        [] \<Rightarrow> Ok (fail VAR_MISSING (''var map entry '' @ accum_name d @ '' has no value'') d, s)
      | [a] \<Rightarrow>
          (case a of
             FA_Var _ \<Rightarrow> Ok (fail INVALID_VAR_TYPE ''var map entry had value of incompatible type'' d, s)
           | _ \<Rightarrow> omap (\<lambda>(err, vm, msg, s').
               (end_fn (d\<lparr>error_code := of_bool err, var_map := vm, message := msg\<rparr>), s'))
               (add_to_var_map_as_arg ops (var_map d) (accum_name d) a (message d) s))
      | _ \<Rightarrow> Ok (fail OVERLAPPING_VARS (''var map entry '' @ accum_name d @ '' has multiple values'') d, s))"

definition action_acceptFn ::
  "'s parser_ops \<Rightarrow> parse_data \<Rightarrow> 's \<Rightarrow> (parse_data \<times> 's) outcome" where
  "action_acceptFn ops d0 s0 =
     obind (action_acceptArg ops d0 s0) (\<lambda>(d, s).
       if accum_sz d \<le> length (accum_name d) then Crash Buffer_Overflow
       else if accum_name d = [] then Ok (d, s)
       else
         (case parsing d of
            TYPE_ARG \<Rightarrow> Ok (end_fn (d\<lparr>parsed_arg :=
              Some \<lparr>fn_name = accum_name d, fn_args = pargs d, fn_undo = False\<rparr>\<rparr>), s)
          | TYPE_CONDITION \<Rightarrow> Ok (end_fn (d\<lparr>pconditions := pconditions d @
              [\<lparr>fn_name = accum_name d, fn_args = pargs d, fn_undo = undo d\<rparr>]\<rparr>), s)
          | TYPE_ACTION \<Rightarrow> Ok (end_fn (d\<lparr>pactions := pactions d @
              [\<lparr>fn_name = accum_name d, fn_args = pargs d, fn_undo = undo d\<rparr>]\<rparr>), s)
          | TYPE_UNDO_ACTION \<Rightarrow> Ok (end_fn (d\<lparr>pundo_actions := pundo_actions d @
              [\<lparr>fn_name = accum_name d, fn_args = pargs d, fn_undo = False\<rparr>]\<rparr>), s)
          | TYPE_VAR_MAP \<Rightarrow> accept_var_map_entry ops d s
          | _ \<Rightarrow> Ok (fail FSM_ERROR ''invalid parsing mode'' d, s)))"

definition rule_result :: "nat \<Rightarrow> nat \<times> nat" where
  \<comment> \<open>the code of \<open>apply_rule\<close> taken apart: the new \<open>error_code\<close> and \<open>rule_error_code\<close>\<close>
  "rule_result err =
     (let parse_err = err AND PARSE_ERROR_MASK;
          recoverable_err = err AND RECOVERABLE_MASK;
          rule_err = err AND RULE_ERROR_MASK
      in if rule_err = RULE_VALID then
           (if parse_err = RECOVERABLE_ERROR then (RECOVERABLE_ERROR, recoverable_err)
            else if parse_err = NO_PARSE_ERROR then (NO_PARSE_ERROR, RULE_CODE_NOT_SET)
            else (parse_err, RULE_CODE_NOT_SET))
         else (RULE_INVALID, rule_err))"

definition accept_rule ::
  "'s parser_ops \<Rightarrow> parse_data \<Rightarrow> 's \<Rightarrow> (parse_data \<times> 's) outcome" where
  \<comment> \<open>the \<open>TYPE_UNDO_ACTION\<close> case of \<open>action_acceptFns\<close>\<close>
  "accept_rule ops d s =
     omap (\<lambda>(err, msg, s').
       (d\<lparr>message := msg, error_code := fst (rule_result err), rule_error_code := snd (rule_result err),
          parsing := TYPE_UNDETERMINED, finished := True,
          pactions := [], pconditions := [], pundo_actions := []\<rparr>, s'))
       (op_apply_rule ops (rule_name d) (pconditions d) (pactions d) (pundo_actions d) (message d) s)"

definition action_acceptFns ::
  "'s parser_ops \<Rightarrow> parse_data \<Rightarrow> 's \<Rightarrow> (parse_data \<times> 's) outcome" where
  "action_acceptFns ops d0 s0 =
     obind (action_acceptFn ops d0 s0) (\<lambda>(d, s).
       (case parsing d of
          TYPE_ARG \<Rightarrow> Ok (d\<lparr>parsing := TYPE_UNDETERMINED, finished := True\<rparr>, s)
        | TYPE_CONDITION \<Rightarrow> Ok (load_parse_string (actions_str d) (d\<lparr>parsing := TYPE_ACTION\<rparr>), s)
        | TYPE_ACTION \<Rightarrow> Ok (load_parse_string (undo_actions_str d) (d\<lparr>parsing := TYPE_UNDO_ACTION\<rparr>), s)
        | TYPE_UNDO_ACTION \<Rightarrow> accept_rule ops d s
        | TYPE_VAR_MAP \<Rightarrow> Ok (d\<lparr>parsing := TYPE_UNDETERMINED, finished := True\<rparr>, s)
        | _ \<Rightarrow> Ok (fail FSM_ERROR ''Parsing mode is unexpected type - this is likely a bug'' d, s)))"

fun run_action ::
  "'s parser_ops \<Rightarrow> fsm_action option \<Rightarrow> char \<Rightarrow> parse_data \<Rightarrow> 's \<Rightarrow> (parse_data \<times> 's) outcome" where
  "run_action ops None c d s = Ok (d, s)"
| "run_action ops (Some A_accumName) c d s = omap (\<lambda>d. (d, s)) (action_accumName c d)"
| "run_action ops (Some A_invertFn) c d s = Ok (action_invertFn d, s)"
| "run_action ops (Some A_accumArg) c d s = omap (\<lambda>d. (d, s)) (action_accumArg c d)"
| "run_action ops (Some A_beginAccumVar) c d s = Ok (action_beginAccumVar d, s)"
| "run_action ops (Some A_beginAccumInt) c d s = omap (\<lambda>d. (d, s)) (action_beginAccumInt c d)"
| "run_action ops (Some A_beginAccumFloat) c d s = omap (\<lambda>d. (d, s)) (action_beginAccumFloat c d)"
| "run_action ops (Some A_beginAccumStr) c d s = Ok (action_beginAccumStr d, s)"
| "run_action ops (Some A_beginAccumTrue) c d s = omap (\<lambda>d. (d, s)) (action_beginAccumTrue d)"
| "run_action ops (Some A_beginAccumFalse) c d s = omap (\<lambda>d. (d, s)) (action_beginAccumFalse d)"
| "run_action ops (Some A_acceptArg) c d s = action_acceptArg ops d s"
| "run_action ops (Some A_acceptFn) c d s = action_acceptFn ops d s"
| "run_action ops (Some A_acceptFns) c d s = action_acceptFns ops d s"

subsection \<open>The state machine\<close>

record transition =
  tcond :: "char \<Rightarrow> bool"
  taction :: "fsm_action option"
  tdest :: fsm_state

type_synonym fsm_table = "fsm_state \<Rightarrow> transition list"

definition add_transition ::
  "fsm_state \<Rightarrow> (char \<Rightarrow> bool) \<Rightarrow> fsm_action option \<Rightarrow> fsm_state \<Rightarrow> fsm_table \<Rightarrow> fsm_table" where
  \<comment> \<open>a new edge goes to the front of its state's list\<close>
  "add_transition st cond act dest t =
     t(st := \<lparr>tcond = cond, taction = act, tdest = dest\<rparr> # t st)"

definition parse_edges ::
  "(fsm_state \<times> (char \<Rightarrow> bool) \<times> fsm_action option \<times> fsm_state) list" where
  "parse_edges =
    [(S_start, condition_isAlphanumeric_us, Some A_accumName, S_accumName),
     (S_start, condition_isExclaimation, Some A_invertFn, S_invertFn),
     (S_start, condition_isSpace, None, S_start),
     (S_start, condition_isNull, Some A_acceptFns, S_acceptRule),
     (S_start, condition_isNewline, Some A_acceptFns, S_acceptRule),
     (S_invertFn, condition_isAlphanumeric_us, Some A_accumName, S_accumName),
     (S_accumName, condition_isAlphanumeric_us, Some A_accumName, S_accumName),
     (S_accumName, condition_isOpenParen, None, S_beginAccumArg),
     (S_beginAccumArg, condition_isDollarSign, Some A_beginAccumVar, S_accumVar),
     (S_beginAccumArg, condition_isDigitOrMinus, Some A_beginAccumInt, S_accumInt),
     (S_beginAccumArg, condition_isDblQuote, Some A_beginAccumStr, S_accumStr),
     (S_beginAccumArg, condition_isTrue, Some A_beginAccumTrue, S_accumBool),
     (S_beginAccumArg, condition_isFalse, Some A_beginAccumFalse, S_accumBool),
     (S_beginAccumArg, condition_isClosedParen, Some A_acceptFn, S_acceptFn),
     (S_accumVar, condition_isAlphanumeric_us, Some A_accumArg, S_accumVar),
     (S_accumVar, condition_isSpace, Some A_acceptArg, S_beginAccumArg),
     (S_accumVar, condition_isClosedParen, Some A_acceptFn, S_acceptFn),
     (S_accumInt, condition_isDigit, Some A_accumArg, S_accumInt),
     (S_accumInt, condition_isPeriod, Some A_beginAccumFloat, S_beginAccumFloat),
     (S_accumInt, condition_isSpace, Some A_acceptArg, S_beginAccumArg),
     (S_accumInt, condition_isClosedParen, Some A_acceptFn, S_acceptFn),
     (S_beginAccumFloat, condition_isDigit, Some A_accumArg, S_accumFloat),
     (S_beginAccumFloat, condition_isClosedParen, Some A_acceptFn, S_acceptFn),
     (S_accumFloat, condition_isDigit, Some A_accumArg, S_accumFloat),
     (S_accumFloat, condition_isSpace, Some A_acceptArg, S_beginAccumArg),
     (S_accumFloat, condition_isClosedParen, Some A_acceptFn, S_acceptFn),
     (S_accumStr, condition_isNotDblQuoteOrNull, Some A_accumArg, S_accumStr),
     (S_accumStr, condition_isDblQuoteOrNull, None, S_endAccumStr),
     (S_accumBool, condition_isSpace, Some A_acceptArg, S_beginAccumArg),
     (S_accumBool, condition_isClosedParen, Some A_acceptFn, S_acceptFn),
     (S_endAccumStr, condition_isSpace, Some A_acceptArg, S_beginAccumArg),
     (S_endAccumStr, condition_isClosedParen, Some A_acceptFn, S_acceptFn),
     (S_acceptFn, condition_isSpace, None, S_start),
     (S_acceptFn, condition_isNull, Some A_acceptFns, S_acceptRule),
     (S_acceptFn, condition_isNewline, Some A_acceptFns, S_acceptRule)]"

definition build_parse_state_list :: fsm_table where
  "build_parse_state_list =
     fold (\<lambda>(st, cond, act, dest). add_transition st cond act dest) parse_edges (\<lambda>_. [])"

definition error_action :: "fsm_state \<Rightarrow> char \<Rightarrow> parse_data \<Rightarrow> parse_data" where
  "error_action st =
     parse_error
       (case st of
          S_start \<Rightarrow> ''an inverter [!], function name [A-Z a-z 0-9 _], or end of input [NUL]''
        | S_invertFn \<Rightarrow> ''a function name [A-Z a-z 0-9 _]''
        | S_accumName \<Rightarrow> ''a function name [A-Z a-z 0-9 _]''
        | S_beginAccumArg \<Rightarrow> ''an argument of some sort: int[0-9], bool[t/f], float[0-9], string['' @
            [CHR 0x22] @ ''], or var[$]''
        | S_accumVar \<Rightarrow> ''a variable identifier [A-Z a-z 0-9 _''
        | S_accumInt \<Rightarrow> ''an integer [0-9]''
        | S_beginAccumFloat \<Rightarrow> ''a floating point value [0-9 .]''
        | S_accumFloat \<Rightarrow> ''a floating point value [0-9]''
        | S_accumStr \<Rightarrow> ''to not enter this error state, '' @ [CHR 0x22] @ ''onStrArg'' @ [CHR 0x22] @
            '', for all possible characters are accounted for with transitions''
        | S_endAccumStr \<Rightarrow> ''a space delimiter or function closure [space or )]''
        | S_accumBool \<Rightarrow> ''a space delimiter or function closure [space or )]''
        | S_acceptFn \<Rightarrow> ''a space delimiter or end of input [space or NUL or newline]''
        | S_acceptRule \<Rightarrow> ''to not enter this error state, '' @ [CHR 0x22] @ ''onAcceptRule'' @ [CHR 0x22] @
            '', for this is a final state'')"

definition take_transition :: "fsm_state \<Rightarrow> char \<Rightarrow> transition option" where
  \<comment> \<open>the inner loop over the edges of a state\<close>
  "take_transition st c = find_first (\<lambda>t. tcond t c) (build_parse_state_list st)"

definition fsm_step ::
  "'s parser_ops \<Rightarrow> transition \<Rightarrow> parse_data \<Rightarrow> 's \<Rightarrow> (parse_data \<times> 's) outcome" where
  \<comment> \<open>advance, run the action, change state\<close>
  "fsm_step ops t d s =
     omap (\<lambda>(d', s'). (d'\<lparr>pstate := tdest t\<rparr>, s'))
       (run_action ops (taction t) (get_parse_char d) (adv_parse_ptr d) s)"

text \<open>
  The measure that makes the machine stop: the strings still to load, the characters left
  in the current one, and whether the state moves on without consuming a character.
\<close>

fun strings_left :: "parsed_type \<Rightarrow> nat" where
  "strings_left TYPE_CONDITION = 3"
| "strings_left TYPE_ACTION = 2"
| "strings_left TYPE_UNDO_ACTION = 1"
| "strings_left _ = 0"

fun state_rank :: "fsm_state \<Rightarrow> nat" where
  "state_rank S_accumStr = 1"
| "state_rank S_acceptRule = 1"
| "state_rank _ = 0"

lemma build_parse_state_list_simps:
  "build_parse_state_list S_start =
     [\<lparr>tcond = condition_isNewline, taction = Some A_acceptFns, tdest = S_acceptRule\<rparr>,
      \<lparr>tcond = condition_isNull, taction = Some A_acceptFns, tdest = S_acceptRule\<rparr>,
      \<lparr>tcond = condition_isSpace, taction = None, tdest = S_start\<rparr>,
      \<lparr>tcond = condition_isExclaimation, taction = Some A_invertFn, tdest = S_invertFn\<rparr>,
      \<lparr>tcond = condition_isAlphanumeric_us, taction = Some A_accumName, tdest = S_accumName\<rparr>]"
  "build_parse_state_list S_invertFn =
     [\<lparr>tcond = condition_isAlphanumeric_us, taction = Some A_accumName, tdest = S_accumName\<rparr>]"
  "build_parse_state_list S_accumName =
     [\<lparr>tcond = condition_isOpenParen, taction = None, tdest = S_beginAccumArg\<rparr>,
      \<lparr>tcond = condition_isAlphanumeric_us, taction = Some A_accumName, tdest = S_accumName\<rparr>]"
  "build_parse_state_list S_beginAccumArg =
     [\<lparr>tcond = condition_isClosedParen, taction = Some A_acceptFn, tdest = S_acceptFn\<rparr>,
      \<lparr>tcond = condition_isFalse, taction = Some A_beginAccumFalse, tdest = S_accumBool\<rparr>,
      \<lparr>tcond = condition_isTrue, taction = Some A_beginAccumTrue, tdest = S_accumBool\<rparr>,
      \<lparr>tcond = condition_isDblQuote, taction = Some A_beginAccumStr, tdest = S_accumStr\<rparr>,
      \<lparr>tcond = condition_isDigitOrMinus, taction = Some A_beginAccumInt, tdest = S_accumInt\<rparr>,
      \<lparr>tcond = condition_isDollarSign, taction = Some A_beginAccumVar, tdest = S_accumVar\<rparr>]"
  "build_parse_state_list S_accumVar =
     [\<lparr>tcond = condition_isClosedParen, taction = Some A_acceptFn, tdest = S_acceptFn\<rparr>,
      \<lparr>tcond = condition_isSpace, taction = Some A_acceptArg, tdest = S_beginAccumArg\<rparr>,
      \<lparr>tcond = condition_isAlphanumeric_us, taction = Some A_accumArg, tdest = S_accumVar\<rparr>]"
  "build_parse_state_list S_accumInt =
     [\<lparr>tcond = condition_isClosedParen, taction = Some A_acceptFn, tdest = S_acceptFn\<rparr>,
      \<lparr>tcond = condition_isSpace, taction = Some A_acceptArg, tdest = S_beginAccumArg\<rparr>,
      \<lparr>tcond = condition_isPeriod, taction = Some A_beginAccumFloat, tdest = S_beginAccumFloat\<rparr>,
      \<lparr>tcond = condition_isDigit, taction = Some A_accumArg, tdest = S_accumInt\<rparr>]"
  "build_parse_state_list S_beginAccumFloat =
     [\<lparr>tcond = condition_isClosedParen, taction = Some A_acceptFn, tdest = S_acceptFn\<rparr>,
      \<lparr>tcond = condition_isDigit, taction = Some A_accumArg, tdest = S_accumFloat\<rparr>]"
  "build_parse_state_list S_accumFloat =
     [\<lparr>tcond = condition_isClosedParen, taction = Some A_acceptFn, tdest = S_acceptFn\<rparr>,
      \<lparr>tcond = condition_isSpace, taction = Some A_acceptArg, tdest = S_beginAccumArg\<rparr>,
      \<lparr>tcond = condition_isDigit, taction = Some A_accumArg, tdest = S_accumFloat\<rparr>]"
  "build_parse_state_list S_accumStr =
     [\<lparr>tcond = condition_isDblQuoteOrNull, taction = None, tdest = S_endAccumStr\<rparr>,
      \<lparr>tcond = condition_isNotDblQuoteOrNull, taction = Some A_accumArg, tdest = S_accumStr\<rparr>]"
  "build_parse_state_list S_endAccumStr =
     [\<lparr>tcond = condition_isClosedParen, taction = Some A_acceptFn, tdest = S_acceptFn\<rparr>,
      \<lparr>tcond = condition_isSpace, taction = Some A_acceptArg, tdest = S_beginAccumArg\<rparr>]"
  "build_parse_state_list S_accumBool =
     [\<lparr>tcond = condition_isClosedParen, taction = Some A_acceptFn, tdest = S_acceptFn\<rparr>,
      \<lparr>tcond = condition_isSpace, taction = Some A_acceptArg, tdest = S_beginAccumArg\<rparr>]"
  "build_parse_state_list S_acceptFn =
     [\<lparr>tcond = condition_isNewline, taction = Some A_acceptFns, tdest = S_acceptRule\<rparr>,
      \<lparr>tcond = condition_isNull, taction = Some A_acceptFns, tdest = S_acceptRule\<rparr>,
      \<lparr>tcond = condition_isSpace, taction = None, tdest = S_start\<rparr>]"
  "build_parse_state_list S_acceptRule = []"
  by (simp_all add: build_parse_state_list_def parse_edges_def add_transition_def)

lemma final_state_iff: "build_parse_state_list st = [] \<longleftrightarrow> st = S_acceptRule"
  by (cases st) (simp_all add: build_parse_state_list_simps)

lemma take_transition_final: "take_transition S_acceptRule c = None"
  by (simp add: take_transition_def build_parse_state_list_simps)

text \<open>What the actions leave alone.\<close>

lemma push_arg_simps [simp]:
  "parsing (push_arg a d) = parsing d" "parse_rest (push_arg a d) = parse_rest d"
  "finished (push_arg a d) = finished d" "accum_sz (push_arg a d) = accum_sz d"
  "accum_name (push_arg a d) = accum_name d" "accum_arg (push_arg a d) = []"
  "pargs (push_arg a d) = pargs d @ [a]" "var_map (push_arg a d) = var_map d"
  by (simp_all add: push_arg_def)

lemma fail_simps [simp]:
  "parsing (fail k m d) = parsing d" "parse_rest (fail k m d) = parse_rest d"
  "finished (fail k m d)" "accum_sz (fail k m d) = accum_sz d"
  "accum_name (fail k m d) = accum_name d" "accum_arg (fail k m d) = accum_arg d"
  "error_code (fail k m d) = k" "var_map (fail k m d) = var_map d"
  by (simp_all add: fail_def perror_def)

lemma end_fn_simps [simp]:
  "parsing (end_fn d) = parsing d" "parse_rest (end_fn d) = parse_rest d"
  "finished (end_fn d) = finished d" "accum_sz (end_fn d) = accum_sz d"
  "accum_arg (end_fn d) = accum_arg d" "accum_name (end_fn d) = []"
  by (simp_all add: end_fn_def)

lemma adv_parse_ptr_simps [simp]:
  "parse_rest (adv_parse_ptr d) = tl (parse_rest d)" "parsing (adv_parse_ptr d) = parsing d"
  "finished (adv_parse_ptr d) = finished d" "accum_sz (adv_parse_ptr d) = accum_sz d"
  "accum_arg (adv_parse_ptr d) = accum_arg d" "accum_name (adv_parse_ptr d) = accum_name d"
  by (simp_all add: adv_parse_ptr_def)

lemma action_acceptArg_frame:
  assumes "action_acceptArg ops d s = Ok (d', s')"
  shows "parsing d' = parsing d \<and> parse_rest d' = parse_rest d \<and> accum_sz d' = accum_sz d \<and>
    accum_name d' = accum_name d \<and> (accum_arg d' = [] \<or> finished d' \<and> accum_arg d' = accum_arg d)"
  using assms unfolding action_acceptArg_def
  by (cases "cur_arg_type d")
    (auto simp: outcome_simps split: if_splits prod.splits)

lemma accept_var_map_entry_frame:
  assumes "accept_var_map_entry ops d s = Ok (d', s')"
  shows "parsing d' = parsing d \<and> parse_rest d' = parse_rest d \<and> accum_sz d' = accum_sz d \<and>
    accum_arg d' = accum_arg d \<and> (accum_name d' = [] \<or> finished d' \<and> accum_name d' = accum_name d)"
  using assms unfolding accept_var_map_entry_def
  by (auto simp: outcome_simps split: list.splits fn_arg.splits prod.splits)

lemma action_acceptFn_frame:
  assumes "action_acceptFn ops d s = Ok (d', s')"
  shows "parsing d' = parsing d \<and> parse_rest d' = parse_rest d \<and> accum_sz d' = accum_sz d \<and>
    (accum_arg d' = [] \<or> accum_arg d' = accum_arg d) \<and>
    (accum_name d' = [] \<or> accum_name d' = accum_name d)"
proof -
  from assms obtain e t where e: "action_acceptArg ops d s = Ok (e, t)"
    by (auto simp: action_acceptFn_def outcome_simps)
  with assms action_acceptArg_frame [OF e] show ?thesis
    by (cases "parsing e")
      (auto simp: action_acceptFn_def split: if_splits dest!: accept_var_map_entry_frame)
qed

lemma accept_rule_finished: "accept_rule ops d s = Ok (d', s') \<Longrightarrow> finished d'"
  by (auto simp: accept_rule_def outcome_simps Let_def split: prod.splits)

lemma action_acceptFns_progress:
  assumes "action_acceptFns ops d s = Ok (d', s')"
  shows "finished d' \<or> strings_left (parsing d') < strings_left (parsing d)"
proof -
  from assms obtain e t where e: "action_acceptFn ops d s = Ok (e, t)"
    by (auto simp: action_acceptFns_def outcome_simps)
  with assms action_acceptFn_frame [OF e] show ?thesis
    by (cases "parsing d")
      (auto simp: action_acceptFns_def load_parse_string_def dest: accept_rule_finished)
qed

definition parse_measure :: "(parse_data \<times> parse_data) set" where
  "parse_measure =
     measures [\<lambda>d. strings_left (parsing d), \<lambda>d. length (parse_rest d), \<lambda>d. state_rank (pstate d)]"

lemma wf_parse_measure [simp]: "wf parse_measure"
  by (simp add: parse_measure_def)

lemma run_action_frame:
  assumes "run_action ops act c d s = Ok (d', s')" and "act \<noteq> Some A_acceptFns"
  shows "parsing d' = parsing d \<and> parse_rest d' = parse_rest d"
proof (cases act)
  case None
  with assms show ?thesis by simp
next
  case (Some a)
  with assms show ?thesis
    by (cases a)
      (auto simp: outcome_simps action_accumName_def action_invertFn_def action_accumArg_def
        action_beginAccumVar_def action_beginAccumInt_def action_beginAccumFloat_def
        action_beginAccumStr_def action_beginAccumTrue_def action_beginAccumFalse_def
        split: if_splits dest: action_acceptArg_frame action_acceptFn_frame)
qed

lemma get_parse_char_cases:
  "get_parse_char d = CHR 0x00 \<or> parse_rest d \<noteq> []"
  by (cases "parse_rest d") (simp_all add: get_parse_char_def)

lemma null_transition:
  assumes "take_transition st (CHR 0x00) = Some t"
  shows "taction t = Some A_acceptFns \<or> st = S_accumStr \<and> tdest t = S_endAccumStr"
  using assms
  by (cases st) (auto simp: take_transition_def build_parse_state_list_simps condition_defs)

lemma fsm_step_progress:
  assumes "take_transition (pstate d) (get_parse_char d) = Some t"
    and "fsm_step ops t d s = Ok (d', s')" and "\<not> finished d'"
  shows "(d', d) \<in> parse_measure"
proof -
  from assms(2) obtain e where
    e: "run_action ops (taction t) (get_parse_char d) (adv_parse_ptr d) s = Ok (e, s')"
      and d': "d' = e\<lparr>pstate := tdest t\<rparr>"
    by (auto simp: fsm_step_def outcome_simps)
  show ?thesis
  proof (cases "taction t = Some A_acceptFns")
    case True
    with e have "action_acceptFns ops (adv_parse_ptr d) s = Ok (e, s')" by simp
    then have "finished e \<or> strings_left (parsing e) < strings_left (parsing (adv_parse_ptr d))"
      by (rule action_acceptFns_progress)
    with assms(3) d' show ?thesis by (simp add: parse_measure_def)
  next
    case False
    then have same: "parsing e = parsing d" "parse_rest e = tl (parse_rest d)"
      using run_action_frame [OF e] by simp_all
    show ?thesis
    proof (cases "parse_rest d = []")
      case True
      then have "get_parse_char d = CHR 0x00" by (simp add: get_parse_char_def)
      with assms(1) False null_transition have "pstate d = S_accumStr \<and> tdest t = S_endAccumStr"
        by metis
      with same d' True show ?thesis by (simp add: parse_measure_def)
    next
      case False
      with same d' show ?thesis by (simp add: parse_measure_def)
    qed
  qed
qed

text \<open>
  The main loop. The first argument of the result is the return value of \<open>parse\<close>.
\<close>

function parse_loop ::
  "'s parser_ops \<Rightarrow> parse_data \<Rightarrow> 's \<Rightarrow> (bool \<times> parse_data \<times> 's) outcome" where
  "parse_loop ops d s =
     (if finished d then Ok (error_code d = NO_PARSE_ERROR, d, s)
      else
        (case take_transition (pstate d) (get_parse_char d) of
           None \<Rightarrow>
             if build_parse_state_list (pstate d) \<noteq> []
             then Ok (False, (error_action (pstate d) (get_parse_char d) d)\<lparr>error_code := FSM_ERROR\<rparr>, s)
             else parse_loop ops (d\<lparr>pstate := S_start\<rparr>) s
         | Some t \<Rightarrow>
             (case fsm_step ops t d s of
                Crash k \<Rightarrow> Crash k
              | Ok (d', s') \<Rightarrow>
                  if finished d' then
                    (if build_parse_state_list (tdest t) \<noteq> [] then Ok (False, d', s')
                     else Ok (error_code d' = NO_PARSE_ERROR, d'\<lparr>pstate := S_start\<rparr>, s'))
                  else parse_loop ops d' s')))"
  by pat_completeness auto
termination
proof (relation "inv_image parse_measure (\<lambda>(ops, d, s). d)")
  show "wf (inv_image parse_measure (\<lambda>(ops, d, s). d))" by simp
next
  fix ops :: "'s parser_ops" and d :: parse_data and s :: 's
  assume "\<not> build_parse_state_list (pstate d) \<noteq> []"
  then show "((ops, d\<lparr>pstate := S_start\<rparr>, s), (ops, d, s)) \<in> inv_image parse_measure (\<lambda>(ops, d, s). d)"
    by (simp add: final_state_iff parse_measure_def)
next
  fix ops :: "'s parser_ops" and d d' :: parse_data and s s' :: 's and t r
  assume "take_transition (pstate d) (get_parse_char d) = Some t"
    and "fsm_step ops t d s = Ok r" and "(d', s') = r" and "\<not> finished d'"
  then show "((ops, d', s'), (ops, d, s)) \<in> inv_image parse_measure (\<lambda>(ops, d, s). d)"
    by (auto dest: fsm_step_progress)
qed

declare parse_loop.simps [simp del]

definition parse ::
  "'s parser_ops \<Rightarrow> string option \<Rightarrow> parse_data \<Rightarrow> 's \<Rightarrow> (bool \<times> parse_data \<times> 's) outcome" where
  "parse ops str d s =
     parse_loop ops
       ((load_parse_string str d)\<lparr>error_code := NO_PARSE_ERROR, rule_error_code := RULE_CODE_NOT_SET\<rparr>) s"

definition extract_parse_error :: "parse_data \<Rightarrow> string outcome" where
  \<comment> \<open>a null \<open>message\<close> is printed by \<open>%s\<close> as \<open>(null)\<close>, but \<open>strlen\<close> dereferences it\<close>
  "extract_parse_error d =
     (if error_code d = RULE_INVALID then
        (if rule_error_code d = NO_NAME then Ok ''no rule name supplied''
         else if rule_error_code d = NO_CONDITIONS then Ok ''no valid conditions supplied''
         else if rule_error_code d = NO_ACTIONS then Ok ''at least one valid action or undo action required''
         else if rule_error_code d = NAME_COLLISION then Ok ''a rule by that name already exists''
         else if rule_error_code d = BAD_PROTO then
           Ok (case message d of None \<Rightarrow> ''(null)'' | Some m \<Rightarrow> m)
         else Ok ''rule is invalid, but no reason given'')
      else if error_code d = RECOVERABLE_ERROR then
        Ok (case message d of None \<Rightarrow> ''(null)'' | Some m \<Rightarrow> m)
      else if error_code d = NO_PARSE_ERROR then Ok ''parser returned false but gave no error code.''
      else (case message d of
              None \<Rightarrow> Crash Null_Deref
            | Some m \<Rightarrow> Ok (if m \<noteq> [] then m else ''no description provided'')))"

end
