(* ===== verification/Parser_Text.thy ===== *)
theory Parser_Text
  imports Parser
begin

text \<open>
  The written form of a rule's functions and the machine's behaviour on it. A function is
  printed as \<open>name(arg arg)\<close>, with a leading exclamation mark when it is inverted; a rule
  section is a list of functions separated by spaces. The run lemmas say, piece by piece,
  what the machine has done after it has read a printed piece; \<open>parse_rule_text\<close> puts
  them together: parsing a printed rule calls \<open>apply_rule\<close> on exactly the functions that
  were printed.
\<close>

subsection \<open>The written form\<close>

fun fn_arg_text :: "fn_arg \<Rightarrow> string" where
  "fn_arg_text (FA_Int i) = show_int i"
| "fn_arg_text (FA_Float f) = show_f32 f"
| "fn_arg_text (FA_Str t) = [CHR 0x22] @ t @ [CHR 0x22]"
| "fn_arg_text (FA_Bool b) = (if b then ''t'' else ''f'')"
| "fn_arg_text (FA_Var v) = CHR ''$'' # v"

fun args_text :: "fn_arg list \<Rightarrow> string" where
  "args_text [] = []"
| "args_text [a] = fn_arg_text a"
| "args_text (a # as) = fn_arg_text a @ '' '' @ args_text as"

definition fn_text :: "fn \<Rightarrow> string" where
  "fn_text f = (if fn_undo f then [] else ''!'') @ fn_name f @ ''('' @ args_text (fn_args f) @ '')''"

text \<open>Each function with the number of spaces that follow it.\<close>

fun fns_text :: "(fn \<times> nat) list \<Rightarrow> string" where
  "fns_text [] = []"
| "fns_text ((f, n) # fs) = fn_text f @ replicate n (CHR '' '') @ fns_text fs"

fun separated :: "(fn \<times> nat) list \<Rightarrow> bool" where
  "separated [] \<longleftrightarrow> True"
| "separated [f] \<longleftrightarrow> True"
| "separated ((f, n) # fs) \<longleftrightarrow> 0 < n \<and> separated fs"

text \<open>
  Names and arguments the written form can carry. A string argument must not be empty and
  must not contain a double quote; everything has to fit the accumulators.
\<close>

definition name_ok :: "string \<Rightarrow> bool" where
  "name_ok n \<longleftrightarrow> n \<noteq> [] \<and> length n < 256 \<and> (\<forall>c \<in> set n. condition_isAlphanumeric_us c)"

fun arg_ok :: "fn_arg \<Rightarrow> bool" where
  "arg_ok (FA_Int i) \<longleftrightarrow> in_int32 i"
| "arg_ok (FA_Float f) \<longleftrightarrow> False"
| "arg_ok (FA_Str t) \<longleftrightarrow> t \<noteq> [] \<and> length t < 256 \<and> (\<forall>c \<in> set t. condition_isNotDblQuoteOrNull c)"
| "arg_ok (FA_Bool b) \<longleftrightarrow> True"
| "arg_ok (FA_Var v) \<longleftrightarrow> name_ok v"

definition fn_ok :: "fn \<Rightarrow> bool" where
  "fn_ok f \<longleftrightarrow> name_ok (fn_name f) \<and> (\<forall>a \<in> set (fn_args f). arg_ok a)"

definition vars_of :: "fn \<Rightarrow> string set" where
  "vars_of f = {v. FA_Var v \<in> set (fn_args f)}"

subsection \<open>Single steps\<close>

definition fsm_next ::
  "'s parser_ops \<Rightarrow> parse_data \<Rightarrow> 's \<Rightarrow> (parse_data \<times> 's) outcome option" where
  "fsm_next ops d s =
     map_option (\<lambda>t. fsm_step ops t d s) (take_transition (pstate d) (get_parse_char d))"

lemma parse_loop_next:
  assumes "\<not> finished d" and "fsm_next ops d s = Some (Ok (d', s'))" and "\<not> finished d'"
  shows "parse_loop ops d s = parse_loop ops d' s'"
  using assms by (subst parse_loop.simps) (auto simp: fsm_next_def split: option.splits)

lemma parse_loop_cong: "d = d' \<Longrightarrow> parse_loop ops d s = parse_loop ops d' s"
  by simp

lemmas step_simps = fsm_next_def fsm_step_def adv_parse_ptr_def get_parse_char_def
  take_transition_def build_parse_state_list_simps
  action_accumName_def action_invertFn_def action_accumArg_def action_beginAccumVar_def
  action_beginAccumInt_def action_beginAccumFloat_def action_beginAccumStr_def
  action_beginAccumTrue_def action_beginAccumFalse_def

lemma alnum_neq:
  "condition_isAlphanumeric_us c \<Longrightarrow>
     c \<noteq> CHR ''('' \<and> c \<noteq> CHR '')'' \<and> c \<noteq> CHR '' '' \<and> c \<noteq> CHR ''!'' \<and> c \<noteq> CHR 0x00 \<and> c \<noteq> CHR 0x0A"
  by (auto simp: condition_isAlphanumeric_us_def less_eq_char_def)

lemma digit_neq:
  "is_digit c \<Longrightarrow> c \<noteq> CHR '')'' \<and> c \<noteq> CHR '' '' \<and> c \<noteq> CHR ''.'' \<and> c \<noteq> CHR ''$'' \<and> c \<noteq> CHR 0x22 \<and>
     \<not> condition_isTrue c \<and> \<not> condition_isFalse c"
  by (auto simp: is_digit_code condition_isTrue_def condition_isFalse_def)

lemma name_run:
  assumes "\<forall>c \<in> set cs. condition_isAlphanumeric_us c" and "\<not> finished d" and "accum_sz d = 256"
    and "length nm + length cs \<le> 256"
  shows "parse_loop ops (d\<lparr>pstate := S_accumName, parse_rest := cs @ r, accum_name := nm\<rparr>) s =
         parse_loop ops (d\<lparr>pstate := S_accumName, parse_rest := r, accum_name := nm @ cs\<rparr>) s"
  using assms
proof (induction cs arbitrary: nm)
  case Nil
  then show ?case by simp
next
  case (Cons c cs)
  from Cons.prems have "condition_isAlphanumeric_us c" by simp
  with Cons.prems alnum_neq [of c]
  have "parse_loop ops (d\<lparr>pstate := S_accumName, parse_rest := c # cs @ r, accum_name := nm\<rparr>) s =
        parse_loop ops (d\<lparr>pstate := S_accumName, parse_rest := cs @ r, accum_name := nm @ [c]\<rparr>) s"
    by (intro parse_loop_next) (simp_all add: step_simps condition_isOpenParen_def)
  also have "\<dots> = parse_loop ops (d\<lparr>pstate := S_accumName, parse_rest := r, accum_name := (nm @ [c]) @ cs\<rparr>) s"
    by (rule Cons.IH) (use Cons.prems in auto)
  finally show ?case by simp
qed

text \<open>One lemma for the three states that loop on the argument accumulator.\<close>

definition accumulates :: "fsm_state \<Rightarrow> char \<Rightarrow> bool" where
  "accumulates st c \<longleftrightarrow>
     (\<exists>p. take_transition st c = Some \<lparr>tcond = p, taction = Some A_accumArg, tdest = st\<rparr>)"

lemma accumulates_simps:
  "condition_isAlphanumeric_us c \<Longrightarrow> accumulates S_accumVar c"
  "is_digit c \<Longrightarrow> accumulates S_accumInt c"
  "condition_isNotDblQuoteOrNull c \<Longrightarrow> accumulates S_accumStr c"
  using alnum_neq [of c] digit_neq [of c]
  by (auto simp: accumulates_def take_transition_def build_parse_state_list_simps
      condition_isClosedParen_def condition_isSpace_def condition_isPeriod_def
      condition_isDigit_def is_digit_def condition_isDblQuoteOrNull_def
      condition_isNotDblQuoteOrNull_def)

lemma arg_run:
  assumes "\<forall>c \<in> set cs. accumulates st c" and "\<not> finished d" and "accum_sz d = 256"
    and "length ar + length cs \<le> 256"
  shows "parse_loop ops (d\<lparr>pstate := st, parse_rest := cs @ r, accum_arg := ar\<rparr>) s =
         parse_loop ops (d\<lparr>pstate := st, parse_rest := r, accum_arg := ar @ cs\<rparr>) s"
  using assms
proof (induction cs arbitrary: ar)
  case Nil
  then show ?case by simp
next
  case (Cons c cs)
  from Cons.prems obtain p where
    "take_transition st c = Some \<lparr>tcond = p, taction = Some A_accumArg, tdest = st\<rparr>"
    by (auto simp: accumulates_def)
  with Cons.prems
  have "parse_loop ops (d\<lparr>pstate := st, parse_rest := c # cs @ r, accum_arg := ar\<rparr>) s =
        parse_loop ops (d\<lparr>pstate := st, parse_rest := cs @ r, accum_arg := ar @ [c]\<rparr>) s"
    by (intro parse_loop_next)
      (simp_all add: fsm_next_def fsm_step_def adv_parse_ptr_def get_parse_char_def action_accumArg_def)
  also have "\<dots> = parse_loop ops (d\<lparr>pstate := st, parse_rest := r, accum_arg := (ar @ [c]) @ cs\<rparr>) s"
    by (rule Cons.IH) (use Cons.prems in auto)
  finally show ?case by simp
qed

subsection \<open>Arguments\<close>

text \<open>
  The state and accumulator after the text of an argument, and what accepting it there
  pushes.
\<close>

fun arg_end_state :: "fn_arg \<Rightarrow> fsm_state" where
  "arg_end_state (FA_Int _) = S_accumInt"
| "arg_end_state (FA_Float _) = S_accumFloat"
| "arg_end_state (FA_Str _) = S_endAccumStr"
| "arg_end_state (FA_Bool _) = S_accumBool"
| "arg_end_state (FA_Var _) = S_accumVar"

fun arg_accum :: "fn_arg \<Rightarrow> string" where
  "arg_accum (FA_Str t) = t"
| "arg_accum (FA_Var v) = v"
| "arg_accum a = fn_arg_text a"

lemma length_show_nat: "n < 10 ^ Suc k \<Longrightarrow> length (show_nat n) \<le> Suc k"
proof (induction k arbitrary: n)
  case 0
  then show ?case by (simp add: show_nat.simps [of n])
next
  case (Suc k)
  show ?case
  proof (cases "n < 10")
    case True
    then show ?thesis by (simp add: show_nat.simps [of n])
  next
    case False
    have "n div 10 < 10 ^ Suc k" using Suc.prems by (simp add: less_mult_imp_div_less)
    from Suc.IH [OF this] False show ?thesis by (simp add: show_nat.simps [of n])
  qed
qed

lemma length_show_int: "in_int32 i \<Longrightarrow> length (show_int i) \<le> 11"
  using length_show_nat [of "nat i" 9] length_show_nat [of "nat (- i)" 9]
  by (cases "i < 0") (simp_all add: in_int32_def show_int_def nat_less_iff)

lemma arg_accum_length: "arg_ok a \<Longrightarrow> length (arg_accum a) < 256"
  by (cases a) (auto simp: name_ok_def dest: length_show_int)

lemma arg_accum_nonempty: "arg_ok a \<Longrightarrow> arg_accum a \<noteq> []"
  by (cases a) (auto simp: name_ok_def show_int_def)

lemma int_text_run:
  assumes "in_int32 i" and "\<not> finished d" and "accum_sz d = 256"
  shows "parse_loop ops (d\<lparr>pstate := S_beginAccumArg, parse_rest := show_int i @ r, accum_arg := []\<rparr>) s =
         parse_loop ops (d\<lparr>pstate := S_accumInt, parse_rest := r, accum_arg := show_int i,
                           cur_arg_type := TYPE_INT\<rparr>) s"
proof -
  obtain c cs where c: "show_int i = c # cs" and first: "is_digit c \<or> c = CHR ''-''"
    and rest: "\<forall>x \<in> set cs. is_digit x"
  proof (cases "i < 0")
    case True
    show ?thesis
      by (rule that [of "CHR ''-''" "show_nat (nat (- i))"])
        (use True show_nat_digits in \<open>auto simp: show_int_def\<close>)
  next
    case False
    obtain c cs where "show_nat (nat i) = c # cs" by (cases "show_nat (nat i)") simp_all
    with False show_nat_digits [of _ "nat i"] show ?thesis
      by (intro that [of c cs]) (auto simp: show_int_def)
  qed
  let ?d = "d\<lparr>cur_arg_type := TYPE_INT\<rparr>"
  have "parse_loop ops (d\<lparr>pstate := S_beginAccumArg, parse_rest := c # cs @ r, accum_arg := []\<rparr>) s =
        parse_loop ops (?d\<lparr>pstate := S_accumInt, parse_rest := cs @ r, accum_arg := [c]\<rparr>) s"
    using first
  proof
    assume "is_digit c"
    with digit_neq [of c] assms show ?thesis
      by (intro parse_loop_next)
        (simp_all add: step_simps condition_isClosedParen_def condition_isDblQuote_def
          condition_isDigitOrMinus_def is_digit_def)
  next
    assume "c = CHR ''-''"
    with assms show ?thesis
      by (intro parse_loop_next) (simp_all add: step_simps condition_defs)
  qed
  also have "\<dots> = parse_loop ops (?d\<lparr>pstate := S_accumInt, parse_rest := r, accum_arg := [c] @ cs\<rparr>) s"
    by (rule arg_run) (use assms rest length_show_int [of i] c in \<open>auto intro: accumulates_simps\<close>)
  also have "\<dots> = parse_loop ops (d\<lparr>pstate := S_accumInt, parse_rest := r, accum_arg := show_int i,
                           cur_arg_type := TYPE_INT\<rparr>) s"
    by (rule parse_loop_cong) (simp add: c)
  finally show ?thesis using c by simp
qed

lemma arg_text_run:
  assumes "arg_ok a" and "\<not> finished d" and "accum_sz d = 256"
  shows "parse_loop ops (d\<lparr>pstate := S_beginAccumArg, parse_rest := fn_arg_text a @ r, accum_arg := []\<rparr>) s =
         parse_loop ops (d\<lparr>pstate := arg_end_state a, parse_rest := r, accum_arg := arg_accum a,
                           cur_arg_type := parsed_type_of a\<rparr>) s"
proof (cases a)
  case (FA_Int i)
  with assms show ?thesis by (simp add: int_text_run)
next
  case (FA_Float f)
  with assms show ?thesis by simp
next
  case (FA_Bool b)
  with assms show ?thesis
    by (intro parse_loop_next)
      (auto simp: step_simps condition_isClosedParen_def condition_isTrue_def condition_isFalse_def)
next
  case (FA_Var v)
  let ?d = "d\<lparr>cur_arg_type := TYPE_VAR\<rparr>"
  have "parse_loop ops (d\<lparr>pstate := S_beginAccumArg, parse_rest := CHR ''$'' # v @ r, accum_arg := []\<rparr>) s =
        parse_loop ops (?d\<lparr>pstate := S_accumVar, parse_rest := v @ r, accum_arg := []\<rparr>) s"
    using assms by (intro parse_loop_next) (simp_all add: step_simps condition_defs)
  also have "\<dots> = parse_loop ops (?d\<lparr>pstate := S_accumVar, parse_rest := r, accum_arg := [] @ v\<rparr>) s"
    by (rule arg_run) (use assms FA_Var in \<open>auto simp: name_ok_def intro: accumulates_simps\<close>)
  also have "\<dots> = parse_loop ops (d\<lparr>pstate := S_accumVar, parse_rest := r, accum_arg := v,
                           cur_arg_type := TYPE_VAR\<rparr>) s"
    by (rule parse_loop_cong) simp
  finally show ?thesis using FA_Var by simp
next
  case (FA_Str t)
  let ?d = "d\<lparr>cur_arg_type := TYPE_STR\<rparr>"
  have "parse_loop ops (d\<lparr>pstate := S_beginAccumArg, parse_rest := CHR 0x22 # t @ CHR 0x22 # r, accum_arg := []\<rparr>) s =
        parse_loop ops (?d\<lparr>pstate := S_accumStr, parse_rest := t @ CHR 0x22 # r, accum_arg := []\<rparr>) s"
    using assms by (intro parse_loop_next) (simp_all add: step_simps condition_defs)
  also have "\<dots> = parse_loop ops (?d\<lparr>pstate := S_accumStr, parse_rest := CHR 0x22 # r, accum_arg := [] @ t\<rparr>) s"
    by (rule arg_run) (use assms FA_Str in \<open>auto intro: accumulates_simps\<close>)
  also have "\<dots> = parse_loop ops (?d\<lparr>pstate := S_endAccumStr, parse_rest := r, accum_arg := t\<rparr>) s"
    using assms by (intro parse_loop_next) (simp_all add: step_simps condition_defs)
  also have "\<dots> = parse_loop ops (d\<lparr>pstate := S_endAccumStr, parse_rest := r, accum_arg := t,
                           cur_arg_type := TYPE_STR\<rparr>) s"
    by (rule parse_loop_cong) simp
  finally show ?thesis using FA_Str by simp
qed


subsection \<open>Functions\<close>

text \<open>
  What a function adds to the parser's state once its closing parenthesis is read, while
  one of the three sections of a rule or a single argument is being parsed.
\<close>

definition takes_fns :: "parse_data \<Rightarrow> bool" where
  "takes_fns d \<longleftrightarrow> parsing d = TYPE_CONDITION \<or> parsing d = TYPE_ACTION \<or> parsing d = TYPE_UNDO_ACTION \<or>
     parsing d = TYPE_ARG"

definition record_fn :: "fn \<Rightarrow> parse_data \<Rightarrow> parse_data" where
  "record_fn f d =
     (if parsing d = TYPE_CONDITION then d\<lparr>pconditions := pconditions d @ [f]\<rparr>
      else if parsing d = TYPE_ACTION then d\<lparr>pactions := pactions d @ [f]\<rparr>
      else if parsing d = TYPE_UNDO_ACTION
      then d\<lparr>pundo_actions := pundo_actions d @ [f\<lparr>fn_undo := False\<rparr>]\<rparr>
      else d\<lparr>parsed_arg := Some (f\<lparr>fn_undo := False\<rparr>)\<rparr>)"

definition ready :: "parse_data \<Rightarrow> bool" where
  "ready d \<longleftrightarrow> takes_fns d \<and> \<not> finished d \<and> accum_sz d = 256"

definition resolves :: "'s parser_ops \<Rightarrow> 's \<Rightarrow> fn_arg \<Rightarrow> bool" where
  "resolves ops s a \<longleftrightarrow> (\<forall>v. a = FA_Var v \<longrightarrow> op_lookup_var ops v s = Ok (True, s))"

lemma acceptArg_value:
  assumes "arg_ok a" and "accum_sz d = 256" and "resolves ops s a"
    and "accum_arg d = arg_accum a" and "cur_arg_type d = parsed_type_of a"
  shows "action_acceptArg ops d s = Ok (push_arg a d, s)"
proof -
  have len: "length (arg_accum a) < 256" and ne: "arg_accum a \<noteq> []"
    using assms(1) arg_accum_length arg_accum_nonempty by auto
  with assms show ?thesis
    by (cases a) (auto simp: action_acceptArg_def resolves_def scan_show_int)
qed

lemma acceptFn_value:
  assumes "arg_ok a" and "ready d" and "resolves ops s a"
    and "accum_arg d = arg_accum a" and "cur_arg_type d = parsed_type_of a"
    and "accum_name d \<noteq> []" and "length (accum_name d) < 256"
  shows "action_acceptFn ops d s =
    Ok (end_fn (record_fn \<lparr>fn_name = accum_name d, fn_args = pargs d @ [a], fn_undo = undo d\<rparr> (push_arg a d)), s)"
proof -
  have "action_acceptArg ops d s = Ok (push_arg a d, s)"
    using assms(1-5) by (intro acceptArg_value) (simp_all add: ready_def)
  moreover have "parsing d = TYPE_CONDITION \<or> parsing d = TYPE_ACTION \<or> parsing d = TYPE_UNDO_ACTION \<or>
      parsing d = TYPE_ARG"
    and "accum_sz d = 256"
    using assms(2) by (simp_all add: ready_def takes_fns_def)
  ultimately show ?thesis using assms(6,7)
    by (elim disjE) (simp_all add: action_acceptFn_def record_fn_def push_arg_def)
qed

lemma acceptFn_empty:
  assumes "ready d" and "accum_arg d = []" and "accum_name d \<noteq> []" and "length (accum_name d) < 256"
  shows "action_acceptFn ops d s =
    Ok (end_fn (record_fn \<lparr>fn_name = accum_name d, fn_args = pargs d, fn_undo = undo d\<rparr> d), s)"
  using assms
  by (auto simp: action_acceptFn_def action_acceptArg_def ready_def takes_fns_def record_fn_def)

lemma close_transition:
  "st \<in> {S_beginAccumArg, S_accumVar, S_accumInt, S_accumFloat, S_endAccumStr, S_accumBool} \<Longrightarrow>
   take_transition st (CHR '')'') =
     Some \<lparr>tcond = condition_isClosedParen, taction = Some A_acceptFn, tdest = S_acceptFn\<rparr>"
  by (auto simp: take_transition_def build_parse_state_list_simps condition_isClosedParen_def)

lemma space_transition:
  "take_transition (arg_end_state a) (CHR '' '') =
     Some \<lparr>tcond = condition_isSpace, taction = Some A_acceptArg, tdest = S_beginAccumArg\<rparr>"
  by (cases a)
    (simp_all add: take_transition_def build_parse_state_list_simps condition_isClosedParen_def condition_isSpace_def)

lemma arg_end_closes:
  "arg_end_state a \<in> {S_beginAccumArg, S_accumVar, S_accumInt, S_accumFloat, S_endAccumStr, S_accumBool}"
  by (cases a) simp_all

lemma ready_updates [simp]:
  "ready (d\<lparr>pstate := st\<rparr>) = ready d" "ready (d\<lparr>parse_rest := r\<rparr>) = ready d"
  "ready (d\<lparr>accum_arg := ar\<rparr>) = ready d" "ready (d\<lparr>accum_name := nm\<rparr>) = ready d"
  "ready (d\<lparr>pargs := ps\<rparr>) = ready d" "ready (d\<lparr>cur_arg_type := t\<rparr>) = ready d"
  "ready (d\<lparr>undo := u\<rparr>) = ready d" "ready (record_fn f d) = ready d"
  by (simp_all add: ready_def takes_fns_def record_fn_def)

lemma ready_facts: "ready d \<Longrightarrow> \<not> finished d" "ready d \<Longrightarrow> accum_sz d = 256"
  by (simp_all add: ready_def)

lemma finished_record_fn [simp]: "finished (record_fn f d) = finished d"
  by (simp add: record_fn_def)

lemmas loop_step_simps = fsm_next_def fsm_step_def get_parse_char_def adv_parse_ptr_def

text \<open>
  The arguments of a function up to and including the closing parenthesis. The type of the
  last argument stays behind in \<open>cur_arg_type\<close>.
\<close>

lemma args_run:
  assumes "\<forall>a \<in> set as. arg_ok a \<and> resolves ops s a" and "ready d"
    and "accum_name d \<noteq> []" and "length (accum_name d) < 256"
  shows "\<exists>t. parse_loop ops (d\<lparr>pstate := S_beginAccumArg, parse_rest := args_text as @ CHR '')'' # r,
                              accum_arg := [], pargs := ps\<rparr>) s =
    parse_loop ops ((record_fn \<lparr>fn_name = accum_name d, fn_args = ps @ as, fn_undo = undo d\<rparr> d)
      \<lparr>pstate := S_acceptFn, parse_rest := r, accum_arg := [], pargs := [], accum_name := [],
       undo := True, cur_arg_type := t\<rparr>) s"
  using assms
proof (induction as arbitrary: ps d rule: args_text.induct)
  case 1
  let ?d = "d\<lparr>pstate := S_beginAccumArg, parse_rest := CHR '')'' # r, accum_arg := [], pargs := ps\<rparr>"
  have "parse_loop ops ?d s =
    parse_loop ops ((record_fn \<lparr>fn_name = accum_name d, fn_args = ps, fn_undo = undo d\<rparr> d)
      \<lparr>pstate := S_acceptFn, parse_rest := r, accum_arg := [], pargs := [], accum_name := [],
       undo := True, cur_arg_type := cur_arg_type d\<rparr>) s"
    using "1.prems"
    by (intro parse_loop_next)
      (simp_all add: ready_facts loop_step_simps close_transition acceptFn_empty record_fn_def end_fn_def)
  then show ?case by auto
next
  case (2 a)
  let ?d = "d\<lparr>pstate := arg_end_state a, parse_rest := CHR '')'' # r, accum_arg := arg_accum a, pargs := ps,
              cur_arg_type := parsed_type_of a\<rparr>"
  have "parse_loop ops (d\<lparr>pstate := S_beginAccumArg, parse_rest := fn_arg_text a @ CHR '')'' # r,
                          accum_arg := [], pargs := ps\<rparr>) s =
    parse_loop ops ((d\<lparr>pargs := ps\<rparr>)\<lparr>pstate := S_beginAccumArg, parse_rest := fn_arg_text a @ CHR '')'' # r,
                          accum_arg := []\<rparr>) s"
    by (rule parse_loop_cong) simp
  also have "\<dots> = parse_loop ops ((d\<lparr>pargs := ps\<rparr>)\<lparr>pstate := arg_end_state a, parse_rest := CHR '')'' # r,
      accum_arg := arg_accum a, cur_arg_type := parsed_type_of a\<rparr>) s"
    by (rule arg_text_run) (use "2.prems" in \<open>simp_all add: ready_facts\<close>)
  also have "\<dots> = parse_loop ops ?d s"
    by (rule parse_loop_cong) simp
  also have "\<dots> =
    parse_loop ops ((record_fn \<lparr>fn_name = accum_name d, fn_args = ps @ [a], fn_undo = undo d\<rparr> d)
      \<lparr>pstate := S_acceptFn, parse_rest := r, accum_arg := [], pargs := [], accum_name := [],
       undo := True, cur_arg_type := parsed_type_of a\<rparr>) s"
    using "2.prems"
    by (intro parse_loop_next)
      (simp_all add: ready_facts loop_step_simps close_transition [OF arg_end_closes]
        acceptFn_value [of a] record_fn_def end_fn_def push_arg_def)
  finally show ?case by auto
next
  case (3 a b cs)
  let ?rest = "args_text (b # cs) @ CHR '')'' # r"
  let ?d = "d\<lparr>pargs := ps\<rparr>" and ?e = "d\<lparr>cur_arg_type := parsed_type_of a\<rparr>"
  have "parse_loop ops (d\<lparr>pstate := S_beginAccumArg, parse_rest := fn_arg_text a @ CHR '' '' # ?rest,
                          accum_arg := [], pargs := ps\<rparr>) s =
    parse_loop ops (?d\<lparr>pstate := S_beginAccumArg, parse_rest := fn_arg_text a @ CHR '' '' # ?rest,
                          accum_arg := []\<rparr>) s"
    by (rule parse_loop_cong) simp
  also have "\<dots> = parse_loop ops (?d\<lparr>pstate := arg_end_state a, parse_rest := CHR '' '' # ?rest,
      accum_arg := arg_accum a, cur_arg_type := parsed_type_of a\<rparr>) s"
    by (rule arg_text_run) (use "3.prems" in \<open>simp_all add: ready_facts\<close>)
  also have "\<dots> = parse_loop ops (?e\<lparr>pstate := S_beginAccumArg, parse_rest := ?rest, accum_arg := [],
      pargs := ps @ [a]\<rparr>) s"
    using "3.prems"
    by (intro parse_loop_next)
      (simp_all add: ready_facts loop_step_simps space_transition acceptArg_value [of a] push_arg_def)
  finally have step: "parse_loop ops (d\<lparr>pstate := S_beginAccumArg,
      parse_rest := args_text (a # b # cs) @ CHR '')'' # r, accum_arg := [], pargs := ps\<rparr>) s = \<dots>"
    by simp
  obtain t where "parse_loop ops (?e\<lparr>pstate := S_beginAccumArg, parse_rest := ?rest, accum_arg := [],
      pargs := ps @ [a]\<rparr>) s =
    parse_loop ops ((record_fn \<lparr>fn_name = accum_name ?e, fn_args = (ps @ [a]) @ b # cs, fn_undo = undo ?e\<rparr> ?e)
      \<lparr>pstate := S_acceptFn, parse_rest := r, accum_arg := [], pargs := [], accum_name := [],
       undo := True, cur_arg_type := t\<rparr>) s"
    using "3.IH" [of ?e "ps @ [a]"] "3.prems" by auto
  moreover have "\<dots> = parse_loop ops
    ((record_fn \<lparr>fn_name = accum_name d, fn_args = ps @ a # b # cs, fn_undo = undo d\<rparr> d)
      \<lparr>pstate := S_acceptFn, parse_rest := r, accum_arg := [], pargs := [], accum_name := [],
       undo := True, cur_arg_type := t\<rparr>) s"
    by (rule parse_loop_cong) (simp add: record_fn_def)
  ultimately show ?case using step by metis
qed


text \<open>Between two functions everything that accumulates is empty.\<close>

definition clean :: "parse_data \<Rightarrow> bool" where
  "clean d \<longleftrightarrow> ready d \<and> undo d \<and> accum_name d = [] \<and> accum_arg d = [] \<and> pargs d = []"

lemma clean_updates [simp]:
  "clean (d\<lparr>pstate := st\<rparr>) = clean d" "clean (d\<lparr>parse_rest := r\<rparr>) = clean d"
  "clean (d\<lparr>cur_arg_type := t\<rparr>) = clean d"
  "clean (record_fn f d) = clean d"
  by (simp_all add: clean_def) (simp_all add: record_fn_def)

lemma name_start:
  assumes "condition_isAlphanumeric_us c" and "ready d" and "accum_name d = []"
    and "st = S_start \<or> st = S_invertFn"
  shows "parse_loop ops (d\<lparr>pstate := st, parse_rest := c # r\<rparr>) s =
         parse_loop ops (d\<lparr>pstate := S_accumName, parse_rest := r, accum_name := [c]\<rparr>) s"
  using assms(4)
proof
  assume "st = S_start"
  with assms(1-3) alnum_neq [of c] ready_facts [of d] show ?thesis
    by (intro parse_loop_next)
      (simp_all add: step_simps condition_isNewline_def condition_isNull_def condition_isSpace_def
        condition_isExclaimation_def)
next
  assume "st = S_invertFn"
  with assms(1-3) ready_facts [of d] show ?thesis
    by (intro parse_loop_next) (simp_all add: step_simps)
qed

lemma named_run:
  assumes "fn_ok f" and "\<forall>a \<in> set (fn_args f). resolves ops s a" and "clean (d\<lparr>undo := True\<rparr>)"
    and "undo d = fn_undo f" and "st = S_start \<or> st = S_invertFn"
  shows "\<exists>t. parse_loop ops
      (d\<lparr>pstate := st, parse_rest := fn_name f @ ''('' @ args_text (fn_args f) @ '')'' @ r\<rparr>) s =
    parse_loop ops ((record_fn f d)\<lparr>pstate := S_acceptFn, parse_rest := r, undo := True, cur_arg_type := t\<rparr>) s"
proof -
  from assms(1) obtain c cs where nm: "fn_name f = c # cs"
    by (cases "fn_name f") (auto simp: fn_ok_def name_ok_def)
  have ok: "condition_isAlphanumeric_us c" "\<forall>x \<in> set cs. condition_isAlphanumeric_us x"
      "length (fn_name f) < 256" "\<forall>a \<in> set (fn_args f). arg_ok a"
    using assms(1) nm by (auto simp: fn_ok_def name_ok_def)
  have d: "ready d" "accum_name d = []" "accum_arg d = []" "pargs d = []"
    using assms(3) by (simp_all add: clean_def)
  let ?args = "args_text (fn_args f) @ CHR '')'' # r"
  have "parse_loop ops (d\<lparr>pstate := st, parse_rest := c # cs @ CHR ''('' # ?args\<rparr>) s =
        parse_loop ops (d\<lparr>pstate := S_accumName, parse_rest := cs @ CHR ''('' # ?args, accum_name := [c]\<rparr>) s"
    using ok d assms(5) by (intro name_start)
  also have "\<dots> = parse_loop ops (d\<lparr>pstate := S_accumName, parse_rest := CHR ''('' # ?args, accum_name := [c] @ cs\<rparr>) s"
    by (rule name_run) (use ok d nm in \<open>simp_all add: ready_facts\<close>)
  also have "\<dots> = parse_loop ops ((d\<lparr>accum_name := fn_name f\<rparr>)\<lparr>pstate := S_beginAccumArg, parse_rest := ?args,
      accum_arg := [], pargs := []\<rparr>) s"
    using d nm by (intro parse_loop_next) (simp_all add: ready_facts step_simps condition_isOpenParen_def)
  finally have start: "parse_loop ops (d\<lparr>pstate := st, parse_rest := c # cs @ CHR ''('' # ?args\<rparr>) s = \<dots>" .
  obtain t where "parse_loop ops ((d\<lparr>accum_name := fn_name f\<rparr>)\<lparr>pstate := S_beginAccumArg, parse_rest := ?args,
      accum_arg := [], pargs := []\<rparr>) s =
    parse_loop ops ((record_fn \<lparr>fn_name = fn_name f, fn_args = [] @ fn_args f, fn_undo = undo d\<rparr> (d\<lparr>accum_name := fn_name f\<rparr>))
      \<lparr>pstate := S_acceptFn, parse_rest := r, accum_arg := [], pargs := [], accum_name := [],
       undo := True, cur_arg_type := t\<rparr>) s"
    using args_run [of "fn_args f" ops s "d\<lparr>accum_name := fn_name f\<rparr>" "[]" r] ok d nm assms(2) by auto
  moreover have "\<dots> = parse_loop ops ((record_fn f d)
      \<lparr>pstate := S_acceptFn, parse_rest := r, undo := True, cur_arg_type := t\<rparr>) s"
    using d assms(4) by (intro parse_loop_cong) (simp add: record_fn_def)
  ultimately have "parse_loop ops (d\<lparr>pstate := st, parse_rest := c # cs @ CHR ''('' # ?args\<rparr>) s = \<dots>"
    using start by simp
  then show ?thesis using nm by auto
qed

lemma fn_run:
  assumes "fn_ok f" and "\<forall>a \<in> set (fn_args f). resolves ops s a" and "clean d"
  shows "\<exists>t. parse_loop ops (d\<lparr>pstate := S_start, parse_rest := fn_text f @ r\<rparr>) s =
    parse_loop ops ((record_fn f d)\<lparr>pstate := S_acceptFn, parse_rest := r, cur_arg_type := t\<rparr>) s"
proof (cases "fn_undo f")
  case True
  with named_run [OF assms(1,2), of d S_start r] assms(3) obtain t where
    "parse_loop ops (d\<lparr>pstate := S_start, parse_rest := fn_text f @ r\<rparr>) s =
     parse_loop ops ((record_fn f d)\<lparr>pstate := S_acceptFn, parse_rest := r, undo := True, cur_arg_type := t\<rparr>) s"
    by (auto simp: fn_text_def clean_def)
  moreover have "\<dots> = parse_loop ops ((record_fn f d)\<lparr>pstate := S_acceptFn, parse_rest := r, cur_arg_type := t\<rparr>) s"
    using assms(3) by (intro parse_loop_cong) (simp add: clean_def record_fn_def)
  ultimately show ?thesis by metis
next
  case False
  let ?d = "d\<lparr>undo := False\<rparr>" and ?txt = "fn_name f @ ''('' @ args_text (fn_args f) @ '')'' @ r"
  have "parse_loop ops (d\<lparr>pstate := S_start, parse_rest := CHR ''!'' # ?txt\<rparr>) s =
        parse_loop ops (?d\<lparr>pstate := S_invertFn, parse_rest := ?txt\<rparr>) s"
    using assms(3) by (intro parse_loop_next) (simp_all add: ready_facts clean_def step_simps condition_defs)
  moreover obtain t where "parse_loop ops (?d\<lparr>pstate := S_invertFn, parse_rest := ?txt\<rparr>) s =
     parse_loop ops ((record_fn f ?d)\<lparr>pstate := S_acceptFn, parse_rest := r, undo := True, cur_arg_type := t\<rparr>) s"
    using named_run [OF assms(1,2), of ?d S_invertFn r] assms(3) False by (auto simp: clean_def)
  moreover have "\<dots> = parse_loop ops ((record_fn f d)\<lparr>pstate := S_acceptFn, parse_rest := r, cur_arg_type := t\<rparr>) s"
    using assms(3) by (intro parse_loop_cong) (simp add: clean_def record_fn_def)
  ultimately show ?thesis using False by (auto simp: fn_text_def)
qed


subsection \<open>Sections\<close>

lemma space_step:
  assumes "\<not> finished d" and "st = S_start \<or> st = S_acceptFn"
  shows "parse_loop ops (d\<lparr>pstate := st, parse_rest := CHR '' '' # r\<rparr>) s =
         parse_loop ops (d\<lparr>pstate := S_start, parse_rest := r\<rparr>) s"
  using assms(2)
  by (elim disjE) (use assms(1) in \<open>auto intro!: parse_loop_next simp: step_simps condition_defs\<close>)

lemma spaces_run:
  assumes "\<not> finished d"
  shows "parse_loop ops (d\<lparr>pstate := S_start, parse_rest := replicate n (CHR '' '') @ r\<rparr>) s =
         parse_loop ops (d\<lparr>pstate := S_start, parse_rest := r\<rparr>) s"
  by (induction n) (simp_all add: space_step assms)

lemma gap_run:
  assumes "\<not> finished d" and "0 < n \<or> r = []"
  shows "\<exists>st. (st = S_start \<or> n = 0 \<and> st = S_acceptFn) \<and>
    parse_loop ops (d\<lparr>pstate := S_acceptFn, parse_rest := replicate n (CHR '' '') @ r\<rparr>) s =
    parse_loop ops (d\<lparr>pstate := st, parse_rest := r\<rparr>) s"
proof (cases n)
  case 0
  with assms show ?thesis by auto
next
  case (Suc k)
  with assms show ?thesis by (auto simp: space_step spaces_run)
qed

lemma fold_record_fn_type:
  "fold record_fn fs (d\<lparr>cur_arg_type := t\<rparr>) = (fold record_fn fs d)\<lparr>cur_arg_type := t\<rparr>"
proof (induction fs arbitrary: d)
  case (Cons f fs)
  have "record_fn f (d\<lparr>cur_arg_type := t\<rparr>) = (record_fn f d)\<lparr>cur_arg_type := t\<rparr>"
    by (simp add: record_fn_def)
  with Cons show ?case by simp
qed simp

lemma section_run:
  assumes "\<forall>(f, n) \<in> set fs. fn_ok f \<and> (\<forall>a \<in> set (fn_args f). resolves ops s a)"
    and "separated fs" and "clean d"
  shows "\<exists>st t. (st = S_start \<or> st = S_acceptFn) \<and>
    parse_loop ops (d\<lparr>pstate := S_start, parse_rest := fns_text fs\<rparr>) s =
    parse_loop ops ((fold record_fn (map fst fs) d)\<lparr>pstate := st, parse_rest := [], cur_arg_type := t\<rparr>) s"
  using assms
proof (induction fs arbitrary: d)
  case Nil
  have "parse_loop ops (d\<lparr>pstate := S_start, parse_rest := []\<rparr>) s =
    parse_loop ops (d\<lparr>pstate := S_start, parse_rest := [], cur_arg_type := cur_arg_type d\<rparr>) s"
    by (rule parse_loop_cong) simp
  then show ?case by (simp only: fns_text.simps list.map fold_simps) blast
next
  case (Cons p fs)
  obtain f n where p: "p = (f, n)" by (cases p)
  let ?gap = "replicate n (CHR '' '') @ fns_text fs"
  obtain t where t: "parse_loop ops (d\<lparr>pstate := S_start, parse_rest := fns_text (p # fs)\<rparr>) s =
    parse_loop ops ((record_fn f d)\<lparr>pstate := S_acceptFn, parse_rest := ?gap, cur_arg_type := t\<rparr>) s"
    using fn_run [of f ops s d ?gap] Cons.prems p by auto
  let ?e = "(record_fn f d)\<lparr>cur_arg_type := t\<rparr>"
  have e: "clean ?e" "\<not> finished ?e"
    using Cons.prems(3) by (simp, simp add: clean_def ready_facts)
  have "parse_loop ops ((record_fn f d)\<lparr>pstate := S_acceptFn, parse_rest := ?gap, cur_arg_type := t\<rparr>) s =
    parse_loop ops (?e\<lparr>pstate := S_acceptFn, parse_rest := ?gap\<rparr>) s"
    by (rule parse_loop_cong) simp
  moreover have "0 < n \<or> fns_text fs = []"
    using Cons.prems(2) p by (cases fs) auto
  ultimately obtain st where st: "st = S_start \<or> n = 0 \<and> st = S_acceptFn"
    and run: "parse_loop ops (d\<lparr>pstate := S_start, parse_rest := fns_text (p # fs)\<rparr>) s =
      parse_loop ops (?e\<lparr>pstate := st, parse_rest := fns_text fs\<rparr>) s"
    using gap_run [OF e(2), of n "fns_text fs" ops s] t by auto
  show ?case
  proof (cases "st = S_start")
    case True
    obtain st' t' where "st' = S_start \<or> st' = S_acceptFn" and
      "parse_loop ops (?e\<lparr>pstate := S_start, parse_rest := fns_text fs\<rparr>) s =
       parse_loop ops ((fold record_fn (map fst fs) ?e)\<lparr>pstate := st', parse_rest := [], cur_arg_type := t'\<rparr>) s"
      using Cons.IH [of ?e] Cons.prems e(1) by (cases fs) (auto simp: p)
    moreover have "(fold record_fn (map fst fs) ?e)\<lparr>pstate := st', parse_rest := [], cur_arg_type := t'\<rparr> =
       (fold record_fn (map fst (p # fs)) d)\<lparr>pstate := st', parse_rest := [], cur_arg_type := t'\<rparr>"
      by (simp add: fold_record_fn_type p)
    ultimately show ?thesis using run True by metis
  next
    case False
    with st Cons.prems(2) p have "fs = []" by (cases fs) auto
    moreover have "(?e\<lparr>pstate := st, parse_rest := []\<rparr>) =
       (fold record_fn (map fst [p]) d)\<lparr>pstate := st, parse_rest := [], cur_arg_type := t\<rparr>"
      by (simp add: p)
    ultimately show ?thesis using run st by (metis fns_text.simps(1))
  qed
qed


lemma fold_record_fn:
  "parsing d = TYPE_CONDITION \<Longrightarrow> fold record_fn fs d = d\<lparr>pconditions := pconditions d @ fs\<rparr>"
  "parsing d = TYPE_ACTION \<Longrightarrow> fold record_fn fs d = d\<lparr>pactions := pactions d @ fs\<rparr>"
  "parsing d = TYPE_UNDO_ACTION \<Longrightarrow>
     fold record_fn fs d = d\<lparr>pundo_actions := pundo_actions d @ map (fn_undo_update (\<lambda>_. False)) fs\<rparr>"
  by (induction fs arbitrary: d) (simp_all add: record_fn_def)

text \<open>
  At the end of a section the machine loads the next one, or, after the undo actions,
  applies the rule.
\<close>

lemma end_transition:
  "st = S_start \<or> st = S_acceptFn \<Longrightarrow>
   take_transition st (CHR 0x00) =
     Some \<lparr>tcond = condition_isNull, taction = Some A_acceptFns, tdest = S_acceptRule\<rparr>"
  by (elim disjE) (simp_all add: take_transition_def build_parse_state_list_simps condition_defs)

lemma acceptFn_clean: "clean d \<Longrightarrow> action_acceptFn ops d s = Ok (d, s)"
  by (simp add: action_acceptFn_def action_acceptArg_def clean_def ready_def)

lemma arg_end_step:
  assumes "clean d" and "parsing d = TYPE_ARG" and "error_code d = 0"
  shows "parse_loop ops (d\<lparr>pstate := S_acceptFn, parse_rest := []\<rparr>) s =
    Ok (True, d\<lparr>pstate := S_start, parse_rest := [], parsing := TYPE_UNDETERMINED, finished := True\<rparr>, s)"
proof -
  have "\<not> finished d" using assms(1) by (simp add: clean_def ready_def)
  with assms show ?thesis
    by (subst parse_loop.simps)
      (simp add: loop_step_simps end_transition action_acceptFns_def acceptFn_clean build_parse_state_list_simps)
qed

lemma reload_step:
  assumes "clean d" and "st = S_start \<or> st = S_acceptFn"
    and "parsing d = TYPE_CONDITION \<and> next = actions_str d \<and> k = TYPE_ACTION \<or>
         parsing d = TYPE_ACTION \<and> next = undo_actions_str d \<and> k = TYPE_UNDO_ACTION"
  shows "parse_loop ops (d\<lparr>pstate := st, parse_rest := []\<rparr>) s =
         parse_loop ops (d\<lparr>parsing := k, pstate := S_start,
           parse_rest := (case next of None \<Rightarrow> [] | Some str \<Rightarrow> str)\<rparr>) s"
proof -
  let ?e = "d\<lparr>parsing := k, pstate := S_acceptRule,
           parse_rest := (case next of None \<Rightarrow> [] | Some str \<Rightarrow> str)\<rparr>"
  have d: "\<not> finished d" "accum_sz d = 256" "accum_name d = []" "accum_arg d = []"
    using assms(1) by (simp_all add: clean_def ready_def)
  have "parse_loop ops (d\<lparr>pstate := st, parse_rest := []\<rparr>) s = parse_loop ops ?e s"
    using assms d
    by (intro parse_loop_next)
      (auto simp: loop_step_simps end_transition action_acceptFns_def acceptFn_clean load_parse_string_def)
  also have "\<dots> = parse_loop ops (?e\<lparr>pstate := S_start\<rparr>) s"
    using d by (subst parse_loop.simps) (simp add: take_transition_final final_state_iff)
  also have "\<dots> = parse_loop ops (d\<lparr>parsing := k, pstate := S_start,
           parse_rest := (case next of None \<Rightarrow> [] | Some str \<Rightarrow> str)\<rparr>) s"
    by (rule parse_loop_cong) simp
  finally show ?thesis .
qed

lemma apply_step:
  assumes "clean d" and "st = S_start \<or> st = S_acceptFn" and "parsing d = TYPE_UNDO_ACTION"
  shows "omap (\<lambda>(ok, e, s'). (ok, error_code e, rule_error_code e, message e, s'))
      (parse_loop ops (d\<lparr>pstate := st, parse_rest := []\<rparr>) s) =
    omap (\<lambda>(err, msg, s'). (fst (rule_result err) = 0, fst (rule_result err), snd (rule_result err), msg, s'))
      (op_apply_rule ops (rule_name d) (pconditions d) (pactions d) (pundo_actions d) (message d) s)"
proof -
  have d: "\<not> finished d" using assms(1) by (simp add: clean_def ready_def)
  show ?thesis
    using assms d
    by (cases "op_apply_rule ops (rule_name d) (pconditions d) (pactions d) (pundo_actions d) (message d) s")
      (simp_all add: parse_loop.simps [of ops "d\<lparr>pstate := st, parse_rest := []\<rparr>"] loop_step_simps
        end_transition action_acceptFns_def acceptFn_clean accept_rule_def build_parse_state_list_simps
        split: prod.splits)
qed


definition section_ok :: "'s parser_ops \<Rightarrow> 's \<Rightarrow> (fn \<times> nat) list \<Rightarrow> bool" where
  "section_ok ops s fs \<longleftrightarrow> separated fs \<and>
     (\<forall>(f, n) \<in> set fs. fn_ok f \<and> (\<forall>a \<in> set (fn_args f). resolves ops s a))"

lemma section_reload:
  assumes "section_ok ops s fs" and "clean d"
    and "parsing d = TYPE_CONDITION \<and> next = actions_str d \<and> k = TYPE_ACTION \<or>
         parsing d = TYPE_ACTION \<and> next = undo_actions_str d \<and> k = TYPE_UNDO_ACTION"
  shows "\<exists>t. parse_loop ops (d\<lparr>pstate := S_start, parse_rest := fns_text fs\<rparr>) s =
    parse_loop ops ((fold record_fn (map fst fs) d)\<lparr>parsing := k, cur_arg_type := t, pstate := S_start,
      parse_rest := (case next of None \<Rightarrow> [] | Some str \<Rightarrow> str)\<rparr>) s"
proof -
  obtain st t where st: "st = S_start \<or> st = S_acceptFn" and
    "parse_loop ops (d\<lparr>pstate := S_start, parse_rest := fns_text fs\<rparr>) s =
     parse_loop ops ((fold record_fn (map fst fs) d)\<lparr>pstate := st, parse_rest := [], cur_arg_type := t\<rparr>) s"
    using section_run [of fs ops s d] assms by (auto simp: section_ok_def)
  moreover have "\<dots> = parse_loop ops
      (((fold record_fn (map fst fs) d)\<lparr>cur_arg_type := t\<rparr>)\<lparr>pstate := st, parse_rest := []\<rparr>) s"
    by (rule parse_loop_cong) simp
  moreover have "\<dots> = parse_loop ops (((fold record_fn (map fst fs) d)\<lparr>cur_arg_type := t\<rparr>)
      \<lparr>parsing := k, pstate := S_start, parse_rest := (case next of None \<Rightarrow> [] | Some str \<Rightarrow> str)\<rparr>) s"
    by (rule reload_step [OF _ st])
      (use assms(2,3) in \<open>auto simp: fold_record_fn clean_def ready_def takes_fns_def\<close>)
  moreover have "\<dots> = parse_loop ops ((fold record_fn (map fst fs) d)\<lparr>parsing := k, cur_arg_type := t,
      pstate := S_start, parse_rest := (case next of None \<Rightarrow> [] | Some str \<Rightarrow> str)\<rparr>) s"
    by (rule parse_loop_cong) simp
  ultimately show ?thesis by metis
qed

lemma section_apply:
  assumes "section_ok ops s fs" and "clean d" and "parsing d = TYPE_UNDO_ACTION"
  shows "omap (\<lambda>(ok, e, s'). (ok, error_code e, rule_error_code e, message e, s'))
      (parse_loop ops (d\<lparr>pstate := S_start, parse_rest := fns_text fs\<rparr>) s) =
    omap (\<lambda>(err, msg, s'). (fst (rule_result err) = 0, fst (rule_result err), snd (rule_result err), msg, s'))
      (op_apply_rule ops (rule_name d) (pconditions d) (pactions d)
        (pundo_actions d @ map (fn_undo_update (\<lambda>_. False)) (map fst fs)) (message d) s)"
proof -
  obtain st t where st: "st = S_start \<or> st = S_acceptFn" and
    "parse_loop ops (d\<lparr>pstate := S_start, parse_rest := fns_text fs\<rparr>) s =
     parse_loop ops ((fold record_fn (map fst fs) d)\<lparr>pstate := st, parse_rest := [], cur_arg_type := t\<rparr>) s"
    using section_run [of fs ops s d] assms by (auto simp: section_ok_def)
  moreover have "\<dots> = parse_loop ops
      (((fold record_fn (map fst fs) d)\<lparr>cur_arg_type := t\<rparr>)\<lparr>pstate := st, parse_rest := []\<rparr>) s"
    by (rule parse_loop_cong) simp
  moreover have "clean ((fold record_fn (map fst fs) d)\<lparr>cur_arg_type := t\<rparr>)"
    using assms(2,3) by (simp add: fold_record_fn clean_def ready_def takes_fns_def)
  ultimately show ?thesis
    using apply_step [of "(fold record_fn (map fst fs) d)\<lparr>cur_arg_type := t\<rparr>" st ops s] assms(3) st
    by (simp add: fold_record_fn)
qed


text \<open>A null string is read like an empty one.\<close>

definition opt_text :: "string option \<Rightarrow> string" where
  "opt_text str = (case str of None \<Rightarrow> [] | Some t \<Rightarrow> t)"

lemma parse_rule_text_run:
  assumes "section_ok ops s C" and "section_ok ops s A" and "section_ok ops s U"
    and strs: "opt_text cs = fns_text C" "opt_text as = fns_text A" "opt_text us = fns_text U"
  shows "omap (\<lambda>(ok, e, s'). (ok, error_code e, rule_error_code e, message e, s'))
      (parse ops cs
        (init_parse_data name vm cs as us TYPE_RULE d0) s) =
    omap (\<lambda>(err, msg, s'). (fst (rule_result err) = 0, fst (rule_result err), snd (rule_result err), msg, s'))
      (op_apply_rule ops name (map fst C) (map fst A)
        (map (fn_undo_update (\<lambda>_. False)) (map fst U)) None s)"
proof -
  let ?start = "init_parse_data name vm cs as us TYPE_RULE d0"
  let ?d1 = "?start\<lparr>accum_sz := 256\<rparr>"
  have clean1: "clean ?d1" "parsing ?d1 = TYPE_CONDITION"
    by (simp_all add: clean_def ready_def takes_fns_def init_parse_data_def cleanup_parse_data_def)
  have "parse ops cs ?start s =
    parse_loop ops (?d1\<lparr>pstate := S_start, parse_rest := fns_text C\<rparr>) s"
    unfolding parse_def
    by (rule parse_loop_cong)
      (use strs(1) in \<open>simp add: load_parse_string_def init_parse_data_def cleanup_parse_data_def opt_text_def\<close>)
  also obtain t where "\<dots> = parse_loop ops ((fold record_fn (map fst C) ?d1)
      \<lparr>parsing := TYPE_ACTION, cur_arg_type := t, pstate := S_start, parse_rest := fns_text A\<rparr>) s"
    using section_reload [OF assms(1) clean1(1), of as TYPE_ACTION] clean1(2) strs(2)
    by (auto simp: opt_text_def init_parse_data_def cleanup_parse_data_def)
  also have "\<dots> = parse_loop ops ((?d1\<lparr>pconditions := map fst C, parsing := TYPE_ACTION, cur_arg_type := t\<rparr>)
      \<lparr>pstate := S_start, parse_rest := fns_text A\<rparr>) s" (is "_ = parse_loop ops (?d2\<lparr>pstate := _, parse_rest := _\<rparr>) s")
    by (rule parse_loop_cong) (simp add: fold_record_fn init_parse_data_def cleanup_parse_data_def)
  also have clean2: "clean ?d2" "parsing ?d2 = TYPE_ACTION"
    using clean1 by (simp_all add: clean_def ready_def takes_fns_def)
  obtain t' where "parse_loop ops (?d2\<lparr>pstate := S_start, parse_rest := fns_text A\<rparr>) s =
    parse_loop ops ((fold record_fn (map fst A) ?d2)
      \<lparr>parsing := TYPE_UNDO_ACTION, cur_arg_type := t', pstate := S_start, parse_rest := fns_text U\<rparr>) s"
    using section_reload [OF assms(2) clean2(1), of us TYPE_UNDO_ACTION] clean2(2) strs(3)
    by (auto simp: opt_text_def init_parse_data_def cleanup_parse_data_def)
  also have "\<dots> = parse_loop ops ((?d2\<lparr>pactions := map fst A, parsing := TYPE_UNDO_ACTION, cur_arg_type := t'\<rparr>)
      \<lparr>pstate := S_start, parse_rest := fns_text U\<rparr>) s" (is "_ = parse_loop ops (?d3\<lparr>pstate := _, parse_rest := _\<rparr>) s")
    by (rule parse_loop_cong) (simp add: fold_record_fn init_parse_data_def cleanup_parse_data_def)
  finally have run: "parse ops cs ?start s =
    parse_loop ops (?d3\<lparr>pstate := S_start, parse_rest := fns_text U\<rparr>) s" .
  have clean3: "clean ?d3" "parsing ?d3 = TYPE_UNDO_ACTION"
    using clean2 by (simp_all add: clean_def ready_def takes_fns_def)
  show ?thesis
    unfolding run section_apply [OF assms(3) clean3]
    by (simp add: init_parse_data_def cleanup_parse_data_def)
qed


subsection \<open>Properties\<close>

text \<open>
  C4. Printing and parsing a rule are inverse. For any lists of conditions, actions and undo
  actions that the written form can carry, with any number of spaces between functions and
  with the variables they mention defined, parsing the printed strings calls
  \<open>apply_rule\<close> exactly once, with the rule's name and exactly the functions that were
  printed, and reports what \<open>apply_rule\<close> returned.
\<close>

theorem parse_rule_text:
  assumes "section_ok ops s C" and "section_ok ops s A" and "section_ok ops s U"
  shows "omap (\<lambda>(ok, e, s'). (ok, error_code e, rule_error_code e, message e, s'))
      (parse ops (Some (fns_text C))
        (init_parse_data name vm (Some (fns_text C)) (Some (fns_text A)) (Some (fns_text U)) TYPE_RULE d0) s) =
    omap (\<lambda>(err, msg, s'). (fst (rule_result err) = 0, fst (rule_result err), snd (rule_result err), msg, s'))
      (op_apply_rule ops name (map fst C) (map fst A)
        (map (fn_undo_update (\<lambda>_. False)) (map fst U)) None s)"
  using assms by (rule parse_rule_text_run) (simp_all add: opt_text_def)

text \<open>Operations that know every variable and record the rules they are given.\<close>

definition recording_ops :: "(string option \<times> fn list \<times> fn list \<times> fn list) list parser_ops" where
  "recording_ops = \<lparr>op_lookup_var = (\<lambda>_ s. Ok (True, s)), op_add_var = (\<lambda>_ _ m s. Ok (True, m, s)),
     op_apply_rule = (\<lambda>n C A U m s. Ok (1, m, s @ [(n, C, A, U)])), indet_long = 0, indet_float = F32 False 0 0\<rparr>"

theorem parse_rule_text_witness:
  "let C = [(\<lparr>fn_name = ''whileLid'', fn_args = [FA_Int 5, FA_Var ''x''], fn_undo = False\<rparr>, 2),
            (\<lparr>fn_name = ''onAc'', fn_args = [], fn_undo = True\<rparr>, 0)];
       A = [(\<lparr>fn_name = ''log'', fn_args = [FA_Str ''a b''], fn_undo = True\<rparr>, 0)]
   in fns_text C = ''!whileLid(5 $x)  onAc()'' \<and>
      (\<forall>d0. omap (\<lambda>(ok, e, s'). (ok, error_code e, rule_error_code e, message e, s'))
        (parse recording_ops (Some (fns_text C))
          (init_parse_data (Some ''r'') None (Some (fns_text C)) (Some (fns_text A)) (Some (fns_text [])) TYPE_RULE d0) []) =
      Ok (True, 0, 0, None, [(Some ''r'', map fst C, map fst A, [])]))"
proof -
  let ?C = "[(\<lparr>fn_name = ''whileLid'', fn_args = [FA_Int 5, FA_Var ''x''], fn_undo = False\<rparr>, 2),
            (\<lparr>fn_name = ''onAc'', fn_args = [], fn_undo = True\<rparr>, 0)]"
  let ?A = "[(\<lparr>fn_name = ''log'', fn_args = [FA_Str ''a b''], fn_undo = True\<rparr>, 0)]"
  have ok: "section_ok recording_ops [] ?C" "section_ok recording_ops [] ?A" "section_ok recording_ops [] []"
    by (simp_all add: section_ok_def fn_ok_def name_ok_def condition_isAlphanumeric_us_def less_eq_char_def
        in_int32_def condition_isNotDblQuoteOrNull_def resolves_def recording_ops_def)
  have printed: "fns_text ?C = ''!whileLid(5 $x)  onAc()''"
    by code_simp
  have "rule_result 1 = (0, 0)" by (simp add: rule_result_def Let_def)
  with parse_rule_text [OF ok, of "Some ''r''" None] printed show ?thesis
    by (simp add: Let_def recording_ops_def)
qed

end
