(* ===== verification/Var_Cache.thy ===== *)
theory Var_Cache
  imports Parser_Text
begin

text \<open>
  The global state of xcpmd's policy engine (\<open>rules.h\<close>) and the write-through cache of
  policy variables (\<open>db-helper.c\<close>).

  Conditions and rules are heap objects with identity: an event's listener list, a rule's
  condition list and a condition's \<open>rule\<close> member all point at them, so they live in two
  heaps indexed by address. Condition types, action types and actions are reached through a
  single owner and never change once made; a pointer to one is the object itself. A function
  pointer is the name of the function. An event is known by its position in the global
  list, which only grows.

  The configuration database is a D-Bus service outside this repository: its state \<open>'d\<close> and
  its five calls are parameters (\<open>env\<close>), as are the values C leaves indeterminate.
  Allocation does not fail.
\<close>

subsection \<open>The engine's data\<close>

type_synonym addr = nat

record ev_wrapper =
  ev_name :: string
  is_stateless :: bool
  listeners :: "addr list"
  value_type :: arg_type
  reset_value :: arg
  ev_value :: arg

record condition_type =
  ct_name :: string
  ct_check :: string
  ct_prototype :: string
  ct_pretty_prototype :: string
  ct_event :: nat

record action_type =
  at_name :: string
  at_action :: string
  at_prototype :: string
  at_pretty_prototype :: string

record condition =
  c_type :: condition_type
  c_rule :: "addr option"
  is_true :: bool
  is_inverted :: bool
  c_args :: "arg list"

record action =
  a_type :: action_type
  a_args :: "arg list"

record rule =
  rule_id :: "string option"
  conditions :: "addr list"
  actions :: "action list"
  undos :: "action list"
  is_active :: bool
  linked :: bool \<comment> \<open>\<open>list.next\<close> and \<open>list.prev\<close> are not null\<close>

record db_var =
  dv_name :: string
  dv_value :: arg
  ref_count :: int

text \<open>
  \<open>effects\<close> records the calls of action functions, in order, with their arguments: what
  the policy does to the machine.
\<close>

record 'd xstate =
  events :: "ev_wrapper list"
  condition_types :: "condition_type list"
  action_types :: "action_type list"
  rules :: "addr list"
  db_vars :: "db_var list"
  cond_heap :: "addr \<rightharpoonup> condition"
  rule_heap :: "addr \<rightharpoonup> rule"
  next_addr :: addr
  effects :: "(string \<times> arg list) list"
  database :: 'd

record 'd env =
  svc_read :: "string \<Rightarrow> 'd \<Rightarrow> string option"
  svc_write :: "string \<Rightarrow> string \<Rightarrow> 'd \<Rightarrow> 'd"
  svc_rm :: "string \<Rightarrow> 'd \<Rightarrow> 'd"
  svc_dump :: "string \<Rightarrow> 'd \<Rightarrow> string option"
  svc_inject :: "string \<Rightarrow> string \<Rightarrow> 'd \<Rightarrow> 'd"
  show_ptr :: "64 word \<Rightarrow> string"
  union_padding_same :: "arg \<Rightarrow> bool"

abbreviation (input) DB_VAR_MAP_PATH :: string where "DB_VAR_MAP_PATH \<equiv> ''/power-management/vars''"
abbreviation (input) DB_RULE_PATH :: string where "DB_RULE_PATH \<equiv> ''/power-management/rules''"

subsection \<open>Parsing a single argument\<close>

definition blank_parse_data :: parse_data where
  \<comment> \<open>\<open>memset\<close> to zero, then \<open>init_parse_data\<close> with null strings\<close>
  "blank_parse_data =
     \<lparr>rule_name = None, pstate = S_start, undo = True, finished = False, error_code = NO_PARSE_ERROR,
      rule_error_code = RULE_CODE_NOT_SET, var_map_str = None, conditions_str = None,
      actions_str = None, undo_actions_str = None, subject_type = TYPE_UNDETERMINED,
      parsing = TYPE_UNDETERMINED, cur_arg_type = TYPE_UNDETERMINED, parse_rest = [], accum_sz = 0,
      accum_name = [], accum_arg = [], var_map = [], pargs = [], pconditions = [], pactions = [],
      pundo_actions = [], parsed_arg = None, message = None\<rparr>"

text \<open>
  A successful parse that met no function, or a function with no argument, leaves nothing
  behind the pointers \<open>parsed_arg\<close> and \<open>args\<close> that are followed next. On failure the
  description is appended to the caller's \<open>*error\<close>.
\<close>

definition parse_arg ::
  "'s parser_ops \<Rightarrow> string \<Rightarrow> 's \<Rightarrow> (arg option \<times> string \<times> 's) outcome" where
  "parse_arg ops arg_string s =
     obind (parse ops (Some arg_string)
       (init_parse_data None (Some arg_string) None None None TYPE_ARG blank_parse_data) s)
       (\<lambda>(ok, d, s').
         if ok then
           obind (deref (parsed_arg d)) (\<lambda>f.
             case fn_args f of
               [] \<Rightarrow> Crash Null_Deref
             | a # _ \<Rightarrow> Ok (Some (conv_fn_arg a), [], s'))
         else omap (\<lambda>e. (None, ''couldn't parse arg '' @ arg_string @ '': '' @ e, s')) (extract_parse_error d))"

subsection \<open>The database\<close>

definition write_db_var :: "'d env \<Rightarrow> string \<Rightarrow> arg \<Rightarrow> 'd xstate \<Rightarrow> 'd xstate" where
  "write_db_var env name v s =
     s\<lparr>database := svc_write env (DB_VAR_MAP_PATH @ ''/'' @ name) (arg_to_string (show_ptr env) v) (database s)\<rparr>"

text \<open>
  \<open>error\<close> is an uninitialised local of \<open>get_db_var\<close>, and \<open>safe_str_append\<close> reads
  it: a malformed value is undefined behaviour. \<open>Arg_None\<close> is the node with type
  \<open>ARG_NONE\<close>.
\<close>

definition get_db_var ::
  "'d env \<Rightarrow> 'd xstate parser_ops \<Rightarrow> string \<Rightarrow> 'd xstate \<Rightarrow> (arg \<times> 'd xstate) outcome" where
  "get_db_var env ops name s =
     (case svc_read env (DB_VAR_MAP_PATH @ ''/'' @ name) (database s) of
        None \<Rightarrow> Ok (Arg_None, s)
      | Some v \<Rightarrow>
          if v = [] then Ok (Arg_None, s)
          else obind (parse_arg ops (name @ ''('' @ v @ '')'') s) (\<lambda>(r, e, s').
            case r of None \<Rightarrow> Crash Indeterminate_Value | Some a \<Rightarrow> Ok (a, s')))"

definition delete_db_var :: "'d env \<Rightarrow> string \<Rightarrow> 'd xstate \<Rightarrow> 'd xstate" where
  "delete_db_var env name s =
     s\<lparr>database := svc_rm env (DB_VAR_MAP_PATH @ ''/'' @ name) (database s)\<rparr>"

definition delete_db_vars :: "'d env \<Rightarrow> 'd xstate \<Rightarrow> 'd xstate" where
  "delete_db_vars env s = s\<lparr>database := svc_rm env DB_VAR_MAP_PATH (database s)\<rparr>"

subsection \<open>The cache\<close>

text \<open>
  A pointer to a cached variable is its name: names are unique in the cache, so the first
  entry of a name is the object the code holds.
\<close>

definition cached_var :: "string \<Rightarrow> 'd xstate \<Rightarrow> db_var option" where
  "cached_var name s = find_first (\<lambda>v. dv_name v = name) (db_vars s)"

fun update_first :: "string \<Rightarrow> (db_var \<Rightarrow> db_var) \<Rightarrow> db_var list \<Rightarrow> db_var list" where
  "update_first name f [] = []"
| "update_first name f (v # vs) = (if dv_name v = name then f v # vs else v # update_first name f vs)"

definition cache_db_var :: "string \<Rightarrow> arg \<Rightarrow> 'd xstate \<Rightarrow> db_var \<times> 'd xstate" where
  "cache_db_var name v s =
     (let var = \<lparr>dv_name = name, dv_value = v, ref_count = 0\<rparr>
      in (var, s\<lparr>db_vars := db_vars s @ [var]\<rparr>))"

definition uncache_db_var :: "string \<Rightarrow> 'd xstate \<Rightarrow> bool \<times> 'd xstate" where
  "uncache_db_var name s =
     (case cached_var name s of
        None \<Rightarrow> (False, s)
      | Some v \<Rightarrow>
          if ref_count v > 0 then (False, s)
          else (True, s\<lparr>db_vars := remove_first v (db_vars s)\<rparr>))"

definition delete_cached_vars :: "'d xstate \<Rightarrow> 'd xstate" where
  "delete_cached_vars s = s\<lparr>db_vars := []\<rparr>"

definition lookup_var ::
  "'d env \<Rightarrow> 'd xstate parser_ops \<Rightarrow> string \<Rightarrow> 'd xstate \<Rightarrow> (db_var option \<times> 'd xstate) outcome" where
  "lookup_var env ops name s =
     (case cached_var name s of
        Some v \<Rightarrow> Ok (Some v, s)
      | None \<Rightarrow>
          obind (get_db_var env ops name s) (\<lambda>(a, s').
            if arg_type_of a \<noteq> ARG_NONE
            then (let (v, s'') = cache_db_var name a s' in Ok (Some v, s''))
            else Ok (None, s')))"

definition resolve_var ::
  "'d env \<Rightarrow> 'd xstate parser_ops \<Rightarrow> string \<Rightarrow> 'd xstate \<Rightarrow> (arg option \<times> 'd xstate) outcome" where
  "resolve_var env ops name s =
     omap (\<lambda>(v, s'). (map_option dv_value v, s')) (lookup_var env ops name s)"

text \<open>
  Strings are compared with \<open>strcmp\<close>, everything else with \<open>memcmp\<close> on the whole
  union: for a member smaller than the union the bytes next to it count too.
\<close>

definition same_value :: "'d env \<Rightarrow> arg \<Rightarrow> arg \<Rightarrow> bool" where
  "same_value env a b \<longleftrightarrow> a = b \<and> (arg_type_of a = ARG_STR \<or> union_padding_same env a)"

definition add_var ::
  "'d env \<Rightarrow> 'd xstate parser_ops \<Rightarrow> string \<Rightarrow> arg \<Rightarrow> string option \<Rightarrow> 'd xstate \<Rightarrow>
   (db_var option \<times> string option \<times> 'd xstate) outcome" where
  "add_var env ops name v err s =
     obind (lookup_var env ops name s) (\<lambda>(found, s').
       case found of
         Some var \<Rightarrow>
           if arg_type_of (dv_value var) \<noteq> arg_type_of v
           then Ok (None, str_append err
             (''Attempted to overwrite variable '' @ name @ '', but aborted due to type mismatch (was '' @
              arg_type_to_string (arg_type_code (arg_type_of (dv_value var))) @ '', tried '' @
              arg_type_to_string (arg_type_code (arg_type_of v)) @ '')''), s')
           else if same_value env (dv_value var) v then Ok (Some var, err, s')
           else
             (let var' = var\<lparr>dv_value := v\<rparr>;
                  s'' = s'\<lparr>db_vars := update_first name (\<lambda>_. var') (db_vars s')\<rparr>
              in Ok (Some var', str_append err (''Variable '' @ name @ '' already exists--overwriting''),
                     write_db_var env name v s''))
       | None \<Rightarrow>
           (let (var, s'') = cache_db_var name v s'
            in Ok (Some var, err, write_db_var env name v s'')))"

definition delete_var :: "'d env \<Rightarrow> string \<Rightarrow> 'd xstate \<Rightarrow> bool \<times> 'd xstate" where
  "delete_var env name s =
     (let (ok, s') = uncache_db_var name s
      in if ok then (True, delete_db_var env name s') else (False, s'))"

definition delete_vars :: "'d env \<Rightarrow> 'd xstate \<Rightarrow> 'd xstate" where
  "delete_vars env s = delete_db_vars env (delete_cached_vars s)"


subsection \<open>Reading a printed argument\<close>

lemma parse_arg_text:
  assumes "name_ok n" and "arg_ok a" and "resolves ops s a"
  shows "parse_arg ops (n @ ''('' @ fn_arg_text a @ '')'') s = Ok (Some (conv_fn_arg a), [], s)"
proof -
  let ?f = "\<lparr>fn_name = n, fn_args = [a], fn_undo = True\<rparr>"
  let ?txt = "n @ ''('' @ fn_arg_text a @ '')''"
  let ?start = "init_parse_data None (Some ?txt) None None None TYPE_ARG blank_parse_data"
  let ?d = "?start\<lparr>accum_sz := 256\<rparr>"
  have clean: "clean ?d" "parsing ?d = TYPE_ARG" "error_code ?d = 0"
    by (simp_all add: clean_def ready_def takes_fns_def init_parse_data_def cleanup_parse_data_def)
  have "parse ops (Some ?txt) ?start s = parse_loop ops (?d\<lparr>pstate := S_start, parse_rest := ?txt\<rparr>) s"
    unfolding parse_def
    by (rule parse_loop_cong) (simp add: load_parse_string_def init_parse_data_def cleanup_parse_data_def)
  also obtain t where "\<dots> = parse_loop ops
      ((record_fn ?f ?d)\<lparr>pstate := S_acceptFn, parse_rest := [], cur_arg_type := t\<rparr>) s"
    using fn_run [of ?f ops s ?d "[]"] assms clean(1) by (auto simp: fn_ok_def fn_text_def)
  also have "\<dots> = parse_loop ops (((record_fn ?f ?d)\<lparr>cur_arg_type := t\<rparr>)
      \<lparr>pstate := S_acceptFn, parse_rest := []\<rparr>) s"
    by (rule parse_loop_cong) simp
  also have "\<dots> = Ok (True, ((record_fn ?f ?d)\<lparr>cur_arg_type := t\<rparr>)
      \<lparr>pstate := S_start, parse_rest := [], parsing := TYPE_UNDETERMINED, finished := True\<rparr>, s)"
    by (rule arg_end_step)
      (use clean in \<open>simp_all\<close>, use clean in \<open>simp_all add: record_fn_def\<close>)
  finally show ?thesis
    using clean(2) by (simp add: parse_arg_def record_fn_def)
qed


subsection \<open>Laws of the cache\<close>

definition var_path :: "string \<Rightarrow> string" where
  "var_path name = DB_VAR_MAP_PATH @ ''/'' @ name"

lemma var_path_inj [simp]: "var_path m = var_path n \<longleftrightarrow> m = n"
  by (simp add: var_path_def)

text \<open>
  What is relied on of the database: a write is read back, it changes no other key, and a
  removed key is gone.
\<close>

definition db_laws :: "'d env \<Rightarrow> bool" where
  "db_laws env \<longleftrightarrow>
     (\<forall>p v d. svc_read env p (svc_write env p v d) = Some v) \<and>
     (\<forall>p q v d. p \<noteq> q \<longrightarrow> svc_read env q (svc_write env p v d) = svc_read env q d) \<and>
     (\<forall>p d. svc_read env p (svc_rm env p d) = None)"

lemma update_first_names: "(\<And>v. dv_name (f v) = dv_name v) \<Longrightarrow> map dv_name (update_first n f vs) = map dv_name vs"
  by (induction vs) auto

lemma find_first_update_first:
  assumes "\<And>v. dv_name (f v) = dv_name v"
  shows "find_first (\<lambda>v. dv_name v = m) (update_first n f vs) =
    (if m = n then map_option f (find_first (\<lambda>v. dv_name v = m) vs)
     else find_first (\<lambda>v. dv_name v = m) vs)"
  by (induction vs) (auto simp: assms)

lemma update_first_const:
  assumes "find_first (\<lambda>v. dv_name v = n) vs = Some w"
  shows "update_first n (\<lambda>_. g w) vs = update_first n g vs"
  using assms by (induction vs) (auto split: if_splits)

lemma cached_var_name: "cached_var n s = Some v \<Longrightarrow> dv_name v = n"
  by (auto simp: cached_var_def dest: find_first_Some_in)

lemma cached_var_cache:
  "cached_var m (snd (cache_db_var n a s)) =
     (case cached_var m s of
        Some v \<Rightarrow> Some v
      | None \<Rightarrow> if m = n then Some \<lparr>dv_name = n, dv_value = a, ref_count = 0\<rparr> else None)"
  by (auto simp: cached_var_def cache_db_var_def Let_def find_first_append split: option.splits)

lemma cached_var_frame [simp]:
  "cached_var n (s\<lparr>database := d\<rparr>) = cached_var n s"
  "cached_var n (s\<lparr>effects := e\<rparr>) = cached_var n s"
  "cached_var n (s\<lparr>cond_heap := h\<rparr>) = cached_var n s"
  "cached_var n (s\<lparr>rule_heap := r\<rparr>) = cached_var n s"
  "cached_var n (s\<lparr>rules := l\<rparr>) = cached_var n s"
  "cached_var n (s\<lparr>events := ev\<rparr>) = cached_var n s"
  "cached_var n (s\<lparr>next_addr := a\<rparr>) = cached_var n s"
  by (simp_all add: cached_var_def)

lemma cached_var_remove:
  assumes "distinct (map dv_name vs)" and "find_first (\<lambda>v. dv_name v = n) vs = Some w"
  shows "find_first (\<lambda>v. dv_name v = m) (remove_first w vs) =
    (if m = n then None else find_first (\<lambda>v. dv_name v = m) vs)"
proof -
  have None_if: "find_first (\<lambda>v. dv_name v = m) ws = None" if "m \<notin> set (map dv_name ws)" for m ws
    using that by (auto simp: find_first_None)
  show ?thesis
    using assms
  proof (induction vs)
    case (Cons v vs)
    show ?case
    proof (cases "dv_name v = n")
      case True
      with Cons.prems None_if [of n vs] show ?thesis by auto
    next
      case False
      with Cons.prems have "v \<noteq> w" by (auto dest: find_first_Some_in)
      with False Cons show ?thesis by auto
    qed
  qed simp
qed

lemma remove_first_names:
  "distinct (map dv_name vs) \<Longrightarrow> distinct (map dv_name (remove_first w vs))"
  unfolding remove_first_remove1
  by (induction vs) (auto dest: notin_set_remove1 simp: image_iff)

lemma lookup_cached [simp]:
  "cached_var n s = Some v \<Longrightarrow> lookup_var env ops n s = Ok (Some v, s)"
  by (simp add: lookup_var_def)

lemma lookup_absent [simp]:
  "cached_var n s = None \<Longrightarrow> svc_read env (var_path n) (database s) = None \<Longrightarrow>
   lookup_var env ops n s = Ok (None, s)"
  by (simp add: lookup_var_def get_db_var_def var_path_def)

text \<open>The reference counts, as a client sees them.\<close>

definition bump_ref :: "string \<Rightarrow> int \<Rightarrow> 'd xstate \<Rightarrow> 'd xstate" where
  "bump_ref n k s =
     s\<lparr>db_vars := update_first n (\<lambda>v. v\<lparr>ref_count := ref_count v + k\<rparr>) (db_vars s)\<rparr>"

definition ref_of :: "string \<Rightarrow> 'd xstate \<Rightarrow> int" where
  "ref_of n s = (case cached_var n s of None \<Rightarrow> 0 | Some v \<Rightarrow> ref_count v)"

definition is_cached :: "string \<Rightarrow> 'd xstate \<Rightarrow> bool" where
  "is_cached n s \<longleftrightarrow> cached_var n s \<noteq> None"

locale ref_counter =
  fixes has :: "string \<Rightarrow> 's \<Rightarrow> bool" and count :: "string \<Rightarrow> 's \<Rightarrow> int"
    and bump :: "string \<Rightarrow> int \<Rightarrow> 's \<Rightarrow> 's"
  assumes has_bump: "has m (bump n k s) \<longleftrightarrow> has m s"
    and count_bump: "has n s \<Longrightarrow> count m (bump n k s) = count m s + (if m = n then k else 0)"
begin

lemma has_fold: "has m (fold (\<lambda>n. bump n k) ns s) \<longleftrightarrow> has m s"
  by (induction ns arbitrary: s) (simp_all add: has_bump)

lemma count_fold:
  "\<forall>n \<in> set ns. has n s \<Longrightarrow>
   count m (fold (\<lambda>n. bump n k) ns s) = count m s + k * int (count_list ns m)"
  by (induction ns arbitrary: s) (auto simp: has_bump count_bump algebra_simps)

end

lemma cached_var_bump:
  "cached_var m (bump_ref n k s) =
     (if m = n then map_option (\<lambda>v. v\<lparr>ref_count := ref_count v + k\<rparr>) (cached_var m s) else cached_var m s)"
  by (simp add: cached_var_def bump_ref_def find_first_update_first)

interpretation vc: ref_counter is_cached ref_of bump_ref
  by unfold_locales
    (auto simp: is_cached_def ref_of_def cached_var_bump split: option.splits)


subsection \<open>Cache and database together\<close>

definition vars_distinct :: "'d xstate \<Rightarrow> bool" where
  "vars_distinct s \<longleftrightarrow> distinct (map dv_name (db_vars s))"

text \<open>
  A stored text denotes a value when the argument parser reads it as that value in every
  state and whatever it is connected to. The cache is coherent when the database holds, for
  every cached variable, a text that denotes the cached value.
\<close>

definition denotes :: "'d itself \<Rightarrow> string \<Rightarrow> string \<Rightarrow> arg \<Rightarrow> bool" where
  "denotes T n txt a \<longleftrightarrow> txt \<noteq> [] \<and> arg_type_of a \<noteq> ARG_NONE \<and>
     (\<forall>(ops :: 'd xstate parser_ops) s. parse_arg ops (n @ ''('' @ txt @ '')'') s = Ok (Some a, [], s))"

definition coherent :: "'d env \<Rightarrow> 'd xstate \<Rightarrow> bool" where
  "coherent env s \<longleftrightarrow>
     (\<forall>v \<in> set (db_vars s). \<exists>txt. svc_read env (var_path (dv_name v)) (database s) = Some txt \<and>
        denotes TYPE('d) (dv_name v) txt (dv_value v))"

fun literal :: "fn_arg \<Rightarrow> bool" where
  "literal (FA_Var _) \<longleftrightarrow> False"
| "literal _ \<longleftrightarrow> True"

lemma literal_text: "literal a \<Longrightarrow> arg_ok a \<Longrightarrow> arg_to_string sp (conv_fn_arg a) = fn_arg_text a"
  by (cases a) (simp_all add: arg_to_string_def)

lemma literal_resolves: "literal a \<Longrightarrow> resolves ops s a"
  by (cases a) (simp_all add: resolves_def)

lemma conv_fn_arg_type: "arg_type_of (conv_fn_arg a) \<noteq> ARG_NONE"
  by (cases a) simp_all

lemma literal_denotes:
  assumes "literal a" and "arg_ok a" and "name_ok n"
  shows "denotes TYPE('d) n (arg_to_string sp (conv_fn_arg a)) (conv_fn_arg a)"
proof -
  have "fn_arg_text a \<noteq> []"
    using assms(1,2) arg_accum_nonempty [of a] by (cases a) auto
  with assms show ?thesis
    by (simp add: denotes_def literal_text parse_arg_text literal_resolves conv_fn_arg_type
        del: append.append_Cons)
qed

lemma get_db_var_denotes:
  fixes s :: "'d xstate"
  assumes "svc_read env (var_path n) (database s) = Some txt" and "denotes TYPE('d) n txt a"
  shows "get_db_var env ops n s = Ok (a, s)"
  using assms by (simp add: get_db_var_def var_path_def denotes_def)

lemma lookup_uncached:
  fixes s :: "'d xstate"
  assumes "cached_var n s = None" and "svc_read env (var_path n) (database s) = Some txt"
    and "denotes TYPE('d) n txt a"
  shows "lookup_var env ops n s =
    Ok (Some \<lparr>dv_name = n, dv_value = a, ref_count = 0\<rparr>, snd (cache_db_var n a s))"
  using assms get_db_var_denotes [OF assms(2,3), of ops]
  by (simp add: lookup_var_def cache_db_var_def denotes_def Let_def)

text \<open>
  Adding a variable that is cached or unknown: the new state, case by case.
\<close>

definition settled :: "'d env \<Rightarrow> string \<Rightarrow> 'd xstate \<Rightarrow> bool" where
  "settled env n s \<longleftrightarrow> cached_var n s \<noteq> None \<or> svc_read env (var_path n) (database s) = None"

lemma add_var_cases:
  assumes "settled env n s" and "add_var env ops n a err s = Ok (Some var, err', s')"
  obtains (same) "cached_var n s = Some var" "dv_value var = a" "s' = s"
    | (changed) old where "cached_var n s = Some old" "var = old\<lparr>dv_value := a\<rparr>"
        "arg_type_of (dv_value old) = arg_type_of a"
        "s' = write_db_var env n a (s\<lparr>db_vars := update_first n (dv_value_update (\<lambda>_. a)) (db_vars s)\<rparr>)"
    | (new) "cached_var n s = None" "var = \<lparr>dv_name = n, dv_value = a, ref_count = 0\<rparr>"
        "s' = write_db_var env n a (s\<lparr>db_vars := db_vars s @ [var]\<rparr>)"
proof (cases "cached_var n s")
  case None
  with assms have "svc_read env (var_path n) (database s) = None" by (simp add: settled_def)
  with assms None that(3) show ?thesis
    by (auto simp: add_var_def cache_db_var_def Let_def)
next
  case (Some old)
  have upd: "update_first n (\<lambda>_. old\<lparr>dv_value := a\<rparr>) (db_vars s) =
      update_first n (dv_value_update (\<lambda>_. a)) (db_vars s)"
    using Some update_first_const [of n "db_vars s" old "dv_value_update (\<lambda>_. a)"]
    by (simp add: cached_var_def)
  with assms Some that(1,2) show ?thesis
    by (auto simp: add_var_def Let_def same_value_def split: if_splits)
qed

lemma set_update_first:
  "distinct (map dv_name vs) \<Longrightarrow> v \<in> set (update_first n f vs) \<Longrightarrow>
   v \<in> set vs \<and> dv_name v \<noteq> n \<or> (\<exists>w \<in> set vs. dv_name w = n \<and> v = f w)"
  by (induction vs) (auto split: if_splits simp: image_iff)

lemma add_var_coherent:
  fixes s :: "'d xstate"
  assumes "db_laws env" and "coherent env s" and "vars_distinct s" and "settled env n s"
    and "denotes TYPE('d) n (arg_to_string (show_ptr env) a) a"
    and "add_var env ops n a err s = Ok (Some var, err', s')"
  shows "coherent env s' \<and> vars_distinct s' \<and> cached_var n s' = Some var \<and> dv_value var = a"
  using assms(4,6)
proof (cases rule: add_var_cases)
  case same
  with assms show ?thesis by simp
next
  case (changed old)
  have "cached_var n s' = Some var"
    using changed by (simp add: write_db_var_def cached_var_def find_first_update_first)
  moreover have "coherent env s'"
    unfolding coherent_def
  proof
    fix v
    assume "v \<in> set (db_vars s')"
    then have "v \<in> set (update_first n (dv_value_update (\<lambda>_. a)) (db_vars s))"
      using changed by (simp add: write_db_var_def)
    then consider "v \<in> set (db_vars s)" "dv_name v \<noteq> n" | "dv_name v = n" "dv_value v = a"
      using set_update_first [of "db_vars s" v n "dv_value_update (\<lambda>_. a)"] assms(3)
      by (auto simp: vars_distinct_def)
    then show "\<exists>txt. svc_read env (var_path (dv_name v)) (database s') = Some txt \<and>
        denotes TYPE('d) (dv_name v) txt (dv_value v)"
      using assms(1,2,5) changed(4)
      by cases (auto simp: db_laws_def coherent_def write_db_var_def var_path_def)
  qed
  ultimately show ?thesis
    using changed assms(3) by (simp add: vars_distinct_def write_db_var_def update_first_names)
next
  case new
  then have fresh: "\<forall>v \<in> set (db_vars s). dv_name v \<noteq> n"
    by (simp add: cached_var_def find_first_None)
  have "coherent env s'"
    using assms(1,2,5) new(2,3) fresh
    by (auto simp: db_laws_def coherent_def write_db_var_def var_path_def)
  moreover have "cached_var n s' = Some var"
    using new by (simp add: write_db_var_def cached_var_def find_first_append)
  ultimately show ?thesis
    using new fresh assms(3) by (auto simp: vars_distinct_def write_db_var_def)
qed


subsection \<open>Properties\<close>


text \<open>A database that is a finite map, for examples.\<close>

definition map_env :: "(string \<Rightarrow> string option) env" where
  "map_env = \<lparr>svc_read = (\<lambda>p d. d p), svc_write = (\<lambda>p v d. d(p := Some v)),
     svc_rm = (\<lambda>p d. d(p := None)), svc_dump = (\<lambda>p d. d p),
     svc_inject = (\<lambda>p v d. d(p := Some v)), show_ptr = (\<lambda>_. ''0''), union_padding_same = (\<lambda>_. True)\<rparr>"

definition empty_state :: "(string \<Rightarrow> string option) xstate" where
  "empty_state = \<lparr>events = [], condition_types = [], action_types = [], rules = [], db_vars = [],
     cond_heap = (\<lambda>_. None), rule_heap = (\<lambda>_. None), next_addr = 0, effects = [], database = (\<lambda>_. None)\<rparr>"

definition no_ops :: "'s parser_ops" where
  "no_ops = \<lparr>op_lookup_var = (\<lambda>_ _. Crash Stack_Overflow), op_add_var = (\<lambda>_ _ _ _. Crash Stack_Overflow),
     op_apply_rule = (\<lambda>_ _ _ _ _ _. Crash Stack_Overflow), indet_long = 0, indet_float = F32 False 0 0\<rparr>"

lemma map_env_laws: "db_laws map_env"
  by (simp add: db_laws_def map_env_def)

lemma empty_state_coherent:
  "coherent map_env empty_state" "vars_distinct empty_state" "settled map_env n empty_state"
  by (simp_all add: coherent_def vars_distinct_def settled_def empty_state_def map_env_def)


text \<open>
  A variable never changes its type: when the cached value has another type than the one
  offered, \<open>add_var\<close> returns null, explains itself, and changes neither cache nor
  database.
\<close>

lemma add_var_type_mismatch:
  assumes "cached_var n s = Some old" and "arg_type_of (dv_value old) \<noteq> arg_type_of a"
  shows "add_var env ops n a None s =
    Ok (None, Some (''Attempted to overwrite variable '' @ n @ '', but aborted due to type mismatch (was '' @
      arg_type_to_string (arg_type_code (arg_type_of (dv_value old))) @ '', tried '' @
      arg_type_to_string (arg_type_code (arg_type_of a)) @ '')''), s)"
  using assms by (simp add: add_var_def str_append_def)

text \<open>
  C21. \<open>delete_var\<close> succeeds exactly for a cached variable that no loaded rule refers to.
  On failure nothing changes; on success the variable is gone from cache and database, so that
  no later lookup finds it, and the other cached variables are untouched.
\<close>

theorem delete_var_spec:
  assumes "db_laws env" and "vars_distinct s"
  shows "case delete_var env n s of
      (False, s') \<Rightarrow> s' = s \<and> (is_cached n s \<longrightarrow> 0 < ref_of n s)
    | (True, s') \<Rightarrow> is_cached n s \<and> ref_of n s \<le> 0 \<and> vars_distinct s' \<and>
        lookup_var env ops n s' = Ok (None, s') \<and> (\<forall>m. m \<noteq> n \<longrightarrow> cached_var m s' = cached_var m s)"
proof (cases "cached_var n s")
  case None
  then show ?thesis by (simp add: delete_var_def uncache_db_var_def is_cached_def)
next
  case (Some v)
  show ?thesis
  proof (cases "ref_count v > 0")
    case True
    with Some show ?thesis by (simp add: delete_var_def uncache_db_var_def is_cached_def ref_of_def)
  next
    case False
    let ?s = "delete_db_var env n (s\<lparr>db_vars := remove_first v (db_vars s)\<rparr>)"
    have del: "delete_var env n s = (True, ?s)"
      using Some False by (simp add: delete_var_def uncache_db_var_def)
    have gone: "cached_var m ?s = (if m = n then None else cached_var m s)" for m
      using cached_var_remove [of "db_vars s" n v m] assms(2) Some
      by (simp add: cached_var_def vars_distinct_def delete_db_var_def)
    have "svc_read env (var_path n) (database ?s) = None"
      using assms(1) by (simp add: db_laws_def delete_db_var_def var_path_def)
    with gone have "lookup_var env ops n ?s = Ok (None, ?s)" by simp
    moreover have "vars_distinct ?s"
      using assms(2) remove_first_names by (simp add: vars_distinct_def delete_db_var_def)
    ultimately show ?thesis
      using del gone Some False by (simp add: is_cached_def ref_of_def)
  qed
qed

theorem delete_var_spec_witness:
  "let s = empty_state\<lparr>db_vars := [\<lparr>dv_name = ''lim'', dv_value = Arg_Int 75, ref_count = 0\<rparr>]\<rparr>
   in fst (delete_var map_env ''lim'' s) \<and>
      lookup_var map_env no_ops ''lim'' (snd (delete_var map_env ''lim'' s)) =
        Ok (None, snd (delete_var map_env ''lim'' s))"
proof -
  let ?s = "empty_state\<lparr>db_vars := [\<lparr>dv_name = ''lim'', dv_value = Arg_Int 75, ref_count = 0\<rparr>]\<rparr>"
  have "fst (delete_var map_env ''lim'' ?s)"
    by (simp add: delete_var_def uncache_db_var_def cached_var_def)
  moreover have "vars_distinct ?s" by (simp add: vars_distinct_def)
  ultimately show ?thesis
    using delete_var_spec [OF map_env_laws, of ?s "''lim''" no_ops]
    by (cases "delete_var map_env ''lim'' ?s") (auto simp: Let_def)
qed

end
