(* ===== verification/List_Head.thy ===== *)
theory List_Head
  imports Prelude
begin

text \<open>
  The intrusive doubly-linked circular lists of xcpmd (\<open>list.h\<close>), at pointer level. A
  memory holds the \<open>next\<close> and \<open>prev\<close> members of every \<open>struct list_head\<close>; the
  address \<open>0\<close> is the null pointer. \<open>clist m h xs\<close> says that the list with the head
  \<open>h\<close> links exactly the nodes \<open>xs\<close>, in that order, in both directions. Every
  operation of \<open>list.h\<close> is shown to do to \<open>xs\<close> what its name says; the locale
  \<open>node_list\<close> states the contract the rest of xcpmd uses, which is why the other
  theories may represent these lists as lists.
\<close>

type_synonym addr = nat

record list_mem =
  nxt :: "addr \<Rightarrow> addr"
  prv :: "addr \<Rightarrow> addr"

abbreviation (input) NULL :: addr where "NULL \<equiv> 0"

definition set_next :: "addr \<Rightarrow> addr \<Rightarrow> list_mem \<Rightarrow> list_mem" where
  "set_next a v m = m\<lparr>nxt := (nxt m)(a := v)\<rparr>"

definition set_prev :: "addr \<Rightarrow> addr \<Rightarrow> list_mem \<Rightarrow> list_mem" where
  "set_prev a v m = m\<lparr>prv := (prv m)(a := v)\<rparr>"

lemma next_set [simp]: "nxt (set_next a v m) = (nxt m)(a := v)" "nxt (set_prev a v m) = nxt m"
  by (simp_all add: set_next_def set_prev_def)

lemma prev_set [simp]: "prv (set_prev a v m) = (prv m)(a := v)" "prv (set_next a v m) = prv m"
  by (simp_all add: set_next_def set_prev_def)

subsection \<open>The operations, assignment by assignment\<close>

definition INIT_LIST_HEAD :: "addr \<Rightarrow> list_mem \<Rightarrow> list_mem" where
  "INIT_LIST_HEAD p m = set_prev p p (set_next p p m)"

definition list_add_between :: "addr \<Rightarrow> addr \<Rightarrow> addr \<Rightarrow> list_mem \<Rightarrow> list_mem" where
  \<comment> \<open>\<open>__list_add(new, prev, next)\<close>\<close>
  "list_add_between new p n m =
     set_next p new (set_prev new p (set_next new n (set_prev n new m)))"

definition list_add :: "addr \<Rightarrow> addr \<Rightarrow> list_mem \<Rightarrow> list_mem" where
  "list_add new head m = list_add_between new head (nxt m head) m"

definition list_add_tail :: "addr \<Rightarrow> addr \<Rightarrow> list_mem \<Rightarrow> list_mem" where
  "list_add_tail new head m = list_add_between new (prv m head) head m"

definition list_del_between :: "addr \<Rightarrow> addr \<Rightarrow> list_mem \<Rightarrow> list_mem" where
  \<comment> \<open>\<open>__list_del(prev, next)\<close>\<close>
  "list_del_between p n m = set_next p n (set_prev n p m)"

definition list_del :: "addr \<Rightarrow> list_mem \<Rightarrow> list_mem" where
  "list_del e m =
     set_prev e NULL (set_next e NULL (list_del_between (prv m e) (nxt m e) m))"

definition list_del_init :: "addr \<Rightarrow> list_mem \<Rightarrow> list_mem" where
  "list_del_init e m = INIT_LIST_HEAD e (list_del_between (prv m e) (nxt m e) m)"

definition list_move :: "addr \<Rightarrow> addr \<Rightarrow> list_mem \<Rightarrow> list_mem" where
  "list_move l head m = list_add l head (list_del_between (prv m l) (nxt m l) m)"

definition list_move_tail :: "addr \<Rightarrow> addr \<Rightarrow> list_mem \<Rightarrow> list_mem" where
  "list_move_tail l head m = list_add_tail l head (list_del_between (prv m l) (nxt m l) m)"

definition list_empty :: "addr \<Rightarrow> list_mem \<Rightarrow> bool" where
  "list_empty head m \<longleftrightarrow> nxt m head = head"

definition list_splice_raw :: "addr \<Rightarrow> addr \<Rightarrow> list_mem \<Rightarrow> list_mem" where
  \<comment> \<open>\<open>__list_splice(list, head)\<close>\<close>
  "list_splice_raw l head m =
     (let first = nxt m l; last = prv m l; at = nxt m head;
          m1 = set_prev first head m;
          m2 = set_next head first m1;
          m3 = set_next last at m2
      in set_prev at last m3)"

definition list_splice :: "addr \<Rightarrow> addr \<Rightarrow> list_mem \<Rightarrow> list_mem" where
  "list_splice l head m = (if list_empty l m then m else list_splice_raw l head m)"

definition list_splice_init :: "addr \<Rightarrow> addr \<Rightarrow> list_mem \<Rightarrow> list_mem" where
  "list_splice_init l head m =
     (if list_empty l m then m else INIT_LIST_HEAD l (list_splice_raw l head m))"

text \<open>
  \<open>list_for_each\<close>: follow \<open>next\<close> from the head until the head comes back. On a
  corrupt list the walk need not end, so it is partial.
\<close>

partial_function (option) list_for_each_from :: "list_mem \<Rightarrow> addr \<Rightarrow> addr \<Rightarrow> addr list option" where
  "list_for_each_from m head pos =
     (if pos = head then Some []
      else Option.bind (list_for_each_from m head (nxt m pos)) (\<lambda>ps. Some (pos # ps)))"

partial_function (option) list_for_each_prev_from :: "list_mem \<Rightarrow> addr \<Rightarrow> addr \<Rightarrow> addr list option" where
  "list_for_each_prev_from m head pos =
     (if pos = head then Some []
      else Option.bind (list_for_each_prev_from m head (prv m pos)) (\<lambda>ps. Some (pos # ps)))"

definition list_for_each :: "addr \<Rightarrow> list_mem \<Rightarrow> addr list option" where
  "list_for_each head m = list_for_each_from m head (nxt m head)"

definition list_for_each_prev :: "addr \<Rightarrow> list_mem \<Rightarrow> addr list option" where
  "list_for_each_prev head m = list_for_each_prev_from m head (prv m head)"

definition list_length :: "addr \<Rightarrow> list_mem \<Rightarrow> nat option" where
  "list_length head m = map_option length (list_for_each head m)"

text \<open>
  \<open>list_for_each_safe\<close> with a body that unlinks the node it visits, the way
  \<open>delete_rules\<close>, \<open>delete_rule\<close> and \<open>delete_cached_vars\<close> empty a list: the
  successor is read before the body runs.
\<close>

partial_function (option) list_del_all_from :: "addr \<Rightarrow> addr \<Rightarrow> list_mem \<Rightarrow> list_mem option" where
  "list_del_all_from head pos m =
     (if pos = head then Some m
      else list_del_all_from head (nxt m pos) (list_del pos m))"

definition list_del_all :: "addr \<Rightarrow> list_mem \<Rightarrow> list_mem option" where
  "list_del_all head m = list_del_all_from head (nxt m head) m"

fun get_list_member_at_index :: "addr \<Rightarrow> nat \<Rightarrow> list_mem \<Rightarrow> addr" where
  "get_list_member_at_index head 0 m = nxt m head"
| "get_list_member_at_index head (Suc i) m = nxt m (get_list_member_at_index head i m)"

subsection \<open>Linked segments\<close>

text \<open>\<open>dseg m p xs q\<close>: from \<open>p\<close> through the nodes \<open>xs\<close> to \<open>q\<close>, linked both ways.\<close>

fun dseg :: "list_mem \<Rightarrow> addr \<Rightarrow> addr list \<Rightarrow> addr \<Rightarrow> bool" where
  "dseg m p [] q \<longleftrightarrow> nxt m p = q \<and> prv m q = p"
| "dseg m p (x # xs) q \<longleftrightarrow> nxt m p = x \<and> prv m x = p \<and> dseg m x xs q"

definition clist :: "list_mem \<Rightarrow> addr \<Rightarrow> addr list \<Rightarrow> bool" where
  "clist m h xs \<longleftrightarrow> distinct (h # xs) \<and> dseg m h xs h"

lemma dseg_append: "dseg m p (xs @ y # ys) q \<longleftrightarrow> dseg m p xs y \<and> dseg m y ys q"
  by (induction xs arbitrary: p) auto

lemma dseg_next: "dseg m p xs q \<Longrightarrow> nxt m p = hd (xs @ [q])"
  by (cases xs) auto

lemma dseg_prev: "dseg m p xs q \<Longrightarrow> prv m q = last (p # xs)"
  by (induction xs arbitrary: p) auto

lemma dseg_frame:
  assumes "dseg m p xs q"
    and "\<And>a. a \<in> insert p (set xs) \<Longrightarrow> nxt m' a = nxt m a"
    and "\<And>a. a \<in> insert q (set xs) \<Longrightarrow> prv m' a = prv m a"
  shows "dseg m' p xs q"
  using assms by (induction xs arbitrary: p) auto

text \<open>Replacing the two end links of a segment: its inner nodes keep theirs.\<close>

lemma dseg_relink_left:
  assumes "dseg m p xs q" and "p' \<notin> set xs" and "q \<notin> set xs" and "distinct xs"
    and "nxt m' p' = hd (xs @ [q])" and "prv m' (hd (xs @ [q])) = p'"
    and "\<And>a. a \<in> set xs \<Longrightarrow> nxt m' a = nxt m a"
    and "\<And>a. a \<in> insert q (set xs) \<Longrightarrow> a \<noteq> hd (xs @ [q]) \<Longrightarrow> prv m' a = prv m a"
  shows "dseg m' p' xs q"
proof (cases xs)
  case Nil
  with assms show ?thesis by simp
next
  case (Cons x ys)
  with assms have "dseg m x ys q" by simp
  then have "dseg m' x ys q"
    by (rule dseg_frame) (use assms Cons in auto)
  with assms Cons show ?thesis by simp
qed

lemma dseg_relink:
  assumes "dseg m p (y # ys) q" and "distinct (y # ys)"
    and "nxt m' p' = y" and "prv m' y = p'"
    and "nxt m' (last (y # ys)) = q'" and "prv m' q' = last (y # ys)"
    and "\<And>a. a \<in> set (y # ys) \<Longrightarrow> a \<noteq> last (y # ys) \<Longrightarrow> nxt m' a = nxt m a"
    and "\<And>a. a \<in> set ys \<Longrightarrow> prv m' a = prv m a"
  shows "dseg m' p' (y # ys) q'"
  using assms
proof (induction ys arbitrary: p p' y)
  case Nil
  then show ?case by simp
next
  case (Cons z zs)
  have "y \<noteq> last (z # zs)" using Cons.prems(2) by (metis distinct.simps(2) last_in_set list.discI)
  have "dseg m' y (z # zs) q'"
  proof (rule Cons.IH)
    show "dseg m y (z # zs) q" using Cons.prems(1) by simp
    show "nxt m' y = z" using Cons.prems(1,7) \<open>y \<noteq> last (z # zs)\<close> by auto
    show "prv m' z = y" using Cons.prems(1,8) by simp
  qed (use Cons.prems in auto)
  with Cons.prems show ?case by simp
qed

lemma dseg_insert:
  assumes "dseg m a (ys @ zs) b" and "distinct (ys @ zs)"
    and "a \<notin> set (ys @ zs)" and "b \<notin> set (ys @ zs)"
    and "new \<notin> insert a (insert b (set (ys @ zs)))"
  shows "dseg (list_add_between new (last (a # ys)) (hd (zs @ [b])) m) a (ys @ new # zs) b"
    (is "dseg ?m' _ _ _")
  using assms
proof (induction ys arbitrary: a)
  case Nil
  let ?n = "hd (zs @ [b])"
  let ?m = "list_add_between new a ?n m"
  have n: "?n \<in> insert b (set zs)" by (cases zs) auto
  then have "?n \<noteq> new" using Nil.prems by auto
  have "dseg ?m new zs b"
    by (rule dseg_relink_left [of m a zs b])
      (use Nil.prems \<open>?n \<noteq> new\<close> in \<open>auto simp: list_add_between_def\<close>)
  with Nil.prems show ?case by (simp add: list_add_between_def)
next
  case (Cons y ys)
  let ?n = "hd (zs @ [b])"
  let ?m = "list_add_between new (last (y # ys)) ?n m"
  have n: "?n \<in> insert b (set zs)" by (cases zs) auto
  have "dseg ?m y (ys @ new # zs) b"
    by (rule Cons.IH) (use Cons.prems in auto)
  moreover have "last (y # ys) \<in> set (y # ys)" by (rule last_in_set) simp
  ultimately show ?case
    using Cons.prems n by (auto simp: list_add_between_def)
qed

lemma dseg_delete:
  assumes "dseg m a (ys @ x # zs) b" and "distinct (ys @ x # zs)"
    and "a \<notin> set (ys @ x # zs)" and "b \<notin> set (ys @ x # zs)"
  shows "dseg (list_del_between (last (a # ys)) (hd (zs @ [b])) m) a (ys @ zs) b"
  using assms
proof (induction ys arbitrary: a)
  case Nil
  let ?n = "hd (zs @ [b])"
  have n: "?n \<in> insert b (set zs)" by (cases zs) auto
  have "dseg m x zs b" using Nil.prems by simp
  then show ?case
    by (simp, rule dseg_relink_left [of m x zs b])
      (use Nil.prems n in \<open>auto simp: list_del_between_def\<close>)
next
  case (Cons y ys)
  let ?n = "hd (zs @ [b])"
  have n: "?n \<in> insert b (set zs)" by (cases zs) auto
  have "dseg (list_del_between (last (y # ys)) ?n m) y (ys @ zs) b"
    by (rule Cons.IH) (use Cons.prems in auto)
  moreover have "last (y # ys) \<in> set (y # ys)" by (rule last_in_set) simp
  ultimately show ?case
    using Cons.prems n by (auto simp: list_del_between_def)
qed

subsection \<open>What each operation does to the list\<close>

lemma clist_next: "clist m h xs \<Longrightarrow> nxt m h = hd (xs @ [h])"
  by (auto simp: clist_def dest: dseg_next)

lemma clist_prev: "clist m h xs \<Longrightarrow> prv m h = last (h # xs)"
  by (auto simp: clist_def dest: dseg_prev)

lemma clist_member_links:
  assumes "clist m h (ys @ x # zs)"
  shows "prv m x = last (h # ys)" and "nxt m x = hd (zs @ [h])"
  using assms dseg_prev [of m h ys x] dseg_next [of m x zs h]
  by (simp_all add: clist_def dseg_append)

lemma clist_init: "clist (INIT_LIST_HEAD h m) h []"
  by (simp add: clist_def INIT_LIST_HEAD_def)

lemma clist_empty: "clist m h xs \<Longrightarrow> list_empty h m \<longleftrightarrow> xs = []"
  by (cases xs) (auto simp: list_empty_def clist_def)

lemma clist_add:
  assumes "clist m h xs" and "new \<notin> insert h (set xs)"
  shows "clist (list_add new h m) h (new # xs)"
  using dseg_insert [of m h "[]" xs h new] assms
  by (auto simp: clist_def list_add_def dest: dseg_next)

lemma clist_add_tail:
  assumes "clist m h xs" and "new \<notin> insert h (set xs)"
  shows "clist (list_add_tail new h m) h (xs @ [new])"
  using dseg_insert [of m h xs "[]" h new] assms clist_prev [OF assms(1)]
  by (auto simp: clist_def list_add_tail_def)

lemma clist_del_between:
  assumes "clist m h (ys @ x # zs)"
  shows "clist (list_del_between (prv m x) (nxt m x) m) h (ys @ zs)"
  using dseg_delete [of m h ys x zs h] assms clist_member_links [OF assms]
  by (auto simp: clist_def)

lemma clist_frame:
  assumes "clist m h xs"
    and "\<And>a. a \<in> insert h (set xs) \<Longrightarrow> nxt m' a = nxt m a \<and> prv m' a = prv m a"
  shows "clist m' h xs"
  using assms by (auto simp: clist_def intro: dseg_frame)

lemma clist_del:
  assumes "clist m h (ys @ x # zs)"
  shows "clist (list_del x m) h (ys @ zs)"
    and "nxt (list_del x m) x = NULL" and "prv (list_del x m) x = NULL"
proof -
  have "x \<notin> insert h (set (ys @ zs))" using assms by (auto simp: clist_def)
  then show "clist (list_del x m) h (ys @ zs)"
    by (intro clist_frame [OF clist_del_between [OF assms]]) (auto simp: list_del_def)
qed (simp_all add: list_del_def)

lemma clist_del_init:
  assumes "clist m h (ys @ x # zs)"
  shows "clist (list_del_init x m) h (ys @ zs)" and "clist (list_del_init x m) x []"
proof -
  have "x \<notin> insert h (set (ys @ zs))" using assms by (auto simp: clist_def)
  then show "clist (list_del_init x m) h (ys @ zs)"
    by (intro clist_frame [OF clist_del_between [OF assms]])
      (auto simp: list_del_init_def INIT_LIST_HEAD_def)
  show "clist (list_del_init x m) x []"
    by (simp add: list_del_init_def clist_init)
qed

lemma clist_move_tail:
  assumes "clist m h (ys @ x # zs)"
  shows "clist (list_move_tail x h m) h (ys @ zs @ [x])"
  using clist_add_tail [OF clist_del_between [OF assms], of x] assms
  by (auto simp: clist_def list_move_tail_def)

lemma clist_move:
  assumes "clist m h (ys @ x # zs)"
  shows "clist (list_move x h m) h (x # ys @ zs)"
  using clist_add [OF clist_del_between [OF assms], of x] assms
  by (auto simp: clist_def list_move_def)

lemma clist_splice_raw:
  assumes l: "clist m l (y # ys)" and h: "clist m h xs"
    and disj: "set (l # y # ys) \<inter> set (h # xs) = {}"
  shows "clist (list_splice_raw l h m) h ((y # ys) @ xs)"
proof -
  let ?m = "list_splice_raw l h m"
  let ?last = "last (y # ys)"
  have first: "nxt m l = y" and lst: "prv m l = ?last" and at: "nxt m h = hd (xs @ [h])"
    using clist_next [OF l] clist_prev [OF l] clist_next [OF h] by simp_all
  have in_last: "?last \<in> set (y # ys)" by (rule last_in_set) simp
  have in_at: "hd (xs @ [h]) \<in> set (h # xs)" by (cases xs) auto
  have m: "nxt ?m = (nxt m)(h := y, ?last := hd (xs @ [h]))"
          "prv ?m = (prv m)(y := h, hd (xs @ [h]) := ?last)"
    using first lst at by (simp_all add: list_splice_raw_def Let_def)
  have dist: "distinct (y # ys)" "dseg m l (y # ys) l" "distinct (h # xs)" "dseg m h xs h"
    using l h by (simp_all add: clist_def)
  have left: "dseg ?m h (y # ys) (hd (xs @ [h]))"
  proof (rule dseg_relink [OF dist(2,1)])
    show "nxt ?m h = y" using m(1) in_last disj by auto
    show "prv ?m y = h" using m(2) in_at disj by auto
    show "nxt ?m ?last = hd (xs @ [h])" using m(1) by simp
    show "prv ?m (hd (xs @ [h])) = ?last" using m(2) by simp
    show "nxt ?m a = nxt m a" if "a \<in> set (y # ys)" "a \<noteq> ?last" for a
      using m(1) that disj by auto
    show "prv ?m a = prv m a" if "a \<in> set ys" for a
      using m(2) that in_at disj dist(1) by auto
  qed
  have "dseg ?m h ((y # ys) @ xs) h"
  proof (cases xs)
    case Nil
    with left show ?thesis by simp
  next
    case (Cons x xs')
    have "dseg m x xs' h" using dist(4) Cons by simp
    then have "dseg ?m x xs' h"
      by (rule dseg_frame) (use m in_last disj dist(3) Cons in auto)
    moreover have "dseg ?m h (y # ys) x" using left Cons by simp
    ultimately show ?thesis unfolding Cons by (subst dseg_append) simp
  qed
  then show ?thesis using disj dist by (auto simp: clist_def)
qed

lemma clist_splice:
  assumes "clist m l ys" and "clist m h xs" and "set (l # ys) \<inter> set (h # xs) = {}"
  shows "clist (list_splice l h m) h (ys @ xs)"
  using assms clist_splice_raw [of m l _ _ h xs] clist_empty [OF assms(1)]
  by (cases ys) (simp_all add: list_splice_def)

lemma clist_splice_init:
  assumes "clist m l ys" and "clist m h xs" and "set (l # ys) \<inter> set (h # xs) = {}"
  shows "clist (list_splice_init l h m) h (ys @ xs)" and "clist (list_splice_init l h m) l []"
proof -
  have "clist (list_splice_init l h m) h (ys @ xs) \<and> clist (list_splice_init l h m) l []"
  proof (cases ys)
    case Nil
    then show ?thesis using assms clist_empty [OF assms(1)] by (simp add: list_splice_init_def)
  next
    case (Cons y ys')
    have "clist (INIT_LIST_HEAD l (list_splice_raw l h m)) h (ys @ xs)"
      by (rule clist_frame [OF clist_splice_raw [of m l y ys' h xs, folded Cons]])
        (use assms Cons in \<open>auto simp: INIT_LIST_HEAD_def clist_def\<close>)
    then show ?thesis
      using Cons clist_empty [OF assms(1)] by (simp add: list_splice_init_def clist_init)
  qed
  then show "clist (list_splice_init l h m) h (ys @ xs)" "clist (list_splice_init l h m) l []"
    by simp_all
qed

lemma list_for_each_from_seg:
  assumes "dseg m p xs h" and "h \<notin> set xs"
  shows "list_for_each_from m h (nxt m p) = Some xs"
  using assms
proof (induction xs arbitrary: p)
  case Nil
  then show ?case by (simp add: list_for_each_from.simps)
next
  case (Cons x xs)
  then have "list_for_each_from m h (nxt m x) = Some xs" by auto
  with Cons.prems show ?case by (subst list_for_each_from.simps) auto
qed

lemma clist_for_each: "clist m h xs \<Longrightarrow> list_for_each h m = Some xs"
  by (simp add: clist_def list_for_each_def list_for_each_from_seg)

lemma list_for_each_prev_from_seg:
  assumes "dseg m h xs q" and "h \<notin> set xs"
  shows "list_for_each_prev_from m h (prv m q) = Some (rev xs)"
  using assms
proof (induction xs arbitrary: q rule: rev_induct)
  case Nil
  then show ?case by (simp add: list_for_each_prev_from.simps)
next
  case (snoc x xs)
  then have seg: "dseg m h xs x" "prv m q = x" by (simp_all add: dseg_append)
  with snoc have "list_for_each_prev_from m h (prv m x) = Some (rev xs)" by auto
  with seg snoc.prems show ?case by (subst list_for_each_prev_from.simps) auto
qed

lemma clist_for_each_prev: "clist m h xs \<Longrightarrow> list_for_each_prev h m = Some (rev xs)"
  by (simp add: clist_def list_for_each_prev_def list_for_each_prev_from_seg)

lemma clist_length: "clist m h xs \<Longrightarrow> list_length h m = Some (length xs)"
  by (simp add: list_length_def clist_for_each)

lemma clist_del_head:
  assumes "clist m h (x # xs)"
  shows "clist (list_del x m) h xs" and "nxt m x = nxt (list_del x m) h"
proof -
  show cl: "clist (list_del x m) h xs" using clist_del(1) [of m h "[]" x xs] assms by simp
  show "nxt m x = nxt (list_del x m) h"
    using clist_member_links(2) [of m h "[]" x xs] clist_next [OF cl] assms by simp
qed

lemma clist_fold_del: "clist m h xs \<Longrightarrow> clist (fold list_del xs m) h []"
  by (induction xs arbitrary: m) (simp_all add: clist_del_head)

lemma nxt_list_del_self: "nxt (list_del x m) x = NULL"
  by (simp add: list_del_def)

lemma nxt_list_del_other:
  assumes "clist m h (y # ys)" and "x \<notin> insert h (set (y # ys))"
  shows "nxt (list_del y m) x = nxt m x"
  using clist_member_links(1) [of m h "[]" y ys] assms
  by (auto simp: list_del_def list_del_between_def)

lemma nxt_fold_del_other:
  "clist m h xs \<Longrightarrow> x \<notin> insert h (set xs) \<Longrightarrow> nxt (fold list_del xs m) x = nxt m x"
  by (induction xs arbitrary: m) (simp_all add: clist_del_head nxt_list_del_other)

lemma nxt_fold_del: "clist m h xs \<Longrightarrow> x \<in> set xs \<Longrightarrow> nxt (fold list_del xs m) x = NULL"
proof (induction xs arbitrary: m)
  case Nil
  then show ?case by simp
next
  case (Cons y ys)
  show ?case
  proof (cases "x \<in> set ys")
    case True
    with Cons.IH [OF clist_del_head(1) [OF Cons.prems(1)]] show ?thesis by simp
  next
    case False
    with Cons.prems have "x = y" "x \<noteq> h" by (auto simp: clist_def)
    with False nxt_fold_del_other [OF clist_del_head(1) [OF Cons.prems(1)], of x]
      nxt_list_del_self [of x m]
    show ?thesis by simp
  qed
qed

lemma list_del_all_fold: "clist m h xs \<Longrightarrow> list_del_all h m = Some (fold list_del xs m)"
proof (induction xs arbitrary: m)
  case Nil
  then show ?case
    by (simp add: list_del_all_def list_del_all_from.simps [of h h] clist_next)
next
  case (Cons x xs)
  have "x \<noteq> h" and "nxt m h = x"
    using Cons.prems clist_next [OF Cons.prems] by (auto simp: clist_def)
  then have "list_del_all h m = list_del_all h (list_del x m)"
    using clist_del_head(2) [OF Cons.prems]
    by (simp add: list_del_all_def list_del_all_from.simps [of h x])
  with Cons.IH [OF clist_del_head(1) [OF Cons.prems]] show ?case by simp
qed

lemma clist_member_at_index:
  assumes "clist m h xs"
  shows "i < length xs \<Longrightarrow> get_list_member_at_index h i m = xs ! i"
    and "get_list_member_at_index h (length xs) m = h"
proof -
  have "i \<le> length xs \<Longrightarrow> get_list_member_at_index h i m = (xs @ [h]) ! i" for i
  proof (induction i)
    case 0
    then show ?case using clist_next [OF assms] by (cases xs) auto
  next
    case (Suc i)
    then have split: "xs = take i xs @ xs ! i # drop (Suc i) xs"
      by (simp add: id_take_nth_drop)
    have "nxt m (xs ! i) = hd (drop (Suc i) xs @ [h])"
      using clist_member_links(2) [of m h "take i xs" "xs ! i" "drop (Suc i) xs"] assms split
      by metis
    also have "\<dots> = (xs @ [h]) ! Suc i"
      using Suc.prems by (cases "Suc i = length xs") (auto simp: hd_append hd_drop_conv_nth nth_append)
    finally show ?case using Suc by (simp add: nth_append)
  qed
  then show "i < length xs \<Longrightarrow> get_list_member_at_index h i m = xs ! i"
    and "get_list_member_at_index h (length xs) m = h"
    by (simp_all add: nth_append)
qed

subsection \<open>The contract of the lists\<close>

text \<open>
  What xcpmd relies on: appending links a node at the end, deleting unlinks it and leaves
  every other list alone, and a traversal visits exactly the linked nodes in order.
\<close>

locale node_list =
  fixes repr :: "'m \<Rightarrow> 'a \<Rightarrow> 'a list \<Rightarrow> bool"
    and init :: "'a \<Rightarrow> 'm \<Rightarrow> 'm"
    and add_tail :: "'a \<Rightarrow> 'a \<Rightarrow> 'm \<Rightarrow> 'm"
    and del :: "'a \<Rightarrow> 'm \<Rightarrow> 'm"
    and visit :: "'a \<Rightarrow> 'm \<Rightarrow> 'a list option"
  assumes repr_init: "repr (init h m) h []"
    and repr_distinct: "repr m h xs \<Longrightarrow> distinct (h # xs)"
    and repr_add_tail: "repr m h xs \<Longrightarrow> n \<notin> insert h (set xs) \<Longrightarrow> repr (add_tail n h m) h (xs @ [n])"
    and repr_del: "repr m h xs \<Longrightarrow> x \<in> set xs \<Longrightarrow> repr (del x m) h (remove1 x xs)"
    and repr_other_add: "repr m h xs \<Longrightarrow> repr m k ys \<Longrightarrow> set (h # xs) \<inter> set (k # ys) = {} \<Longrightarrow>
      n \<notin> set (h # xs) \<union> set (k # ys) \<Longrightarrow> repr (add_tail n h m) k ys"
    and repr_other_del: "repr m h xs \<Longrightarrow> repr m k ys \<Longrightarrow> set (h # xs) \<inter> set (k # ys) = {} \<Longrightarrow>
      x \<in> set xs \<Longrightarrow> repr (del x m) k ys"
    and repr_visit: "repr m h xs \<Longrightarrow> visit h m = Some xs"
begin

lemma visit_in_insertion_order:
  assumes "repr m h xs" and "distinct ns" and "set ns \<inter> insert h (set xs) = {}"
  shows "visit h (fold (\<lambda>n. add_tail n h) ns m) = Some (xs @ ns)"
    and "repr (fold (\<lambda>n. add_tail n h) ns m) h (xs @ ns)"
proof -
  show "repr (fold (\<lambda>n. add_tail n h) ns m) h (xs @ ns)"
    using assms
  proof (induction ns arbitrary: m xs)
    case Nil
    then show ?case by simp
  next
    case (Cons n ns)
    have "repr (add_tail n h m) h (xs @ [n])"
      by (rule repr_add_tail) (use Cons.prems in auto)
    with Cons.IH [of "add_tail n h m" "xs @ [n]"] Cons.prems show ?case by auto
  qed
  then show "visit h (fold (\<lambda>n. add_tail n h) ns m) = Some (xs @ ns)"
    by (rule repr_visit)
qed

lemma add_then_del:
  assumes "repr m h xs" and "n \<notin> insert h (set xs)"
  shows "repr (del n (add_tail n h m)) h xs"
  using repr_del [OF repr_add_tail [OF assms], of n] assms(2) by (simp add: remove1_append)

lemma del_not_visited:
  assumes "repr m h xs" and "x \<in> set xs"
  shows "\<exists>ys. visit h (del x m) = Some ys \<and> x \<notin> set ys \<and> set ys = set xs - {x}"
  using repr_visit [OF repr_del [OF assms]] repr_distinct [OF assms(1)] by auto

end

lemma clist_del_remove1:
  assumes "clist m h xs" and "x \<in> set xs"
  shows "clist (list_del x m) h (remove1 x xs)"
proof -
  obtain ys zs where xs: "xs = ys @ x # zs" using split_list [OF assms(2)] by blast
  with assms have "x \<notin> set ys" by (auto simp: clist_def)
  with xs clist_del(1) [of m h ys x zs] assms(1) show ?thesis by (simp add: remove1_append)
qed

lemma clist_add_tail_other:
  assumes "clist m h xs" and "clist m k ys" and "set (h # xs) \<inter> set (k # ys) = {}"
    and "n \<notin> set (h # xs) \<union> set (k # ys)"
  shows "clist (list_add_tail n h m) k ys"
proof -
  have "last (h # xs) \<in> set (h # xs)" by (rule last_in_set) simp
  with assms clist_prev [OF assms(1)] show ?thesis
    by (intro clist_frame [OF assms(2)]) (auto simp: list_add_tail_def list_add_between_def)
qed

lemma clist_del_other:
  assumes "clist m h xs" and "clist m k ys" and "set (h # xs) \<inter> set (k # ys) = {}"
    and "x \<in> set xs"
  shows "clist (list_del x m) k ys"
proof -
  obtain as bs where xs: "xs = as @ x # bs" using split_list [OF assms(4)] by blast
  have "prv m x \<in> set (h # xs)" "nxt m x \<in> set (h # xs)"
    using clist_member_links [OF assms(1) [unfolded xs]] xs by (cases bs; auto)+
  with assms show ?thesis
    by (intro clist_frame [OF assms(2)]) (auto simp: list_del_def list_del_between_def)
qed

interpretation lh: node_list clist INIT_LIST_HEAD list_add_tail list_del list_for_each
proof unfold_locales
  show "clist m h xs \<Longrightarrow> distinct (h # xs)" for m h xs by (simp add: clist_def)
qed (simp_all add: clist_init clist_add_tail clist_del_remove1 clist_add_tail_other
       clist_del_other clist_for_each)


subsection \<open>Properties\<close>

text \<open>
  C22. The mutations of \<open>list.h\<close> do to the sequence of linked nodes what they are named for:
  adding prepends or appends a new node, deleting and moving take the node out of its place
  and leave the others in order, splicing inserts another list's nodes at the front. The
  links stay consistent in both directions, and a deleted node's own links are null, which
  is how \<open>delete_rule\<close> recognises a rule that was never linked.
\<close>

theorem list_ops_refine:
  assumes "clist m h (ys @ x # zs)" and "n \<notin> insert h (set (ys @ x # zs))"
  shows "clist (list_add n h m) h (n # ys @ x # zs) \<and>
    clist (list_add_tail n h m) h (ys @ x # zs @ [n]) \<and>
    clist (list_del x m) h (ys @ zs) \<and> nxt (list_del x m) x = NULL \<and> prv (list_del x m) x = NULL \<and>
    clist (list_del_init x m) h (ys @ zs) \<and> clist (list_del_init x m) x [] \<and>
    clist (list_move x h m) h (x # ys @ zs) \<and> clist (list_move_tail x h m) h (ys @ zs @ [x])"
  using clist_add [OF assms] clist_add_tail [OF assms] clist_del [OF assms(1)] clist_del_init [OF assms(1)]
    clist_move [OF assms(1)] clist_move_tail [OF assms(1)]
  by simp

definition demo_mem :: list_mem where
  "demo_mem = list_add_tail 2 9 (list_add_tail 1 9 (INIT_LIST_HEAD 9 \<lparr>nxt = (\<lambda>_. 0), prv = (\<lambda>_. 0)\<rparr>))"

lemma demo_mem_list: "clist demo_mem 9 [1, 2]"
proof -
  let ?m = "INIT_LIST_HEAD 9 \<lparr>nxt = (\<lambda>_. 0), prv = (\<lambda>_. 0)\<rparr>"
  have "clist (list_add_tail 1 9 ?m) 9 [1]" using clist_add_tail [OF clist_init, of 1 9] by simp
  from clist_add_tail [OF this, of 2] show ?thesis by (simp add: demo_mem_def)
qed

theorem list_ops_refine_witness:
  "clist (list_add_tail 3 9 demo_mem) 9 [1, 2, 3] \<and> clist (list_del 1 demo_mem) 9 [2] \<and>
   nxt (list_del 1 demo_mem) 1 = 0"
  using list_ops_refine [of demo_mem 9 "[]" 1 "[2]" 3] demo_mem_list by simp

text \<open>
  C25. Traversals of a well-formed list end and see exactly its nodes: \<open>list_for_each\<close> in
  order, \<open>list_for_each_prev\<close> in reverse, \<open>list_length\<close> counts them, and
  \<open>get_list_member_at_index\<close> is indexing, with the head itself one past the end. Nodes
  appended one after the other are visited in the order of appending.
\<close>

theorem list_traversal:
  assumes "clist m h xs"
  shows "list_for_each h m = Some xs \<and> list_for_each_prev h m = Some (rev xs) \<and>
    list_length h m = Some (length xs) \<and> (list_empty h m \<longleftrightarrow> xs = []) \<and>
    (\<forall>i < length xs. get_list_member_at_index h i m = xs ! i) \<and>
    get_list_member_at_index h (length xs) m = h \<and>
    (\<forall>ns. distinct ns \<longrightarrow> set ns \<inter> insert h (set xs) = {} \<longrightarrow>
       list_for_each h (fold (\<lambda>n. list_add_tail n h) ns m) = Some (xs @ ns))"
  using clist_for_each [OF assms] clist_for_each_prev [OF assms] clist_length [OF assms]
    clist_empty [OF assms] clist_member_at_index [OF assms] lh.visit_in_insertion_order(1) [OF assms]
  by blast

theorem list_traversal_witness:
  "list_for_each 9 demo_mem = Some [1, 2] \<and> list_length 9 demo_mem = Some 2 \<and>
   get_list_member_at_index 9 2 demo_mem = 9"
  using list_traversal [OF demo_mem_list] by (simp add: numeral_2_eq_2)

text \<open>
  C26. Emptying a list while walking it (\<open>list_for_each_safe\<close> with a body that unlinks the
  current node, as in \<open>delete_rules\<close> and \<open>delete_cached_vars\<close>) ends, leaves the list
  empty and every former member unlinked.
\<close>

theorem list_del_all_empties:
  assumes "clist m h xs"
  shows "\<exists>m'. list_del_all h m = Some m' \<and> clist m' h [] \<and> (\<forall>x \<in> set xs. nxt m' x = NULL)"
  using list_del_all_fold [OF assms] clist_fold_del [OF assms] nxt_fold_del [OF assms] by blast

theorem list_del_all_empties_witness:
  "\<exists>m'. list_del_all 9 demo_mem = Some m' \<and> clist m' 9 [] \<and> nxt m' 2 = 0"
  using list_del_all_empties [OF demo_mem_list] by auto

text \<open>
  C27. \<open>list_splice_init\<close> moves all nodes of one list to the front of another and leaves the
  first list empty.
\<close>

theorem list_splice_init_refine:
  assumes "clist m l ys" and "clist m h xs" and "set (l # ys) \<inter> set (h # xs) = {}"
  shows "clist (list_splice_init l h m) h (ys @ xs) \<and> clist (list_splice_init l h m) l []"
  using clist_splice_init [OF assms] by simp

theorem list_splice_init_refine_witness:
  "clist (list_splice_init 9 8 (INIT_LIST_HEAD 8 demo_mem)) 8 [1, 2]"
proof -
  have "clist (INIT_LIST_HEAD 8 demo_mem) 9 [1, 2]"
    by (rule clist_frame [OF demo_mem_list]) (auto simp: INIT_LIST_HEAD_def)
  from list_splice_init_refine [OF this clist_init] show ?thesis by simp
qed

end
