(* ===== verification/Rule_Engine.thy ===== *)
theory Rule_Engine
  imports Var_Cache List_Head
begin

text \<open>
  The rule engine of xcpmd (\<open>rules.c\<close>): registration of events, condition types and action
  types, construction, validation and deletion of rules, reference counts of the variables
  they use, and the evaluation of a rule. Operations that resolve a variable take the
  database \<open>env\<close> and the parser operations \<open>ops\<close> that reading a stored variable uses.
\<close>

subsection \<open>Registration\<close>

definition add_event :: "string \<Rightarrow> bool \<Rightarrow> arg_type \<Rightarrow> arg \<Rightarrow> 'd xstate \<Rightarrow> nat \<times> 'd xstate" where
  "add_event name stateless vtype reset s =
     (length (events s),
      s\<lparr>events := events s @ [\<lparr>ev_name = name, is_stateless = stateless, listeners = [],
                               value_type = vtype, reset_value = reset, ev_value = reset\<rparr>]\<rparr>)"

definition add_condition_type ::
  "string \<Rightarrow> string \<Rightarrow> string \<Rightarrow> string \<Rightarrow> nat \<Rightarrow> 'd xstate \<Rightarrow> 'd xstate" where
  "add_condition_type name check proto pretty ev s =
     s\<lparr>condition_types := condition_types s @
        [\<lparr>ct_name = name, ct_check = check, ct_prototype = proto, ct_pretty_prototype = pretty, ct_event = ev\<rparr>]\<rparr>"

definition add_action_type ::
  "string \<Rightarrow> string \<Rightarrow> string \<Rightarrow> string \<Rightarrow> 'd xstate \<Rightarrow> 'd xstate" where
  "add_action_type name func proto pretty s =
     s\<lparr>action_types := action_types s @
        [\<lparr>at_name = name, at_action = func, at_prototype = proto, at_pretty_prototype = pretty\<rparr>]\<rparr>"

definition lookup_condition_type :: "string \<Rightarrow> 'd xstate \<Rightarrow> condition_type option" where
  "lookup_condition_type name s = find_first (\<lambda>t. ct_name t = name) (condition_types s)"

definition lookup_action_type :: "string \<Rightarrow> 'd xstate \<Rightarrow> action_type option" where
  "lookup_action_type name s = find_first (\<lambda>t. at_name t = name) (action_types s)"

definition get_registered_action_types :: "'d xstate \<Rightarrow> string list" where
  "get_registered_action_types s =
     map (\<lambda>t. at_name t @ ''('' @ at_pretty_prototype t @ '')'') (action_types s)"

definition get_registered_condition_types :: "'d xstate \<Rightarrow> string list" where
  "get_registered_condition_types s =
     map (\<lambda>t. ct_name t @ ''('' @ ct_pretty_prototype t @ '')'') (condition_types s)"

subsection \<open>Construction\<close>

definition new_rule :: "string option \<Rightarrow> 'd xstate \<Rightarrow> addr \<times> 'd xstate" where
  "new_rule i s =
     (next_addr s,
      s\<lparr>rule_heap := (rule_heap s)(next_addr s \<mapsto>
          \<lparr>rule_id = i, conditions = [], actions = [], undos = [], is_active = False, linked = False\<rparr>),
        next_addr := Suc (next_addr s)\<rparr>)"

definition add_listener :: "addr \<Rightarrow> nat \<Rightarrow> 'd xstate \<Rightarrow> 'd xstate outcome" where
  "add_listener c ev s =
     (if ev < length (events s)
      then Ok (s\<lparr>events := (events s)[ev := (events s ! ev)\<lparr>listeners := listeners (events s ! ev) @ [c]\<rparr>]\<rparr>)
      else Crash Null_Deref)"

definition new_condition :: "condition_type option \<Rightarrow> 'd xstate \<Rightarrow> (addr option \<times> 'd xstate) outcome" where
  "new_condition ty s =
     (case ty of
        None \<Rightarrow> Ok (None, s)
      | Some t \<Rightarrow>
          let c = next_addr s;
              s' = s\<lparr>cond_heap := (cond_heap s)(c \<mapsto>
                       \<lparr>c_type = t, c_rule = None, is_true = False, is_inverted = False, c_args = []\<rparr>),
                     next_addr := Suc c\<rparr>
          in omap (\<lambda>s''. (Some c, s'')) (add_listener c (ct_event t) s'))"

definition new_action :: "action_type option \<Rightarrow> action option" where
  "new_action ty = (case ty of None \<Rightarrow> None | Some t \<Rightarrow> Some \<lparr>a_type = t, a_args = []\<rparr>)"

definition new_condition_from_string :: "string \<Rightarrow> 'd xstate \<Rightarrow> (addr option \<times> 'd xstate) outcome" where
  "new_condition_from_string name s = new_condition (lookup_condition_type name s) s"

definition new_action_from_string :: "string \<Rightarrow> 'd xstate \<Rightarrow> action option" where
  "new_action_from_string name s = new_action (lookup_action_type name s)"

definition upd_cond :: "addr \<Rightarrow> (condition \<Rightarrow> condition) \<Rightarrow> 'd xstate \<Rightarrow> 'd xstate outcome" where
  "upd_cond c f s =
     omap (\<lambda>x. s\<lparr>cond_heap := (cond_heap s)(c \<mapsto> f x)\<rparr>) (access (cond_heap s) c)"

definition upd_rule :: "addr \<Rightarrow> (rule \<Rightarrow> rule) \<Rightarrow> 'd xstate \<Rightarrow> 'd xstate outcome" where
  "upd_rule r f s =
     omap (\<lambda>x. s\<lparr>rule_heap := (rule_heap s)(r \<mapsto> f x)\<rparr>) (access (rule_heap s) r)"

definition invert_condition :: "addr \<Rightarrow> 'd xstate \<Rightarrow> 'd xstate outcome" where
  "invert_condition c = upd_cond c (\<lambda>x. x\<lparr>is_inverted := True\<rparr>)"

definition uninvert_condition :: "addr \<Rightarrow> 'd xstate \<Rightarrow> 'd xstate outcome" where
  "uninvert_condition c = upd_cond c (\<lambda>x. x\<lparr>is_inverted := False\<rparr>)"

definition add_condition_arg :: "addr option \<Rightarrow> arg \<Rightarrow> 'd xstate \<Rightarrow> 'd xstate outcome" where
  "add_condition_arg c a s =
     (case c of None \<Rightarrow> Ok s | Some c \<Rightarrow> upd_cond c (\<lambda>x. x\<lparr>c_args := c_args x @ [a]\<rparr>) s)"

definition add_action_arg :: "arg \<Rightarrow> action option \<Rightarrow> action option" where
  "add_action_arg a act = map_option (\<lambda>x. x\<lparr>a_args := a_args x @ [a]\<rparr>) act"

definition add_condition_to_rule :: "addr option \<Rightarrow> addr option \<Rightarrow> 'd xstate \<Rightarrow> 'd xstate outcome" where
  "add_condition_to_rule r c s =
     (case r of None \<Rightarrow> Ok s
      | Some r \<Rightarrow> (case c of None \<Rightarrow> Ok s
          | Some c \<Rightarrow> obind (upd_cond c (\<lambda>x. x\<lparr>c_rule := Some r\<rparr>) s)
              (upd_rule r (\<lambda>x. x\<lparr>conditions := conditions x @ [c]\<rparr>))))"

definition add_action_to_rule :: "addr option \<Rightarrow> action option \<Rightarrow> 'd xstate \<Rightarrow> 'd xstate outcome" where
  "add_action_to_rule r act s =
     (case r of None \<Rightarrow> Ok s
      | Some r \<Rightarrow> (case act of None \<Rightarrow> Ok s
          | Some a \<Rightarrow> upd_rule r (\<lambda>x. x\<lparr>actions := actions x @ [a]\<rparr>) s))"

definition add_undo_to_rule :: "addr option \<Rightarrow> action option \<Rightarrow> 'd xstate \<Rightarrow> 'd xstate outcome" where
  "add_undo_to_rule r act s =
     (case r of None \<Rightarrow> Ok s
      | Some r \<Rightarrow> (case act of None \<Rightarrow> Ok s
          | Some a \<Rightarrow> upd_rule r (\<lambda>x. x\<lparr>undos := undos x @ [a]\<rparr>) s))"

subsection \<open>Reference counts\<close>

definition ref_arg ::
  "'d env \<Rightarrow> 'd xstate parser_ops \<Rightarrow> int \<Rightarrow> arg \<Rightarrow> 'd xstate \<Rightarrow> 'd xstate outcome" where
  \<comment> \<open>the body of the argument loops\<close>
  "ref_arg env ops k a s =
     (case a of
        Arg_Var v \<Rightarrow>
          obind (lookup_var env ops v s) (\<lambda>(found, s').
            obind (deref found) (\<lambda>_. Ok (bump_ref v k s')))
      | _ \<Rightarrow> Ok s)"

definition change_variable_refs ::
  "'d env \<Rightarrow> 'd xstate parser_ops \<Rightarrow> int \<Rightarrow> addr \<Rightarrow> 'd xstate \<Rightarrow> 'd xstate outcome" where
  "change_variable_refs env ops k r s =
     obind (access (rule_heap s) r) (\<lambda>rule.
       obind (ofold (\<lambda>c s. obind (access (cond_heap s) c) (\<lambda>cond. ofold (ref_arg env ops k) (c_args cond) s))
                (conditions rule) s) (\<lambda>s.
         obind (ofold (\<lambda>act. ofold (ref_arg env ops k) (a_args act)) (actions rule) s)
           (ofold (\<lambda>act. ofold (ref_arg env ops k) (a_args act)) (undos rule))))"

definition inc_variable_refs :: "'d env \<Rightarrow> 'd xstate parser_ops \<Rightarrow> addr \<Rightarrow> 'd xstate \<Rightarrow> 'd xstate outcome" where
  "inc_variable_refs env ops = change_variable_refs env ops 1"

definition dec_variable_refs :: "'d env \<Rightarrow> 'd xstate parser_ops \<Rightarrow> addr \<Rightarrow> 'd xstate \<Rightarrow> 'd xstate outcome" where
  "dec_variable_refs env ops = change_variable_refs env ops (- 1)"

subsection \<open>The rule list\<close>

definition add_rule :: "'d env \<Rightarrow> 'd xstate parser_ops \<Rightarrow> addr option \<Rightarrow> 'd xstate \<Rightarrow> 'd xstate outcome" where
  "add_rule env ops r s =
     (case r of None \<Rightarrow> Ok s
      | Some r \<Rightarrow>
          obind (upd_rule r (\<lambda>x. x\<lparr>is_active := False, linked := True\<rparr>) s) (\<lambda>s'.
            inc_variable_refs env ops r (s'\<lparr>rules := rules s' @ [r]\<rparr>)))"

definition delete_condition_from_listeners :: "addr \<Rightarrow> 'd xstate \<Rightarrow> 'd xstate outcome" where
  "delete_condition_from_listeners c s =
     obind (access (cond_heap s) c) (\<lambda>cond.
       let ev = ct_event (c_type cond) in
       if ev < length (events s)
       then Ok (s\<lparr>events := (events s)[ev := (events s ! ev)
              \<lparr>listeners := remove_first c (listeners (events s ! ev))\<rparr>]\<rparr>)
       else Crash Null_Deref)"

definition free_condition :: "addr \<Rightarrow> 'd xstate \<Rightarrow> 'd xstate outcome" where
  \<comment> \<open>the body of the loop over the conditions in \<open>delete_rule\<close>\<close>
  "free_condition c s =
     omap (\<lambda>s'. s'\<lparr>cond_heap := (cond_heap s')(c := None)\<rparr>) (delete_condition_from_listeners c s)"

definition delete_rule :: "'d env \<Rightarrow> 'd xstate parser_ops \<Rightarrow> addr \<Rightarrow> 'd xstate \<Rightarrow> 'd xstate outcome" where
  "delete_rule env ops r s =
     obind (access (rule_heap s) r) (\<lambda>rule.
       obind (if linked rule
              then dec_variable_refs env ops r (s\<lparr>rules := remove_first r (rules s)\<rparr>)
              else Ok s) (\<lambda>s'.
         omap (\<lambda>s''. s''\<lparr>rule_heap := (rule_heap s'')(r := None)\<rparr>)
           (ofold free_condition (conditions rule) s')))"

definition delete_rules :: "'d env \<Rightarrow> 'd xstate parser_ops \<Rightarrow> 'd xstate \<Rightarrow> 'd xstate outcome" where
  "delete_rules env ops s = ofold (delete_rule env ops) (rules s) s"

definition lookup_rule :: "string \<Rightarrow> 'd xstate \<Rightarrow> addr option outcome" where
  "lookup_rule i s =
     ofold (\<lambda>r found. if found \<noteq> None then Ok found
         else obind (access (rule_heap s) r) (\<lambda>rule. obind (deref (rule_id rule)) (\<lambda>j.
           Ok (if j = i then Some r else None))))
       (rules s) None"

definition get_rule_tail :: "'d xstate \<Rightarrow> addr option" where
  "get_rule_tail s = (if rules s = [] then None else Some (last (rules s)))"

subsection \<open>Validation\<close>

fun arg_letters ::
  "'d env \<Rightarrow> 'd xstate parser_ops \<Rightarrow> arg list \<Rightarrow> string option \<Rightarrow> 'd xstate \<Rightarrow>
   ((string + string option) \<times> 'd xstate) outcome" where
  \<comment> \<open>the loop that builds \<open>to_check\<close>; \<open>Inl\<close> is an undefined variable\<close>
  "arg_letters env ops [] acc s = Ok (Inr acc, s)"
| "arg_letters env ops (a # as) acc s =
     (case a of
        Arg_Var v \<Rightarrow>
          obind (resolve_var env ops v s) (\<lambda>(r, s').
            case r of
              None \<Rightarrow> Ok (Inl v, s')
            | Some x \<Rightarrow> arg_letters env ops as (str_append acc [arg_type_code (arg_type_of x), CHR '' '']) s')
      | _ \<Rightarrow> arg_letters env ops as (str_append acc [arg_type_code (arg_type_of a), CHR '' '']) s)"

definition first_char :: "string \<Rightarrow> char" where
  "first_char s = (case s of [] \<Rightarrow> CHR 0x00 | c # _ \<Rightarrow> c)"

definition print_str :: "string option \<Rightarrow> string" where
  \<comment> \<open>\<open>%s\<close> of a possibly null pointer\<close>
  "print_str p = (case p of None \<Rightarrow> ''(null)'' | Some t \<Rightarrow> t)"

definition proto_error :: "string \<Rightarrow> string \<Rightarrow> string \<Rightarrow> string option \<Rightarrow> string option" where
  "proto_error what prototype to_check err =
     str_append err (what @ '' args supplied; expected '' @ [CHR 0x22] @ print_str (long_prototype (Some prototype)) @
       [CHR 0x22] @ '', received '' @ [CHR 0x22] @ print_str (long_prototype (Some to_check)) @ [CHR 0x22])"

definition check_prototype ::
  "'d env \<Rightarrow> 'd xstate parser_ops \<Rightarrow> string \<Rightarrow> arg list \<Rightarrow> string option \<Rightarrow> 'd xstate \<Rightarrow>
   (bool \<times> string option \<times> 'd xstate) outcome" where
  "check_prototype env ops prototype args err s =
     obind (arg_letters env ops args None s) (\<lambda>(r, s').
       case r of
         Inl v \<Rightarrow> Ok (False, str_append err (''undefined variable: '' @ v), s')
       | Inr acc \<Rightarrow>
           let to_check = (case acc of None \<Rightarrow> ''n'' | Some t \<Rightarrow> butlast t)
           in if length prototype < length to_check \<or>
                 first_char prototype = CHR ''n'' \<and> first_char to_check \<noteq> CHR ''n''
              then Ok (False, proto_error ''too many'' prototype to_check err, s')
              else if length prototype > length to_check \<or>
                 first_char prototype \<noteq> CHR ''n'' \<and> first_char to_check = CHR ''n''
              then Ok (False, proto_error ''not enough'' prototype to_check err, s')
              else if prototype \<noteq> to_check
              then Ok (False, proto_error ''invalid'' prototype to_check err, s')
              else Ok (True, err, s'))"

definition check_condition ::
  "'d env \<Rightarrow> 'd xstate parser_ops \<Rightarrow> addr \<Rightarrow> string option \<Rightarrow> 'd xstate \<Rightarrow>
   (bool \<times> string option \<times> 'd xstate) outcome" where
  "check_condition env ops c err s =
     obind (access (cond_heap s) c) (\<lambda>cond.
       omap (\<lambda>(pass, err', s').
           (pass, if pass then err' else str_append err' ('' for condition '' @ ct_name (c_type cond)), s'))
         (check_prototype env ops (ct_prototype (c_type cond)) (c_args cond) err s))"

definition check_action ::
  "'d env \<Rightarrow> 'd xstate parser_ops \<Rightarrow> action \<Rightarrow> string option \<Rightarrow> 'd xstate \<Rightarrow>
   (bool \<times> string option \<times> 'd xstate) outcome" where
  "check_action env ops act err s =
     omap (\<lambda>(pass, err', s').
         (pass, if pass then err' else str_append err' ('' for action '' @ at_name (a_type act)), s'))
       (check_prototype env ops (at_prototype (a_type act)) (a_args act) err s)"

fun check_each ::
  "('a \<Rightarrow> string option \<Rightarrow> 's \<Rightarrow> (bool \<times> string option \<times> 's) outcome) \<Rightarrow> 'a list \<Rightarrow> string option \<Rightarrow> 's \<Rightarrow>
   (bool \<times> string option \<times> 's) outcome" where
  \<comment> \<open>a loop that returns at the first failing check\<close>
  "check_each f [] err s = Ok (True, err, s)"
| "check_each f (x # xs) err s =
     obind (f x err s) (\<lambda>(pass, err', s').
       if pass then check_each f xs err' s' else Ok (False, err', s'))"

definition validate_rule ::
  "'d env \<Rightarrow> 'd xstate parser_ops \<Rightarrow> addr \<Rightarrow> string option \<Rightarrow> 'd xstate \<Rightarrow>
   (nat \<times> string option \<times> 'd xstate) outcome" where
  "validate_rule env ops r err s =
     obind (access (rule_heap s) r) (\<lambda>rule.
       if rule_id rule = None \<or> rule_id rule = Some [] then Ok (NO_NAME, err, s)
       else obind (lookup_rule (the (rule_id rule)) s) (\<lambda>clash.
         if clash \<noteq> None then Ok (NAME_COLLISION, err, s)
         else if conditions rule = [] then Ok (NO_CONDITIONS, err, s)
         else if actions rule = [] \<and> undos rule = [] then Ok (NO_ACTIONS, err, s)
         else obind (check_each (check_condition env ops) (conditions rule) err s) (\<lambda>(ok1, err, s).
           if \<not> ok1 then Ok (BAD_PROTO, err, s)
           else obind (check_each (check_action env ops) (actions rule) err s) (\<lambda>(ok2, err, s).
             if \<not> ok2 then Ok (BAD_PROTO, err, s)
             else omap (\<lambda>(ok3, err, s). (if \<not> ok3 then BAD_PROTO else RULE_VALID, err, s))
               (check_each (check_action env ops) (undos rule) err s)))))"

subsection \<open>Printing and arguments\<close>

fun join_args :: "'d env \<Rightarrow> string \<Rightarrow> arg list \<Rightarrow> string" where
  "join_args env sep [] = []"
| "join_args env sep [a] = arg_to_string (show_ptr env) a"
| "join_args env sep (a # as) = arg_to_string (show_ptr env) a @ sep @ join_args env sep as"

definition action_string :: "'d env \<Rightarrow> action \<Rightarrow> string" where
  "action_string env act = at_name (a_type act) @ ''('' @ join_args env '' '' (a_args act) @ '') ''"

definition condition_string :: "'d env \<Rightarrow> condition \<Rightarrow> string" where
  "condition_string env c =
     (if is_inverted c then ''!'' else []) @ ct_name (c_type c) @ ''('' @ join_args env '' '' (c_args c) @ '') ''"

definition rule_to_string :: "'d env \<Rightarrow> addr \<Rightarrow> 'd xstate \<Rightarrow> string outcome" where
  "rule_to_string env r s =
     obind (access (rule_heap s) r) (\<lambda>rule.
       omap (\<lambda>out. butlast (out @ ''| '' @ concat (map (action_string env) (actions rule)) @
             (if undos rule = [] then [] else ''| '' @ concat (map (action_string env) (undos rule)))))
         (ofold (\<lambda>c out. omap (\<lambda>cond. out @ condition_string env cond) (access (cond_heap s) c))
            (conditions rule) (print_str (rule_id rule) @ '' | '')))"

definition list_member_arg :: "arg list \<Rightarrow> nat \<Rightarrow> arg outcome" where
  \<comment> \<open>\<open>get_list_member_at_index\<close> on the circular list: the head node has no argument\<close>
  "list_member_arg args i =
     (let k = Suc i mod Suc (length args)
      in if k = 0 then Crash Indeterminate_Value else Ok (args ! (k - 1)))"

definition resolve_arg ::
  "'d env \<Rightarrow> 'd xstate parser_ops \<Rightarrow> arg \<Rightarrow> 'd xstate \<Rightarrow> (arg option \<times> 'd xstate) outcome" where
  "resolve_arg env ops a s =
     (case a of Arg_Var v \<Rightarrow> resolve_var env ops v s | _ \<Rightarrow> Ok (Some a, s))"

definition get_arg ::
  "'d env \<Rightarrow> 'd xstate parser_ops \<Rightarrow> arg list \<Rightarrow> nat \<Rightarrow> 'd xstate \<Rightarrow> (arg option \<times> 'd xstate) outcome" where
  "get_arg env ops args i s = obind (list_member_arg args i) (\<lambda>a. resolve_arg env ops a s)"

subsection \<open>Evaluation\<close>

definition evaluate_rule :: "addr \<Rightarrow> 'd xstate \<Rightarrow> bool outcome" where
  "evaluate_rule r s =
     obind (access (rule_heap s) r) (\<lambda>rule.
       ofold (\<lambda>c pass. omap (\<lambda>cond. pass \<and> is_true cond) (access (cond_heap s) c)) (conditions rule) True)"

definition perform :: "action list \<Rightarrow> 'd xstate \<Rightarrow> 'd xstate" where
  \<comment> \<open>\<open>action->type->action(&action->args)\<close> for each action\<close>
  "perform acts s = s\<lparr>effects := effects s @ map (\<lambda>a. (at_action (a_type a), a_args a)) acts\<rparr>"

definition do_actions :: "'d env \<Rightarrow> addr \<Rightarrow> 'd xstate \<Rightarrow> 'd xstate outcome" where
  "do_actions env r s =
     obind (rule_to_string env r s) (\<lambda>_.
       omap (\<lambda>rule. perform (actions rule) s) (access (rule_heap s) r))"

definition do_undos :: "'d env \<Rightarrow> addr \<Rightarrow> 'd xstate \<Rightarrow> 'd xstate outcome" where
  "do_undos env r s =
     obind (rule_to_string env r s) (\<lambda>_.
       omap (\<lambda>rule. if undos rule = [] then s else perform (undos rule) s) (access (rule_heap s) r))"

end
