(* ===== verification/Parser_Safe.thy ===== *)
theory Parser_Safe
  imports Parser
begin

text \<open>
  Memory safety of the parser. The accumulators have 256 bytes and nothing checks them, so
  the parser is safe exactly because of the length of its input: when no string it loads
  has more than 255 characters, it returns, provided what it calls returns. What it calls
  is the locale \<open>parser_env\<close>: the three operations keep an invariant of the state and
  return in every state that satisfies it.
\<close>

definition short :: "string option \<Rightarrow> bool" where
  "short str \<longleftrightarrow> (case str of None \<Rightarrow> True | Some t \<Rightarrow> length t \<le> 255)"

definition named :: "parse_data \<Rightarrow> bool" where
  "named d \<longleftrightarrow> strings_left (parsing d) > 0 \<longrightarrow> rule_name d \<noteq> None"

definition fits :: "parse_data \<Rightarrow> bool" where
  "fits d \<longleftrightarrow> accum_sz d = 256 \<and> length (accum_name d) + length (parse_rest d) \<le> 255 \<and>
     length (accum_arg d) + length (parse_rest d) \<le> 255 \<and>
     short (actions_str d) \<and> short (undo_actions_str d) \<and> named d"

lemma fits_pstate [simp]: "fits (d\<lparr>pstate := st\<rparr>) = fits d"
  by (simp add: fits_def named_def)

lemma fits_parsing: "fits d \<Longrightarrow> strings_left k \<le> strings_left (parsing d) \<Longrightarrow> fits (d\<lparr>parsing := k\<rparr>)"
  by (auto simp: fits_def named_def)

lemma fits_load:
  "fits d \<Longrightarrow> short str \<Longrightarrow> fits (load_parse_string str d)"
  by (auto simp: fits_def named_def short_def load_parse_string_def split: option.splits)

lemma fits_adv:
  "fits d \<Longrightarrow> parse_rest d \<noteq> [] \<Longrightarrow>
   fits (adv_parse_ptr d) \<and> length (accum_name d) + length (parse_rest (adv_parse_ptr d)) \<le> 254 \<and>
   length (accum_arg d) + length (parse_rest (adv_parse_ptr d)) \<le> 254"
  by (cases "parse_rest d") (auto simp: fits_def named_def adv_parse_ptr_def)

lemma fits_adv_any: "fits d \<Longrightarrow> fits (adv_parse_ptr d)"
  by (auto simp: fits_def named_def adv_parse_ptr_def)

lemma fits_other [simp]:
  "fits (d\<lparr>cur_arg_type := t\<rparr>) = fits d" "fits (d\<lparr>undo := u\<rparr>) = fits d"
  "fits (d\<lparr>finished := b\<rparr>) = fits d"
  "fits (d\<lparr>error_code := e\<rparr>) = fits d" "fits (d\<lparr>parsed_arg := pa\<rparr>) = fits d"
  "fits (d\<lparr>pargs := ps\<rparr>) = fits d" "fits (d\<lparr>pconditions := fs\<rparr>) = fits d"
  "fits (d\<lparr>pactions := fs\<rparr>) = fits d" "fits (d\<lparr>pundo_actions := fs\<rparr>) = fits d"
  "fits (d\<lparr>message := m\<rparr>) = fits d" "fits (d\<lparr>rule_error_code := e\<rparr>) = fits d"
  "fits (d\<lparr>var_map := vm\<rparr>) = fits d"
  by (simp_all add: fits_def named_def)

lemma fits_reset [simp]:
  "fits d \<Longrightarrow> fits (push_arg a d)" "fits d \<Longrightarrow> fits (end_fn d)" "fits d \<Longrightarrow> fits (fail k m d)"
  by (auto simp: fits_def named_def push_arg_def end_fn_def fail_def perror_def)

lemma fits_accum_sizes: "fits d \<Longrightarrow> length (accum_arg d) < accum_sz d \<and> length (accum_name d) < accum_sz d"
  by (auto simp: fits_def)

definition steps_to :: "('s \<Rightarrow> bool) \<Rightarrow> (parse_data \<times> 's) outcome \<Rightarrow> bool" where
  "steps_to I m \<longleftrightarrow> (\<exists>d s. m = Ok (d, s) \<and> fits d \<and> I s)"

lemma steps_to_Ok [simp]: "steps_to I (Ok (d, s)) \<longleftrightarrow> fits d \<and> I s"
  by (simp add: steps_to_def)

lemma steps_to_obind:
  "steps_to I m \<Longrightarrow> (\<And>d s. fits d \<Longrightarrow> I s \<Longrightarrow> m = Ok (d, s) \<Longrightarrow> steps_to J (f (d, s))) \<Longrightarrow> steps_to J (obind m f)"
  by (auto simp: steps_to_def)

locale parser_env =
  fixes ops :: "'s parser_ops" and I :: "'s \<Rightarrow> bool"
  assumes lookup_returns: "I s \<Longrightarrow> length v \<le> 255 \<Longrightarrow> \<exists>b s'. op_lookup_var ops v s = Ok (b, s') \<and> I s'"
    and add_returns: "I s \<Longrightarrow> length v \<le> 255 \<Longrightarrow> \<exists>b m' s'. op_add_var ops v a m s = Ok (b, m', s') \<and> I s'"
    and apply_returns: "I s \<Longrightarrow> \<exists>e m' s'. op_apply_rule ops (Some n) C A U m s = Ok (e, m', s') \<and> I s'"
begin

lemma acceptArg_steps:
  assumes "fits d" and "I s"
  shows "steps_to I (action_acceptArg ops d s)"
proof -
  have sz: "length (accum_arg d) < accum_sz d" using assms(1) fits_accum_sizes by blast
  obtain b s' where "op_lookup_var ops (accum_arg d) s = Ok (b, s')" "I s'"
    using lookup_returns [OF assms(2), of "accum_arg d"] assms(1) by (auto simp: fits_def)
  with sz assms show ?thesis
    by (cases "cur_arg_type d") (auto simp: action_acceptArg_def)
qed

lemma var_map_entry_steps:
  assumes "fits d" and "I s"
  shows "steps_to I (accept_var_map_entry ops d s)"
proof -
  have len: "length (accum_name d) \<le> 255" using assms(1) by (simp add: fits_def)
  have "steps_to I (omap (\<lambda>(err, vm, msg, s').
               (end_fn (d\<lparr>error_code := of_bool err, var_map := vm, message := msg\<rparr>), s'))
               (add_to_var_map_as_arg ops (var_map d) (accum_name d) a (message d) s))" for a
    using add_returns [OF assms(2) len, of "conv_fn_arg a" "message d"] assms
    by (auto simp: add_to_var_map_as_arg_def add_to_var_map_code_def split: if_splits)
  with assms show ?thesis
    by (auto simp: accept_var_map_entry_def split: list.splits fn_arg.splits)
qed

lemma acceptFn_steps:
  assumes "fits d" and "I s"
  shows "steps_to I (action_acceptFn ops d s)"
  unfolding action_acceptFn_def
proof (rule steps_to_obind [OF acceptArg_steps [OF assms]])
  fix e t
  assume "fits e" and "I t"
  then show "steps_to I (case (e, t) of (d, s) \<Rightarrow>
       if accum_sz d \<le> length (accum_name d) then Crash Buffer_Overflow
       else if accum_name d = [] then Ok (d, s)
       else
         (case parsing d of
            TYPE_ARG \<Rightarrow> Ok (end_fn (d\<lparr>parsed_arg :=
              Some \<lparr>fn_name = accum_name d, fn_args = pargs d, fn_undo = False\<rparr>\<rparr>), s)
          | TYPE_CONDITION \<Rightarrow> Ok (end_fn (d\<lparr>pconditions := pconditions d @
              [\<lparr>fn_name = accum_name d, fn_args = pargs d, fn_undo = undo d\<rparr>]\<rparr>), s)
          | TYPE_ACTION \<Rightarrow> Ok (end_fn (d\<lparr>pactions := pactions d @
              [\<lparr>fn_name = accum_name d, fn_args = pargs d, fn_undo = undo d\<rparr>]\<rparr>), s)
          | TYPE_UNDO_ACTION \<Rightarrow> Ok (end_fn (d\<lparr>pundo_actions := pundo_actions d @
              [\<lparr>fn_name = accum_name d, fn_args = pargs d, fn_undo = False\<rparr>]\<rparr>), s)
          | TYPE_VAR_MAP \<Rightarrow> accept_var_map_entry ops d s
          | _ \<Rightarrow> Ok (fail FSM_ERROR ''invalid parsing mode'' d, s)))"
    using var_map_entry_steps [of e t] fits_accum_sizes [of e] by (auto split: parsed_type.split)
qed

lemma acceptFns_steps:
  assumes "fits d" and "I s"
  shows "steps_to I (action_acceptFns ops d s)"
proof -
  obtain e t where e: "action_acceptFn ops d s = Ok (e, t)" "fits e" "I t"
    using acceptFn_steps [OF assms] by (auto simp: steps_to_def)
  have strs: "short (actions_str e)" "short (undo_actions_str e)"
    using e(2) by (simp_all add: fits_def)
  have rule: "steps_to I (accept_rule ops e t)" if und: "parsing e = TYPE_UNDO_ACTION"
  proof -
    obtain n where n: "rule_name e = Some n" using e(2) und by (auto simp: fits_def named_def)
    have "fits (e\<lparr>parsing := TYPE_UNDETERMINED\<rparr>)" using e(2) by (intro fits_parsing) simp_all
    then have final: "fits (e\<lparr>message := m, error_code := x, rule_error_code := y, parsing := TYPE_UNDETERMINED,
        finished := True, pactions := [], pconditions := [], pundo_actions := []\<rparr>)" for m x y
      by (simp add: fits_def named_def)
    obtain k m u where "op_apply_rule ops (Some n) (pconditions e) (pactions e) (pundo_actions e) (message e) t =
        Ok (k, m, u)" "I u"
      using apply_returns [OF e(3)] by blast
    with n final show ?thesis by (simp add: accept_rule_def)
  qed
  have "fits (e\<lparr>parsing := TYPE_UNDETERMINED\<rparr>)" using e(2) by (intro fits_parsing) simp_all
  moreover have "parsing e = TYPE_CONDITION \<Longrightarrow> fits (e\<lparr>parsing := TYPE_ACTION\<rparr>)"
    "parsing e = TYPE_ACTION \<Longrightarrow> fits (e\<lparr>parsing := TYPE_UNDO_ACTION\<rparr>)"
    using e(2) by (auto intro: fits_parsing)
  ultimately show ?thesis
    using e strs rule by (cases "parsing e") (auto simp: action_acceptFns_def intro!: fits_load)
qed

text \<open>
  An action that stores the current character runs only when there is one, so the
  accumulators never hold more than what has been read.
\<close>

lemma run_action_steps:
  assumes "fits d" and "I s" and "take_transition (pstate d) (get_parse_char d) = Some t"
  shows "steps_to I (run_action ops (taction t) (get_parse_char d) (adv_parse_ptr d) s)"
proof (cases "parse_rest d = []")
  case True
  then have "get_parse_char d = CHR 0x00" by (simp add: get_parse_char_def)
  with assms(3) have "taction t = Some A_acceptFns \<or> taction t = None"
    by (cases "pstate d") (auto simp: take_transition_def build_parse_state_list_simps condition_defs)
  with fits_adv_any [OF assms(1)] assms(2) show ?thesis
    by (auto intro: acceptFns_steps)
next
  case False
  note room = fits_adv [OF assms(1) False]
  show ?thesis
  proof (cases "taction t")
    case None
    with room assms(2) show ?thesis by simp
  next
    case (Some a)
    with room assms(2) show ?thesis
      by (cases a)
        (auto simp: action_accumName_def action_accumArg_def action_invertFn_def action_beginAccumVar_def
          action_beginAccumInt_def action_beginAccumFloat_def action_beginAccumStr_def
          action_beginAccumTrue_def action_beginAccumFalse_def fits_def named_def
          intro: acceptArg_steps acceptFn_steps acceptFns_steps)
  qed
qed

lemma fsm_step_steps:
  assumes "fits d" and "I s" and "take_transition (pstate d) (get_parse_char d) = Some t"
  shows "steps_to I (fsm_step ops t d s)"
  using run_action_steps [OF assms] by (auto simp: fsm_step_def steps_to_def)

lemma parse_loop_returns:
  assumes "fits d" and "I s"
  shows "\<exists>ok d' s'. parse_loop ops d s = Ok (ok, d', s') \<and> I s'"
  using assms
proof (induction d arbitrary: s rule: wf_induct_rule [OF wf_parse_measure])
  case (1 d)
  show ?case
  proof (cases "take_transition (pstate d) (get_parse_char d)")
    case None
    have "(d\<lparr>pstate := S_start\<rparr>, d) \<in> parse_measure" if "pstate d = S_acceptRule"
      using that by (simp add: parse_measure_def)
    with 1 None show ?thesis
      by (subst parse_loop.simps) (auto simp: final_state_iff)
  next
    case (Some t)
    obtain d' s' where step: "fsm_step ops t d s = Ok (d', s')" "fits d'" "I s'"
      using fsm_step_steps [OF 1(2,3) Some] by (auto simp: steps_to_def)
    show ?thesis
    proof (cases "finished d \<or> finished d'")
      case True
      with Some step 1(3) show ?thesis by (subst parse_loop.simps) auto
    next
      case False
      with fsm_step_progress [OF Some step(1)] 1(1) step(2,3)
      have "\<exists>ok e u. parse_loop ops d' s' = Ok (ok, e, u) \<and> I u" by blast
      with False Some step show ?thesis by (subst parse_loop.simps) auto
    qed
  qed
qed

lemma parse_returns:
  assumes "short str" and "short (actions_str d)" and "short (undo_actions_str d)" and "named d" and "I s"
  shows "\<exists>ok d' s'. parse ops str d s = Ok (ok, d', s') \<and> I s'"
  unfolding parse_def
  by (rule parse_loop_returns)
    (use assms in \<open>auto simp: fits_def named_def short_def load_parse_string_def split: option.splits\<close>)

end

end
