(* ===== verification/Apply_Rule.thy ===== *)
theory Apply_Rule
  imports Rule_Engine Parser_Safe
begin

unbundle bit_operations_syntax

text \<open>
  From parsed functions to a loaded rule (\<open>apply_rule\<close> of \<open>parser.c\<close>), and the entry
  points of the parser. \<open>xops n\<close> connects the parser to the variable cache and the rule
  engine; \<open>n\<close> bounds the recursion of \<open>lookup_var\<close> through \<open>get_db_var\<close> and
  \<open>parse_arg\<close> back into \<open>lookup_var\<close>, which a stored variable that refers to another
  one causes. At depth 0 the stack is exhausted.
\<close>

type_synonym build = "nat \<times> string option" \<comment> \<open>\<open>recoverable_err\<close> and \<open>*err\<close>\<close>

definition omit_fn :: "nat \<Rightarrow> string \<Rightarrow> string \<Rightarrow> build \<Rightarrow> build" where
  "omit_fn code kind name b =
     (fst b OR code, str_append (snd b) (''recoverable error: no '' @ kind @ '' type named '' @ name @ ''.'' @ [CHR 0x0A]))"

definition load_condition :: "addr \<Rightarrow> fn \<Rightarrow> build \<times> 'd xstate \<Rightarrow> (build \<times> 'd xstate) outcome" where
  \<comment> \<open>the first loop of \<open>apply_rule\<close>\<close>
  "load_condition r f = (\<lambda>(b, s).
     obind (new_condition_from_string (fn_name f) s) (\<lambda>(c, s).
       case c of
         None \<Rightarrow> Ok (omit_fn BAD_CONDITION ''condition'' (fn_name f) b, s)
       | Some c \<Rightarrow>
           obind (if fn_undo f = False then invert_condition c s else Ok s) (\<lambda>s.
             obind (ofold (\<lambda>a. add_condition_arg (Some c) (conv_fn_arg a)) (fn_args f) s) (\<lambda>s.
               omap (\<lambda>s. (b, s)) (add_condition_to_rule (Some r) (Some c) s)))))"

definition load_action ::
  "(addr option \<Rightarrow> action option \<Rightarrow> 'd xstate \<Rightarrow> 'd xstate outcome) \<Rightarrow> nat \<Rightarrow> addr \<Rightarrow> fn \<Rightarrow>
   build \<times> 'd xstate \<Rightarrow> (build \<times> 'd xstate) outcome" where
  \<comment> \<open>the second and third loop, which differ in where the action goes\<close>
  "load_action add code r f = (\<lambda>(b, s).
     (case new_action_from_string (fn_name f) s of
        None \<Rightarrow> Ok (omit_fn code ''action'' (fn_name f) b, s)
      | Some act \<Rightarrow>
          omap (\<lambda>s. (b, s))
            (add (Some r) (fold (\<lambda>a. add_action_arg (conv_fn_arg a)) (fn_args f) (Some act)) s)))"

definition build_rule ::
  "addr \<Rightarrow> fn list \<Rightarrow> fn list \<Rightarrow> fn list \<Rightarrow> build \<times> 'd xstate \<Rightarrow> (build \<times> 'd xstate) outcome" where
  "build_rule r C A U bs =
     obind (ofold (load_condition r) C bs) (\<lambda>bs.
       obind (ofold (load_action add_action_to_rule BAD_ACTION r) A bs)
         (ofold (load_action add_undo_to_rule BAD_UNDO r) U))"

definition apply_rule ::
  "'d env \<Rightarrow> 'd xstate parser_ops \<Rightarrow> string option \<Rightarrow> fn list \<Rightarrow> fn list \<Rightarrow> fn list \<Rightarrow> string option \<Rightarrow>
   'd xstate \<Rightarrow> (nat \<times> string option \<times> 'd xstate) outcome" where
  "apply_rule env ops name C A U err s =
     obind (deref name) (\<lambda>nm.
       let (r, s) = new_rule (Some nm) s in
       obind (build_rule r C A U ((0, err), s)) (\<lambda>((recoverable_err, err), s).
         obind (validate_rule env ops r err s) (\<lambda>(rule_err, err, s).
           if rule_err = RULE_VALID
           then omap (\<lambda>s. ((if recoverable_err \<noteq> 0 then RECOVERABLE_ERROR else NO_PARSE_ERROR) OR
                            recoverable_err OR rule_err, err, s))
                  (add_rule env ops (Some r) s)
           else omap (\<lambda>s. (NO_PARSE_ERROR OR recoverable_err OR rule_err, err, s)) (delete_rule env ops r s))))"

primrec xops :: "'d env \<Rightarrow> int \<Rightarrow> f32 \<Rightarrow> nat \<Rightarrow> 'd xstate parser_ops" where
  "xops env il fl 0 =
     \<lparr>op_lookup_var = (\<lambda>_ _. Crash Stack_Overflow), op_add_var = (\<lambda>_ _ _ _. Crash Stack_Overflow),
      op_apply_rule = (\<lambda>_ _ _ _ _ _. Crash Stack_Overflow), indet_long = il, indet_float = fl\<rparr>"
| "xops env il fl (Suc n) =
     \<lparr>op_lookup_var = (\<lambda>v s. omap (\<lambda>(r, s'). (r \<noteq> None, s')) (lookup_var env (xops env il fl n) v s)),
      op_add_var = (\<lambda>v a m s. omap (\<lambda>(r, m', s'). (r \<noteq> None, m', s')) (add_var env (xops env il fl n) v a m s)),
      op_apply_rule = apply_rule env (xops env il fl n),
      indet_long = il, indet_float = fl\<rparr>"

subsection \<open>Entry points\<close>

definition parse_var_persistent ::
  "'s parser_ops \<Rightarrow> string \<Rightarrow> parse_data \<Rightarrow> 's \<Rightarrow> (bool \<times> parse_data \<times> 's) outcome" where
  "parse_var_persistent ops var_string d =
     parse ops (Some var_string) (init_parse_data None (Some var_string) None None None TYPE_VAR_MAP d)"

definition parse_rule_persistent ::
  "'s parser_ops \<Rightarrow> string \<Rightarrow> string option \<Rightarrow> string option \<Rightarrow> string option \<Rightarrow> parse_data \<Rightarrow> 's \<Rightarrow>
   (bool \<times> parse_data \<times> 's) outcome" where
  "parse_rule_persistent ops name C A U d =
     parse ops C (init_parse_data (Some name) None C A U TYPE_RULE d)"

definition parse_var ::
  "'s parser_ops \<Rightarrow> string \<Rightarrow> string option \<Rightarrow> 's \<Rightarrow> (bool \<times> string option \<times> 's) outcome" where
  "parse_var ops var_string err s =
     obind (parse_var_persistent ops var_string blank_parse_data s) (\<lambda>(ok, d, s').
       if ok then Ok (True, err, s')
       else omap (\<lambda>e. (False, str_append err (''couldn't parse variable '' @ var_string @ '': '' @ e), s'))
              (extract_parse_error d))"

end
