(* ===== verification/Engine_Inv.thy ===== *)
theory Engine_Inv
  imports Rule_Engine
begin

text \<open>
  The invariant of the rule engine and the operations that keep it. Conditions are shared
  between a rule and the listener list of an event; \<open>wf_engine\<close> says that the two agree:
  every listener is a live condition of the event its type names, every live condition
  listens exactly there and belongs to the rule its \<open>rule\<close> member points at, and the
  linked rules are exactly those on the rule list. Under it no operation of the engine uses
  a freed object.
\<close>

subsection \<open>The invariant\<close>

definition heap_bounded :: "'d xstate \<Rightarrow> bool" where
  "heap_bounded s \<longleftrightarrow> (\<forall>a. a \<ge> next_addr s \<longrightarrow> cond_heap s a = None \<and> rule_heap s a = None)"

definition listeners_ok :: "'d xstate \<Rightarrow> bool" where
  "listeners_ok s \<longleftrightarrow>
     (\<forall>i < length (events s). distinct (listeners (events s ! i)) \<and>
        (\<forall>c \<in> set (listeners (events s ! i)).
           \<exists>cond. cond_heap s c = Some cond \<and> ct_event (c_type cond) = i))"

definition conds_ok :: "'d xstate \<Rightarrow> bool" where
  "conds_ok s \<longleftrightarrow>
     (\<forall>c cond. cond_heap s c = Some cond \<longrightarrow>
        ct_event (c_type cond) < length (events s) \<and>
        c \<in> set (listeners (events s ! ct_event (c_type cond))) \<and>
        (\<exists>r rule. c_rule cond = Some r \<and> rule_heap s r = Some rule \<and> c \<in> set (conditions rule)))"

definition rule_ok :: "'d xstate \<Rightarrow> addr \<Rightarrow> rule \<Rightarrow> bool" where
  "rule_ok s r rule \<longleftrightarrow> rule_id rule \<noteq> None \<and> distinct (conditions rule) \<and>
     (\<forall>c \<in> set (conditions rule). \<exists>cond. cond_heap s c = Some cond \<and> c_rule cond = Some r) \<and>
     (linked rule \<longleftrightarrow> r \<in> set (rules s))"

definition rules_ok :: "'d xstate \<Rightarrow> bool" where
  "rules_ok s \<longleftrightarrow> distinct (rules s) \<and> (\<forall>r \<in> set (rules s). rule_heap s r \<noteq> None) \<and>
     (\<forall>r rule. rule_heap s r = Some rule \<longrightarrow> rule_ok s r rule)"

definition types_ok :: "'d xstate \<Rightarrow> bool" where
  "types_ok s \<longleftrightarrow> (\<forall>t \<in> set (condition_types s). ct_event t < length (events s))"

definition wf_engine :: "'d xstate \<Rightarrow> bool" where
  "wf_engine s \<longleftrightarrow> heap_bounded s \<and> listeners_ok s \<and> conds_ok s \<and> rules_ok s \<and> types_ok s"

text \<open>Between operations of the policy interface no rule is half built.\<close>

definition complete :: "'d xstate \<Rightarrow> bool" where
  "complete s \<longleftrightarrow> (\<forall>r rule. rule_heap s r = Some rule \<longrightarrow> linked rule)"

lemmas wf_parts = wf_engine_def heap_bounded_def listeners_ok_def conds_ok_def rules_ok_def rule_ok_def types_ok_def

lemma wf_fresh: "wf_engine s \<Longrightarrow> cond_heap s (next_addr s) = None \<and> rule_heap s (next_addr s) = None"
  by (simp add: wf_engine_def heap_bounded_def)

lemma wf_rule_in_list: "wf_engine s \<Longrightarrow> r \<in> set (rules s) \<Longrightarrow> \<exists>rule. rule_heap s r = Some rule \<and> rule_ok s r rule"
  by (auto simp: wf_engine_def rules_ok_def)

lemma wf_conditions_live:
  "wf_engine s \<Longrightarrow> rule_heap s r = Some rule \<Longrightarrow> c \<in> set (conditions rule) \<Longrightarrow>
   \<exists>cond. cond_heap s c = Some cond \<and> c_rule cond = Some r"
  by (auto simp: wf_engine_def rules_ok_def rule_ok_def)

lemma wf_listener:
  "wf_engine s \<Longrightarrow> i < length (events s) \<Longrightarrow> c \<in> set (listeners (events s ! i)) \<Longrightarrow>
   \<exists>cond r rule. cond_heap s c = Some cond \<and> ct_event (c_type cond) = i \<and> c_rule cond = Some r \<and>
     rule_heap s r = Some rule \<and> c \<in> set (conditions rule)"
  by (fastforce simp: wf_engine_def listeners_ok_def conds_ok_def)

lemma wf_condition:
  assumes "wf_engine s" and "cond_heap s c = Some cond"
  obtains r rule where "ct_event (c_type cond) < length (events s)"
    "c \<in> set (listeners (events s ! ct_event (c_type cond)))"
    "c_rule cond = Some r" "rule_heap s r = Some rule" "c \<in> set (conditions rule)"
  using assms unfolding wf_engine_def conds_ok_def by blast

text \<open>Parts of the state the invariant does not read.\<close>

lemma wf_frame [simp]:
  "wf_engine (s\<lparr>db_vars := v\<rparr>) = wf_engine s" "wf_engine (s\<lparr>effects := e\<rparr>) = wf_engine s"
  "wf_engine (s\<lparr>database := d\<rparr>) = wf_engine s"
  "complete (s\<lparr>db_vars := v\<rparr>) = complete s" "complete (s\<lparr>effects := e\<rparr>) = complete s"
  "complete (s\<lparr>database := d\<rparr>) = complete s"
  by (simp_all add: wf_parts complete_def)

lemma bump_ref_frame [simp]:
  "events (bump_ref n k s) = events s" "rules (bump_ref n k s) = rules s"
  "cond_heap (bump_ref n k s) = cond_heap s" "rule_heap (bump_ref n k s) = rule_heap s"
  "next_addr (bump_ref n k s) = next_addr s" "condition_types (bump_ref n k s) = condition_types s"
  "action_types (bump_ref n k s) = action_types s" "effects (bump_ref n k s) = effects s"
  "database (bump_ref n k s) = database s"
  by (simp_all add: bump_ref_def)

definition bump_all :: "int \<Rightarrow> string list \<Rightarrow> 'd xstate \<Rightarrow> 'd xstate" where
  "bump_all k ns s = fold (\<lambda>n. bump_ref n k) ns s"

lemma bump_all_simps [simp]:
  "bump_all k [] s = s" "bump_all k (n # ns) s = bump_all k ns (bump_ref n k s)"
  "bump_all k (ms @ ns) s = bump_all k ns (bump_all k ms s)"
  by (simp_all add: bump_all_def)

lemma names_bump_all: "map dv_name (db_vars (bump_all k ns s)) = map dv_name (db_vars s)"
  by (induction ns arbitrary: s) (simp_all add: bump_ref_def update_first_names)

lemma bump_all_db_vars: "\<exists>vs. bump_all k ns s = s\<lparr>db_vars := vs\<rparr>"
proof (induction ns arbitrary: s)
  case Nil
  have "bump_all k [] s = s\<lparr>db_vars := db_vars s\<rparr>" by simp
  then show ?case by blast
next
  case (Cons n ns)
  from Cons [of "bump_ref n k s"] show ?case by (auto simp: bump_ref_def)
qed

lemma bump_all_rules: "bump_all k ns (s\<lparr>rules := l\<rparr>) = (bump_all k ns s)\<lparr>rules := l\<rparr>"
proof (induction ns arbitrary: s)
  case (Cons n ns)
  have "bump_ref n k (s\<lparr>rules := l\<rparr>) = (bump_ref n k s)\<lparr>rules := l\<rparr>" by (simp add: bump_ref_def)
  with Cons show ?case by simp
qed simp

lemma bump_all_frame [simp]:
  "events (bump_all k ns s) = events s" "rules (bump_all k ns s) = rules s"
  "cond_heap (bump_all k ns s) = cond_heap s" "rule_heap (bump_all k ns s) = rule_heap s"
  "next_addr (bump_all k ns s) = next_addr s" "condition_types (bump_all k ns s) = condition_types s"
  "action_types (bump_all k ns s) = action_types s" "effects (bump_all k ns s) = effects s"
  "database (bump_all k ns s) = database s"
  using bump_all_db_vars [of k ns s] by auto

lemma wf_bump_all [simp]: "wf_engine (bump_all k ns s) = wf_engine s" "complete (bump_all k ns s) = complete s"
  using bump_all_db_vars [of k ns s] by auto

subsection \<open>Reference counts\<close>

fun arg_vars :: "arg list \<Rightarrow> string list" where
  "arg_vars [] = []"
| "arg_vars (Arg_Var v # as) = v # arg_vars as"
| "arg_vars (_ # as) = arg_vars as"

definition cond_vars :: "'d xstate \<Rightarrow> addr \<Rightarrow> string list" where
  "cond_vars s c = (case cond_heap s c of None \<Rightarrow> [] | Some cond \<Rightarrow> arg_vars (c_args cond))"

definition rule_vars :: "'d xstate \<Rightarrow> rule \<Rightarrow> string list" where
  "rule_vars s rule = concat (map (cond_vars s) (conditions rule)) @
     concat (map (\<lambda>a. arg_vars (a_args a)) (actions rule)) @
     concat (map (\<lambda>a. arg_vars (a_args a)) (undos rule))"

lemma rule_vars_cong: "cond_heap t = cond_heap s \<Longrightarrow> rule_vars t rule = rule_vars s rule"
  by (simp add: rule_vars_def cond_vars_def [abs_def])

definition all_cached :: "string list \<Rightarrow> 'd xstate \<Rightarrow> bool" where
  "all_cached ns s \<longleftrightarrow> (\<forall>n \<in> set ns. is_cached n s)"

lemma all_cached_simps [simp]:
  "all_cached [] s" "all_cached (n # ns) s \<longleftrightarrow> is_cached n s \<and> all_cached ns s"
  "all_cached (ms @ ns) s \<longleftrightarrow> all_cached ms s \<and> all_cached ns s"
  "all_cached ns (bump_ref n k s) \<longleftrightarrow> all_cached ns s"
  "all_cached ns (bump_all k ms s) \<longleftrightarrow> all_cached ns s"
  by (auto simp: all_cached_def vc.has_bump vc.has_fold bump_all_def)

lemma is_cached_frame [simp]:
  "is_cached n (s\<lparr>rules := l\<rparr>) = is_cached n s" "is_cached n (s\<lparr>rule_heap := h\<rparr>) = is_cached n s"
  "is_cached n (s\<lparr>cond_heap := g\<rparr>) = is_cached n s" "is_cached n (s\<lparr>events := e\<rparr>) = is_cached n s"
  "is_cached n (s\<lparr>next_addr := a\<rparr>) = is_cached n s"
  by (simp_all add: is_cached_def)

lemma ref_args_run:
  "all_cached (arg_vars as) s \<Longrightarrow> ofold (ref_arg env ops k) as s = Ok (bump_all k (arg_vars as) s)"
proof (induction as arbitrary: s rule: arg_vars.induct)
  case (2 v as)
  then show ?case by (auto simp: ref_arg_def is_cached_def)
qed (simp_all add: ref_arg_def)

lemma ref_actions_run:
  "all_cached (concat (map (\<lambda>a. arg_vars (a_args a)) acts)) s \<Longrightarrow>
   ofold (\<lambda>act. ofold (ref_arg env ops k) (a_args act)) acts s =
     Ok (bump_all k (concat (map (\<lambda>a. arg_vars (a_args a)) acts)) s)"
  by (induction acts arbitrary: s) (simp_all add: ref_args_run)

lemma ref_conditions_run:
  assumes "\<forall>c \<in> set cs. cond_heap s c \<noteq> None" and "all_cached (concat (map (cond_vars s) cs)) s"
  shows "ofold (\<lambda>c s. obind (access (cond_heap s) c) (\<lambda>cond. ofold (ref_arg env ops k) (c_args cond) s)) cs s =
     Ok (bump_all k (concat (map (cond_vars s) cs)) s)"
  using assms
proof (induction cs arbitrary: s)
  case (Cons c cs)
  then obtain cond where c: "cond_heap s c = Some cond" by auto
  have vars: "cond_vars (bump_all k ns s) = cond_vars s" for ns
    by (rule ext) (simp add: cond_vars_def)
  from Cons.prems c show ?case
    using Cons.IH [of "bump_all k (arg_vars (c_args cond)) s"]
    by (simp add: vars) (simp add: cond_vars_def ref_args_run)
qed simp

lemma change_refs_run:
  assumes "rule_heap s r = Some rule" and "\<forall>c \<in> set (conditions rule). cond_heap s c \<noteq> None"
    and "all_cached (rule_vars s rule) s"
  shows "change_variable_refs env ops k r s = Ok (bump_all k (rule_vars s rule) s)"
  using assms
  by (simp add: change_variable_refs_def ref_conditions_run ref_actions_run rule_vars_def)

lemma ref_of_bump_all:
  "all_cached ns s \<Longrightarrow> ref_of m (bump_all k ns s) = ref_of m s + k * int (count_list ns m)"
  by (simp add: bump_all_def all_cached_def vc.count_fold)


text \<open>The reference count of a variable is the number of its uses in loaded rules.\<close>

definition uses :: "'d xstate \<Rightarrow> string \<Rightarrow> addr \<Rightarrow> nat" where
  "uses s n r = (case rule_heap s r of None \<Rightarrow> 0 | Some rule \<Rightarrow> count_list (rule_vars s rule) n)"

definition refs_ok :: "'d xstate \<Rightarrow> bool" where
  "refs_ok s \<longleftrightarrow>
     (\<forall>n. ref_of n s = int (sum_list (map (uses s n) (rules s)))) \<and>
     (\<forall>r \<in> set (rules s). \<forall>rule. rule_heap s r = Some rule \<longrightarrow> all_cached (rule_vars s rule) s)"

subsection \<open>Freeing conditions\<close>

definition unlisten :: "addr set \<Rightarrow> ev_wrapper \<Rightarrow> ev_wrapper" where
  "unlisten C e = e\<lparr>listeners := filter (\<lambda>c. c \<notin> C) (listeners e)\<rparr>"

lemma unlisten_simps [simp]:
  "unlisten {} e = e" "unlisten A (unlisten B e) = unlisten (A \<union> B) e"
  "listeners (unlisten C e) = filter (\<lambda>c. c \<notin> C) (listeners e)"
  by (simp_all add: unlisten_def conj_commute)

definition without_conditions :: "addr set \<Rightarrow> 'd xstate \<Rightarrow> 'd xstate" where
  "without_conditions C s =
     s\<lparr>events := map (unlisten C) (events s), cond_heap := (cond_heap s) |` (- C)\<rparr>"

lemma restrict_all: "m |` UNIV = m"
  by (simp add: restrict_map_def)

lemma unlisten_none: "unlisten {} = (\<lambda>e. e)"
  by (rule ext) simp

lemma without_simps [simp]:
  "without_conditions {} s = s"
  "without_conditions A (without_conditions B s) = without_conditions (A \<union> B) s"
  by (simp_all add: without_conditions_def unlisten_none restrict_all comp_def Int_commute)

lemma without_frame [simp]:
  "rules (without_conditions C s) = rules s" "rule_heap (without_conditions C s) = rule_heap s"
  "next_addr (without_conditions C s) = next_addr s" "db_vars (without_conditions C s) = db_vars s"
  "condition_types (without_conditions C s) = condition_types s"
  "action_types (without_conditions C s) = action_types s"
  "effects (without_conditions C s) = effects s" "database (without_conditions C s) = database s"
  "length (events (without_conditions C s)) = length (events s)"
  by (simp_all add: without_conditions_def)

lemma listeners_ok_without: "listeners_ok s \<Longrightarrow> listeners_ok (without_conditions C s)"
  by (auto simp: listeners_ok_def without_conditions_def)

lemma free_condition_run:
  assumes "listeners_ok s" and "cond_heap s c = Some cond" and "ct_event (c_type cond) < length (events s)"
  shows "free_condition c s = Ok (without_conditions {c} s)"
proof -
  let ?i = "ct_event (c_type cond)"
  have "(events s)[?i := (events s ! ?i)\<lparr>listeners := remove_first c (listeners (events s ! ?i))\<rparr>] =
    map (unlisten {c}) (events s)"
  proof (rule nth_equalityI)
    fix j
    assume "j < length ((events s)[?i := (events s ! ?i)\<lparr>listeners := remove_first c (listeners (events s ! ?i))\<rparr>])"
    then have j: "j < length (events s)" by simp
    show "(events s)[?i := (events s ! ?i)\<lparr>listeners := remove_first c (listeners (events s ! ?i))\<rparr>] ! j =
      map (unlisten {c}) (events s) ! j"
    proof (cases "j = ?i")
      case True
      have "distinct (listeners (events s ! ?i))" using assms by (simp add: listeners_ok_def)
      then show ?thesis
        using True assms(3)
        by (simp add: unlisten_def remove_first_remove1 distinct_remove1_removeAll removeAll_filter_not_eq
            eq_commute [of c])
    next
      case False
      with j assms(1,2) have "c \<notin> set (listeners (events s ! j))"
        by (fastforce simp: listeners_ok_def)
      then have "filter (\<lambda>x. x \<noteq> c) (listeners (events s ! j)) = listeners (events s ! j)"
        by (auto simp: filter_id_conv)
      with False j show ?thesis by (simp add: unlisten_def)
    qed
  qed simp
  moreover have "(cond_heap s)(c := None) = cond_heap s |` (- {c})"
    by (simp add: restrict_complement_singleton_eq)
  ultimately show ?thesis
    using assms(2,3)
    by (simp add: free_condition_def delete_condition_from_listeners_def without_conditions_def Let_def)
qed

lemma free_conditions_run:
  assumes "listeners_ok s" and "distinct cs"
    and "\<forall>c \<in> set cs. \<exists>cond. cond_heap s c = Some cond \<and> ct_event (c_type cond) < length (events s)"
  shows "ofold free_condition cs s = Ok (without_conditions (set cs) s)"
  using assms
proof (induction cs arbitrary: s)
  case (Cons c cs)
  then obtain cond where "cond_heap s c = Some cond" "ct_event (c_type cond) < length (events s)" by auto
  then have "free_condition c s = Ok (without_conditions {c} s)"
    using Cons.prems(1) by (intro free_condition_run)
  moreover have "ofold free_condition cs (without_conditions {c} s) =
      Ok (without_conditions (set cs) (without_conditions {c} s))"
  proof (rule Cons.IH)
    show "\<forall>d \<in> set cs. \<exists>cond. cond_heap (without_conditions {c} s) d = Some cond \<and>
        ct_event (c_type cond) < length (events (without_conditions {c} s))"
      using Cons.prems(2,3) by (auto simp: without_conditions_def restrict_map_def)
  qed (use Cons.prems listeners_ok_without in auto)
  ultimately show ?case by (simp add: Un_commute)
qed simp


subsection \<open>Deleting a rule\<close>

definition drop_rule :: "addr \<Rightarrow> rule \<Rightarrow> 'd xstate \<Rightarrow> 'd xstate" where
  "drop_rule r rule s =
     (without_conditions (set (conditions rule)) (s\<lparr>rules := remove_first r (rules s)\<rparr>))
       \<lparr>rule_heap := (rule_heap s)(r := None)\<rparr>"

lemma drop_rule_frame [simp]:
  "rules (drop_rule r rule s) = remove1 r (rules s)" "rule_heap (drop_rule r rule s) = (rule_heap s)(r := None)"
  "next_addr (drop_rule r rule s) = next_addr s" "db_vars (drop_rule r rule s) = db_vars s"
  "condition_types (drop_rule r rule s) = condition_types s"
  "action_types (drop_rule r rule s) = action_types s"
  "effects (drop_rule r rule s) = effects s" "database (drop_rule r rule s) = database s"
  "events (drop_rule r rule s) = map (unlisten (set (conditions rule))) (events s)"
  "cond_heap (drop_rule r rule s) = cond_heap s |` (- set (conditions rule))"
  by (simp_all add: drop_rule_def without_conditions_def remove_first_remove1)

lemma conditions_disjoint:
  assumes "wf_engine s" and "rule_heap s r = Some rule" and "rule_heap s r' = Some rule'" and "r \<noteq> r'"
  shows "set (conditions rule) \<inter> set (conditions rule') = {}"
  using wf_conditions_live [OF assms(1,2)] wf_conditions_live [OF assms(1,3)] assms(4) by fastforce

lemma wf_drop_rule:
  assumes wf: "wf_engine s" and r: "rule_heap s r = Some rule"
  shows "wf_engine (drop_rule r rule s)"
proof -
  have "heap_bounded (drop_rule r rule s)"
    using wf by (auto simp: wf_engine_def heap_bounded_def restrict_map_def)
  moreover have "listeners_ok (drop_rule r rule s)"
    using wf by (auto simp: wf_engine_def listeners_ok_def restrict_map_def)
  moreover have "types_ok (drop_rule r rule s)"
    using wf by (auto simp: wf_engine_def types_ok_def)
  moreover have "conds_ok (drop_rule r rule s)"
    unfolding conds_ok_def
  proof (intro allI impI)
    fix c cond
    assume "cond_heap (drop_rule r rule s) c = Some cond"
    then have c: "cond_heap s c = Some cond" "c \<notin> set (conditions rule)"
      by (auto simp: restrict_map_def split: if_splits)
    then obtain r' rule' where "ct_event (c_type cond) < length (events s)"
        "c \<in> set (listeners (events s ! ct_event (c_type cond)))"
        "c_rule cond = Some r'" "rule_heap s r' = Some rule'" "c \<in> set (conditions rule')"
      by (blast intro: wf_condition [OF wf])
    with c r show "ct_event (c_type cond) < length (events (drop_rule r rule s)) \<and>
        c \<in> set (listeners (events (drop_rule r rule s) ! ct_event (c_type cond))) \<and>
        (\<exists>r' rule'. c_rule cond = Some r' \<and> rule_heap (drop_rule r rule s) r' = Some rule' \<and>
           c \<in> set (conditions rule'))"
      by (auto simp: fun_upd_def)
  qed
  moreover have "rules_ok (drop_rule r rule s)"
    unfolding rules_ok_def
  proof (intro conjI allI impI)
    have d: "distinct (rules s)" using wf by (simp add: wf_engine_def rules_ok_def)
    then show "distinct (rules (drop_rule r rule s))" by simp
    show "\<forall>q \<in> set (rules (drop_rule r rule s)). rule_heap (drop_rule r rule s) q \<noteq> None"
      using wf d by (auto simp: wf_engine_def rules_ok_def)
    fix q rule'
    assume "rule_heap (drop_rule r rule s) q = Some rule'"
    then have q: "rule_heap s q = Some rule'" "q \<noteq> r" by (auto split: if_splits)
    then have "rule_ok s q rule'" using wf by (simp add: wf_engine_def rules_ok_def)
    with q d conditions_disjoint [OF wf r q(1)] show "rule_ok (drop_rule r rule s) q rule'"
      by (auto simp: rule_ok_def restrict_map_def)
  qed
  ultimately show ?thesis by (simp add: wf_engine_def)
qed

lemma delete_rule_run:
  assumes wf: "wf_engine s" and r: "rule_heap s r = Some rule"
    and cached: "linked rule \<longrightarrow> all_cached (rule_vars s rule) s"
  shows "delete_rule env ops r s =
    Ok (drop_rule r rule (if linked rule then bump_all (- 1) (rule_vars s rule) s else s))"
proof -
  have free: "ofold free_condition (conditions rule) t = Ok (without_conditions (set (conditions rule)) t)"
    if "events t = events s" "cond_heap t = cond_heap s" for t :: "'a xstate"
  proof (rule free_conditions_run)
    show "listeners_ok t" using wf that by (simp add: wf_engine_def listeners_ok_def)
    show "distinct (conditions rule)" using wf r by (auto simp: wf_engine_def rules_ok_def rule_ok_def)
    show "\<forall>c \<in> set (conditions rule). \<exists>cond. cond_heap t c = Some cond \<and> ct_event (c_type cond) < length (events t)"
    proof
      fix c
      assume "c \<in> set (conditions rule)"
      then obtain cond where "cond_heap s c = Some cond"
        using wf_conditions_live [OF wf r] by blast
      with wf that show "\<exists>cond. cond_heap t c = Some cond \<and> ct_event (c_type cond) < length (events t)"
        by (auto simp: wf_engine_def conds_ok_def)
    qed
  qed
  show ?thesis
  proof (cases "linked rule")
    case True
    let ?s = "s\<lparr>rules := remove_first r (rules s)\<rparr>"
    have vars: "rule_vars ?s rule = rule_vars s rule"
      by (rule rule_vars_cong) simp
    moreover have "change_variable_refs env ops (- 1) r ?s = Ok (bump_all (- 1) (rule_vars ?s rule) ?s)"
    proof (rule change_refs_run)
      show "\<forall>c \<in> set (conditions rule). cond_heap ?s c \<noteq> None"
        using wf_conditions_live [OF wf r] by fastforce
      show "all_cached (rule_vars ?s rule) ?s"
        using cached True by (simp add: vars all_cached_def)
    qed (simp add: r)
    ultimately show ?thesis
      using True r
      by (simp add: delete_rule_def dec_variable_refs_def vars free drop_rule_def bump_all_rules)
  next
    case False
    with wf r have "r \<notin> set (rules s)" by (auto simp: wf_engine_def rules_ok_def rule_ok_def)
    then have "s\<lparr>rules := remove1 r (rules s)\<rparr> = s" by (simp add: remove1_idem)
    with False r show ?thesis
      by (simp add: delete_rule_def free drop_rule_def remove_first_remove1)
  qed
qed


lemma is_cached_db_vars: "db_vars t = db_vars s \<Longrightarrow> is_cached n t = is_cached n s"
  by (simp add: is_cached_def cached_var_def)

lemma ref_of_db_vars: "db_vars t = db_vars s \<Longrightarrow> ref_of n t = ref_of n s"
  by (simp add: ref_of_def cached_var_def)

lemma refs_ok_cong:
  assumes "cond_heap t = cond_heap s" "rule_heap t = rule_heap s" "rules t = rules s" "db_vars t = db_vars s"
  shows "refs_ok t = refs_ok s"
proof -
  have "uses t = uses s"
    by (intro ext) (simp add: uses_def assms rule_vars_cong [OF assms(1)] split: option.splits)
  then show ?thesis
    by (simp add: refs_ok_def assms ref_of_db_vars [OF assms(4)] rule_vars_cong [OF assms(1)]
        all_cached_def is_cached_db_vars [OF assms(4)])
qed

lemma rule_vars_drop:
  assumes "wf_engine s" and "rule_heap s r = Some rule" and "rule_heap s q = Some rule'" and "q \<noteq> r"
  shows "rule_vars (drop_rule r rule t) rule' = rule_vars t rule'"
proof -
  have "cond_vars (drop_rule r rule t) c = cond_vars t c" if "c \<in> set (conditions rule')" for c
    using that conditions_disjoint [OF assms(1-3)] assms(4) by (auto simp: cond_vars_def restrict_map_def)
  then have "map (cond_vars (drop_rule r rule t)) (conditions rule') = map (cond_vars t) (conditions rule')"
    by simp
  then show ?thesis by (simp only: rule_vars_def)
qed

lemma sum_list_remove1:
  fixes f :: "'a \<Rightarrow> nat"
  shows "x \<in> set xs \<Longrightarrow> sum_list (map f xs) = f x + sum_list (map f (remove1 x xs))"
  by (induction xs) auto

lemma refs_drop_linked:
  assumes wf: "wf_engine s" and refs: "refs_ok s" and r: "rule_heap s r = Some rule" "r \<in> set (rules s)"
  shows "refs_ok (drop_rule r rule (bump_all (- 1) (rule_vars s rule) s))"
proof -
  let ?b = "bump_all (- 1) (rule_vars s rule) s"
  let ?s = "drop_rule r rule ?b"
  have cached: "all_cached (rule_vars s rule) s" using refs r by (auto simp: refs_ok_def)
  have d: "distinct (rules s)" using wf by (simp add: wf_engine_def rules_ok_def)
  have vars: "rule_vars ?s rule' = rule_vars s rule'" if "rule_heap s q = Some rule'" "q \<noteq> r" for q rule'
    using rule_vars_drop [OF wf r(1) that, of ?b] rule_vars_cong [of ?b s rule'] by simp
  have uses_eq: "uses ?s n q = uses s n q" if "q \<in> set (remove1 r (rules s))" for n q
  proof -
    have "q \<in> set (rules s)" "q \<noteq> r" using that d by auto
    moreover then obtain rule' where "rule_heap s q = Some rule'" using wf_rule_in_list [OF wf] by blast
    ultimately show ?thesis using vars by (simp add: uses_def)
  qed
  have "ref_of n ?s = int (sum_list (map (uses ?s n) (rules ?s)))" for n
  proof -
    have "ref_of n ?s = ref_of n ?b" by (rule ref_of_db_vars) simp
    also have "\<dots> = ref_of n s - int (uses s n r)"
      using ref_of_bump_all [OF cached] r(1) by (simp add: uses_def)
    also have "\<dots> = int (sum_list (map (uses s n) (remove1 r (rules s))))"
      using refs sum_list_remove1 [OF r(2), of "uses s n"] by (simp add: refs_ok_def)
    also have "\<dots> = int (sum_list (map (uses ?s n) (rules ?s)))"
      using uses_eq by (simp cong: map_cong)
    finally show ?thesis .
  qed
  moreover have "all_cached (rule_vars ?s rule') ?s"
    if "q \<in> set (rules ?s)" "rule_heap ?s q = Some rule'" for q rule'
  proof -
    have q: "q \<in> set (rules s)" "q \<noteq> r" "rule_heap s q = Some rule'" using that d by (auto split: if_splits)
    then have "all_cached (rule_vars s rule') s" using refs by (auto simp: refs_ok_def)
    then have "all_cached (rule_vars s rule') ?b" by simp
    with vars [OF q(3,2)] is_cached_db_vars [of ?s ?b] show ?thesis by (simp add: all_cached_def)
  qed
  ultimately show ?thesis by (auto simp: refs_ok_def)
qed

lemma refs_drop_unlinked:
  assumes wf: "wf_engine s" and refs: "refs_ok s" and r: "rule_heap s r = Some rule" "r \<notin> set (rules s)"
  shows "refs_ok (drop_rule r rule s)"
proof -
  let ?s = "drop_rule r rule s"
  have rl: "rules ?s = rules s" using r by (simp add: remove1_idem)
  have vars: "rule_vars ?s rule' = rule_vars s rule'" if "rule_heap s q = Some rule'" "q \<noteq> r" for q rule'
    using rule_vars_drop [OF wf r(1) that] .
  have uses_eq: "uses ?s n q = uses s n q" if q: "q \<in> set (rules s)" for n q
  proof -
    have "q \<noteq> r" using q r by auto
    moreover obtain rule' where "rule_heap s q = Some rule'" using wf_rule_in_list [OF wf q] by blast
    ultimately show ?thesis using vars by (simp add: uses_def)
  qed
  have "ref_of n ?s = int (sum_list (map (uses ?s n) (rules ?s)))" for n
    using refs uses_eq ref_of_db_vars [of ?s s n] by (simp add: refs_ok_def remove1_idem r(2) cong: map_cong)
  moreover have "all_cached (rule_vars ?s rule') ?s"
    if "q \<in> set (rules ?s)" "rule_heap ?s q = Some rule'" for q rule'
  proof -
    have q: "q \<in> set (rules s)" "q \<noteq> r" "rule_heap s q = Some rule'" using that r rl by (auto split: if_splits)
    then have "all_cached (rule_vars s rule') s" using refs by (auto simp: refs_ok_def)
    with vars [OF q(3,2)] is_cached_db_vars [of ?s s] show ?thesis by (simp add: all_cached_def)
  qed
  ultimately show ?thesis by (auto simp: refs_ok_def)
qed

definition engine_ok :: "'d xstate \<Rightarrow> bool" where
  "engine_ok s \<longleftrightarrow> wf_engine s \<and> complete s \<and> refs_ok s"

lemma delete_linked:
  assumes "engine_ok s" and "r \<in> set (rules s)"
  shows "\<exists>rule s'. rule_heap s r = Some rule \<and> delete_rule env ops r s = Ok s' \<and>
     s' = drop_rule r rule (bump_all (- 1) (rule_vars s rule) s) \<and> engine_ok s'"
proof -
  have ok: "wf_engine s" "complete s" "refs_ok s" using assms(1) by (simp_all add: engine_ok_def)
  obtain rule where r: "rule_heap s r = Some rule" "linked rule"
    using wf_rule_in_list [OF ok(1) assms(2)] assms(2) by (auto simp: rule_ok_def)
  have cached: "all_cached (rule_vars s rule) s" using ok(3) r assms(2) by (auto simp: refs_ok_def)
  have "complete (drop_rule r rule (bump_all (- 1) (rule_vars s rule) s))"
    using ok(2) by (auto simp: complete_def split: if_splits)
  with r cached assms(2) ok wf_drop_rule [of "bump_all (- 1) (rule_vars s rule) s" r rule]
    refs_drop_linked [OF ok(1,3) r(1)] delete_rule_run [OF ok(1) r(1), of env ops]
  show ?thesis by (simp add: engine_ok_def)
qed

lemma delete_rules_run:
  assumes "engine_ok s"
  shows "\<exists>s'. delete_rules env ops s = Ok s' \<and> engine_ok s' \<and> rules s' = [] \<and> effects s' = effects s \<and>
    database s' = database s \<and> map ev_name (events s') = map ev_name (events s)"
proof -
  have "\<exists>s'. ofold (delete_rule env ops) rs s = Ok s' \<and> engine_ok s' \<and> rules s' = [] \<and> effects s' = effects s \<and>
    database s' = database s \<and> map ev_name (events s') = map ev_name (events s)"
    if "engine_ok s" "rules s = rs" for rs and s :: "'a xstate"
    using that
  proof (induction rs arbitrary: s)
    case (Cons r rs)
    obtain rule s' where s': "delete_rule env ops r s = Ok s'"
      "s' = drop_rule r rule (bump_all (- 1) (rule_vars s rule) s)" "engine_ok s'"
      using delete_linked [of s r env ops] Cons.prems by auto
    then have "rules s' = rs" using Cons.prems(2) by simp
    from Cons.IH [OF s'(3) this] s' show ?case by (auto simp: unlisten_def comp_def)
  qed auto
  with assms show ?thesis by (simp add: delete_rules_def)
qed

end
