(* ===== verification/Load_Rule.thy ===== *)
theory Load_Rule
  imports Apply_Rule Engine_Inv
begin

unbundle bit_operations_syntax

text \<open>
  What \<open>apply_rule\<close> does, start to end: it builds a rule from the functions whose types are
  registered, validates it, and either links it or deletes it without a trace. The engine's
  invariant and the reference counts hold again when it returns.
\<close>

subsection \<open>Validation\<close>

definition arg_kind :: "'d xstate \<Rightarrow> arg \<Rightarrow> arg_type" where
  "arg_kind s a =
     (case a of Arg_Var v \<Rightarrow> (case cached_var v s of None \<Rightarrow> ARG_NONE | Some x \<Rightarrow> arg_type_of (dv_value x))
      | _ \<Rightarrow> arg_type_of a)"

fun signature :: "arg_type list \<Rightarrow> string" where
  \<comment> \<open>the prototype a list of argument types matches\<close>
  "signature [] = ''n''"
| "signature [t] = [arg_type_code t]"
| "signature (t # ts) = arg_type_code t # CHR '' '' # signature ts"

definition letters :: "arg_type list \<Rightarrow> string" where
  "letters ts = concat (map (\<lambda>t. [arg_type_code t, CHR '' '']) ts)"

lemma butlast_letters: "ts \<noteq> [] \<Longrightarrow> butlast (letters ts) = signature ts"
  by (induction ts rule: signature.induct) (simp_all add: letters_def)

lemma letters_empty [simp]: "letters ts = [] \<longleftrightarrow> ts = []"
  by (cases ts) (simp_all add: letters_def)

lemma arg_letters_run:
  "all_cached (arg_vars as) s \<Longrightarrow>
   arg_letters env ops as acc s =
     Ok (Inr (if as = [] then acc else str_append acc (letters (map (arg_kind s) as))), s)"
proof (induction as arbitrary: acc)
  case Nil
  then show ?case by simp
next
  case (Cons a as)
  have app: "str_append (str_append acc x) y = str_append acc (x @ y)" for x y
    by (simp add: str_append_def split: option.splits)
  show ?case
  proof (cases a)
    case (Arg_Var v)
    with Cons.prems obtain x where "cached_var v s = Some x" by (auto simp: is_cached_def)
    with Cons Arg_Var show ?thesis
      by (cases as) (simp_all add: resolve_var_def arg_kind_def letters_def app)
  qed (use Cons in \<open>cases as; simp add: arg_kind_def letters_def app\<close>)+
qed

lemma check_prototype_run:
  assumes "all_cached (arg_vars args) s"
  shows "\<exists>err'. check_prototype env ops proto args err s =
    Ok (proto = signature (map (arg_kind s) args), err', s)"
proof -
  have "(case (if args = [] then None else str_append None (letters (map (arg_kind s) args))) of
      None \<Rightarrow> ''n'' | Some t \<Rightarrow> butlast t) = signature (map (arg_kind s) args)"
    by (simp add: str_append_def butlast_letters)
  with arg_letters_run [OF assms, of env ops None] show ?thesis
    by (auto simp: check_prototype_def Let_def)
qed

definition cond_matches :: "'d xstate \<Rightarrow> addr \<Rightarrow> bool" where
  "cond_matches s c \<longleftrightarrow>
     (\<exists>cond. cond_heap s c = Some cond \<and> ct_prototype (c_type cond) = signature (map (arg_kind s) (c_args cond)))"

definition action_matches :: "'d xstate \<Rightarrow> action \<Rightarrow> bool" where
  "action_matches s act \<longleftrightarrow> at_prototype (a_type act) = signature (map (arg_kind s) (a_args act))"

lemma check_conditions_run:
  assumes "\<forall>c \<in> set cs. cond_heap s c \<noteq> None" and "all_cached (concat (map (cond_vars s) cs)) s"
  shows "\<exists>err'. check_each (check_condition env ops) cs err s = Ok (\<forall>c \<in> set cs. cond_matches s c, err', s)"
  using assms
proof (induction cs arbitrary: err)
  case (Cons c cs)
  then obtain cond where c: "cond_heap s c = Some cond" by auto
  with Cons.prems have "all_cached (arg_vars (c_args cond)) s" by (simp add: cond_vars_def)
  from check_prototype_run [OF this, of env ops "ct_prototype (c_type cond)" err] c Cons show ?case
    by (auto simp: check_condition_def cond_matches_def)
qed simp

lemma check_actions_run:
  assumes "all_cached (concat (map (\<lambda>a. arg_vars (a_args a)) acts)) s"
  shows "\<exists>err'. check_each (check_action env ops) acts err s = Ok (\<forall>a \<in> set acts. action_matches s a, err', s)"
  using assms
proof (induction acts arbitrary: err)
  case (Cons a acts)
  then have "all_cached (arg_vars (a_args a)) s" by simp
  from check_prototype_run [OF this, of env ops "at_prototype (a_type a)" err] Cons show ?case
    by (auto simp: check_action_def action_matches_def)
qed simp

definition rule_named :: "'d xstate \<Rightarrow> string \<Rightarrow> addr \<Rightarrow> bool" where
  "rule_named s i r \<longleftrightarrow> (\<exists>rule. rule_heap s r = Some rule \<and> rule_id rule = Some i)"

lemma lookup_rule_run:
  assumes "wf_engine s"
  shows "lookup_rule i s = Ok (find_first (rule_named s i) (rules s))"
proof -
  let ?f = "\<lambda>r found. if found \<noteq> None then Ok found
         else obind (access (rule_heap s) r) (\<lambda>rule. obind (deref (rule_id rule)) (\<lambda>j.
           Ok (if j = i then Some r else None)))"
  have keep: "ofold ?f rs (Some x) = Ok (Some x)" for rs x
    by (induction rs) auto
  have "ofold ?f rs None = Ok (find_first (rule_named s i) rs)" if "set rs \<subseteq> set (rules s)" for rs
    using that
  proof (induction rs)
    case (Cons r rs)
    then obtain rule j where "rule_heap s r = Some rule" "rule_id rule = Some j"
      using wf_rule_in_list [OF assms, of r] by (auto simp: rule_ok_def)
    with Cons keep show ?case by (auto simp: rule_named_def)
  qed simp
  then show ?thesis by (simp add: lookup_rule_def)
qed

definition validation_code :: "'d xstate \<Rightarrow> rule \<Rightarrow> nat" where
  "validation_code s rule =
     (if rule_id rule = None \<or> rule_id rule = Some [] then NO_NAME
      else if \<exists>q \<in> set (rules s). rule_named s (the (rule_id rule)) q then NAME_COLLISION
      else if conditions rule = [] then NO_CONDITIONS
      else if actions rule = [] \<and> undos rule = [] then NO_ACTIONS
      else if (\<forall>c \<in> set (conditions rule). cond_matches s c) \<and>
              (\<forall>a \<in> set (actions rule @ undos rule). action_matches s a) then RULE_VALID
      else BAD_PROTO)"

lemma validate_rule_run:
  assumes wf: "wf_engine s" and r: "rule_heap s r = Some rule" and cached: "all_cached (rule_vars s rule) s"
  shows "\<exists>err'. validate_rule env ops r err s = Ok (validation_code s rule, err', s)"
proof -
  have live: "\<forall>c \<in> set (conditions rule). cond_heap s c \<noteq> None"
    using wf_conditions_live [OF wf r] by fastforce
  have vars: "all_cached (concat (map (cond_vars s) (conditions rule))) s"
    "all_cached (concat (map (\<lambda>a. arg_vars (a_args a)) (actions rule))) s"
    "all_cached (concat (map (\<lambda>a. arg_vars (a_args a)) (undos rule))) s"
    using cached by (simp_all add: rule_vars_def)
  obtain e1 where e1: "check_each (check_condition env ops) (conditions rule) err s =
      Ok (\<forall>c \<in> set (conditions rule). cond_matches s c, e1, s)"
    using check_conditions_run [OF live vars(1)] by blast
  obtain e2 where e2: "check_each (check_action env ops) (actions rule) e1 s =
      Ok (\<forall>a \<in> set (actions rule). action_matches s a, e2, s)"
    using check_actions_run [OF vars(2)] by blast
  obtain e3 where e3: "check_each (check_action env ops) (undos rule) e2 s =
      Ok (\<forall>a \<in> set (undos rule). action_matches s a, e3, s)"
    using check_actions_run [OF vars(3)] by blast
  show ?thesis
  proof (cases "find_first (rule_named s (the (rule_id rule))) (rules s)")
    case None
    then have "\<not> (\<exists>q \<in> set (rules s). rule_named s (the (rule_id rule)) q)" by (simp add: find_first_None)
    with None show ?thesis
      by (simp add: validate_rule_def validation_code_def r lookup_rule_run [OF wf] e1 e2 e3 ball_Un)
  next
    case (Some q)
    then have "\<exists>q \<in> set (rules s). rule_named s (the (rule_id rule)) q" by (auto dest: find_first_Some_in)
    with Some show ?thesis
      by (simp add: validate_rule_def validation_code_def r lookup_rule_run [OF wf])
  qed
qed


subsection \<open>Building\<close>

text \<open>The objects a parsed function turns into.\<close>

definition mk_condition :: "'d xstate \<Rightarrow> addr \<Rightarrow> fn \<Rightarrow> condition" where
  "mk_condition s r f =
     \<lparr>c_type = the (lookup_condition_type (fn_name f) s), c_rule = Some r, is_true = False,
      is_inverted = (\<not> fn_undo f), c_args = map conv_fn_arg (fn_args f)\<rparr>"

definition mk_action :: "'d xstate \<Rightarrow> fn \<Rightarrow> action" where
  "mk_action s f = \<lparr>a_type = the (lookup_action_type (fn_name f) s), a_args = map conv_fn_arg (fn_args f)\<rparr>"

definition known_condition :: "'d xstate \<Rightarrow> fn \<Rightarrow> bool" where
  "known_condition s f \<longleftrightarrow> lookup_condition_type (fn_name f) s \<noteq> None"

definition known_action :: "'d xstate \<Rightarrow> fn \<Rightarrow> bool" where
  "known_action s f \<longleftrightarrow> lookup_action_type (fn_name f) s \<noteq> None"

definition same_rest :: "'d xstate \<Rightarrow> 'd xstate \<Rightarrow> bool" where
  "same_rest s0 s \<longleftrightarrow> rules s = rules s0 \<and> db_vars s = db_vars s0 \<and> effects s = effects s0 \<and>
     database s = database s0 \<and> condition_types s = condition_types s0 \<and> action_types s = action_types s0"

text \<open>
  \<open>s\<close> is \<open>s0\<close> with the rule \<open>r\<close> built so far from the functions \<open>C\<close>,
  \<open>A\<close> and \<open>U\<close>.
\<close>

definition loaded ::
  "'d xstate \<Rightarrow> addr \<Rightarrow> string \<Rightarrow> fn list \<Rightarrow> fn list \<Rightarrow> fn list \<Rightarrow> 'd xstate \<Rightarrow> bool" where
  "loaded s0 r nm C A U s \<longleftrightarrow> wf_engine s \<and> r \<notin> set (rules s0) \<and> rule_heap s0 r = None \<and> same_rest s0 s \<and>
     (\<exists>cs. rule_heap s = (rule_heap s0)(r \<mapsto> \<lparr>rule_id = Some nm, conditions = cs,
              actions = map (mk_action s0) A, undos = map (mk_action s0) U, is_active = False, linked = False\<rparr>) \<and>
           map (cond_heap s) cs = map (\<lambda>f. Some (mk_condition s0 r f)) C \<and>
           (\<forall>c. c \<notin> set cs \<longrightarrow> cond_heap s c = cond_heap s0 c) \<and>
           (\<forall>c \<in> set cs. cond_heap s0 c = None) \<and>
           map (unlisten (set cs)) (events s) = events s0)"

lemma loaded_new_rule:
  assumes "wf_engine s0" and "new_rule (Some nm) s0 = (r, s)"
  shows "loaded s0 r nm [] [] [] s"
proof -
  have fresh: "rule_heap s0 r = None" and r: "r = next_addr s0"
    using assms wf_fresh by (auto simp: new_rule_def)
  have out: "r \<notin> set (rules s0)" using wf_rule_in_list [OF assms(1)] fresh by fastforce
  have "rules_ok s"
    unfolding rules_ok_def
  proof (intro conjI allI impI)
    show "distinct (rules s)" "\<forall>q \<in> set (rules s). rule_heap s q \<noteq> None"
      using assms by (auto simp: new_rule_def wf_engine_def rules_ok_def)
    fix q rule
    assume q: "rule_heap s q = Some rule"
    show "rule_ok s q rule"
    proof (cases "q = r")
      case True
      with q assms(2) out r show ?thesis by (auto simp: new_rule_def rule_ok_def)
    next
      case False
      with q assms(2) have "rule_heap s0 q = Some rule" by (auto simp: new_rule_def)
      then have "rule_ok s0 q rule" using assms(1) by (simp add: wf_engine_def rules_ok_def)
      with assms(2) show ?thesis by (auto simp: new_rule_def rule_ok_def)
    qed
  qed
  moreover have "conds_ok s"
    unfolding conds_ok_def
  proof (intro allI impI)
    fix c cond
    assume "cond_heap s c = Some cond"
    then have "cond_heap s0 c = Some cond" using assms(2) by (auto simp: new_rule_def)
    then obtain q rule where "ct_event (c_type cond) < length (events s0)"
        "c \<in> set (listeners (events s0 ! ct_event (c_type cond)))"
        "c_rule cond = Some q" "rule_heap s0 q = Some rule" "c \<in> set (conditions rule)"
      by (rule wf_condition [OF assms(1)])
    with fresh assms(2) show "ct_event (c_type cond) < length (events s) \<and>
        c \<in> set (listeners (events s ! ct_event (c_type cond))) \<and>
        (\<exists>q rule. c_rule cond = Some q \<and> rule_heap s q = Some rule \<and> c \<in> set (conditions rule))"
      by (auto simp: new_rule_def)
  qed
  ultimately have "wf_engine s"
    using assms by (auto simp: new_rule_def wf_engine_def heap_bounded_def listeners_ok_def types_ok_def)
  with assms(2) fresh out show ?thesis by (auto simp: loaded_def same_rest_def new_rule_def unlisten_none)
qed

lemma upd_args_run:
  assumes "cond_heap s c = Some cond"
  shows "ofold (\<lambda>a. add_condition_arg (Some c) (conv_fn_arg a)) as s =
    Ok (s\<lparr>cond_heap := (cond_heap s)(c \<mapsto> cond\<lparr>c_args := c_args cond @ map conv_fn_arg as\<rparr>)\<rparr>)"
  using assms
proof (induction as arbitrary: s cond)
  case Nil
  have "(cond_heap s)(c \<mapsto> cond) = cond_heap s" using Nil by auto
  then show ?case by simp
next
  case (Cons a as)
  let ?cond = "cond\<lparr>c_args := c_args cond @ [conv_fn_arg a]\<rparr>"
  let ?s = "s\<lparr>cond_heap := (cond_heap s)(c \<mapsto> ?cond)\<rparr>"
  have "add_condition_arg (Some c) (conv_fn_arg a) s = Ok ?s"
    using Cons.prems by (simp add: add_condition_arg_def upd_cond_def)
  moreover have "cond_heap ?s c = Some ?cond" by simp
  ultimately show ?case using Cons.IH [of ?s ?cond] by (simp cong: if_cong)
qed

definition with_condition :: "addr \<Rightarrow> rule \<Rightarrow> condition \<Rightarrow> 'd xstate \<Rightarrow> 'd xstate" where
  "with_condition r rule cond s =
     (let c = next_addr s; i = ct_event (c_type cond)
      in s\<lparr>events := (events s)[i := (events s ! i)\<lparr>listeners := listeners (events s ! i) @ [c]\<rparr>],
           cond_heap := (cond_heap s)(c \<mapsto> cond),
           rule_heap := (rule_heap s)(r \<mapsto> rule\<lparr>conditions := conditions rule @ [c]\<rparr>),
           next_addr := Suc c\<rparr>)"

lemma load_condition_run:
  assumes "rule_heap s r = Some rule" and "lookup_condition_type (fn_name f) s = Some t"
    and "ct_event t < length (events s)"
  shows "load_condition r f (b, s) = Ok (b, with_condition r rule (mk_condition s r f) s)"
proof (cases "fn_undo f")
  case True
  with assms show ?thesis
    by (simp add: load_condition_def new_condition_from_string_def new_condition_def Let_def add_listener_def
        upd_args_run add_condition_to_rule_def upd_cond_def upd_rule_def mk_condition_def with_condition_def)
next
  case False
  with assms show ?thesis
    by (simp add: load_condition_def new_condition_from_string_def new_condition_def Let_def add_listener_def
        invert_condition_def upd_args_run add_condition_to_rule_def upd_cond_def upd_rule_def
        mk_condition_def with_condition_def)
qed

lemma wf_with_condition:
  assumes wf: "wf_engine s" and r: "rule_heap s r = Some rule"
    and c: "c_rule cond = Some r" "ct_event (c_type cond) < length (events s)"
  shows "wf_engine (with_condition r rule cond s)"
proof -
  let ?s = "with_condition r rule cond s" and ?c = "next_addr s"
  have fresh: "cond_heap s ?c = None" using wf_fresh [OF wf] by simp
  have new: "?c \<notin> set (listeners (events s ! i))" if "i < length (events s)" for i
    using wf_listener [OF wf that] fresh by fastforce
  have notin: "?c \<notin> set (conditions q)" if "rule_heap s x = Some q" for x q
    using wf_conditions_live [OF wf that] fresh by fastforce
  have "heap_bounded ?s" using wf by (auto simp: wf_engine_def heap_bounded_def with_condition_def Let_def)
      (metis r Suc_leD not_less_eq_eq option.distinct(1))+
  moreover have "listeners_ok ?s"
    using wf c(2) new fresh
    by (auto simp: wf_engine_def listeners_ok_def with_condition_def Let_def nth_list_update)
  moreover have "types_ok ?s" using wf by (simp add: wf_engine_def types_ok_def with_condition_def Let_def)
  moreover have "conds_ok ?s"
    unfolding conds_ok_def
  proof (intro allI impI)
    fix d x
    assume d: "cond_heap ?s d = Some x"
    show "ct_event (c_type x) < length (events ?s) \<and> d \<in> set (listeners (events ?s ! ct_event (c_type x))) \<and>
        (\<exists>q rule. c_rule x = Some q \<and> rule_heap ?s q = Some rule \<and> d \<in> set (conditions rule))"
    proof (cases "d = ?c")
      case True
      with d c show ?thesis by (auto simp: with_condition_def Let_def)
    next
      case False
      with d have "cond_heap s d = Some x" by (simp add: with_condition_def Let_def)
      then obtain q rule' where "ct_event (c_type x) < length (events s)"
          "d \<in> set (listeners (events s ! ct_event (c_type x)))"
          "c_rule x = Some q" "rule_heap s q = Some rule'" "d \<in> set (conditions rule')"
        by (rule wf_condition [OF wf])
      with r c(2) show ?thesis by (auto simp: with_condition_def Let_def nth_list_update)
    qed
  qed
  moreover have "rules_ok ?s"
    using wf r c(1) notin fresh
    by (auto simp: wf_engine_def rules_ok_def rule_ok_def with_condition_def Let_def split: if_splits)
  ultimately show ?thesis by (simp add: wf_engine_def)
qed


lemma lookup_type_cong:
  "condition_types t = condition_types s \<Longrightarrow> lookup_condition_type n t = lookup_condition_type n s"
  "action_types t = action_types s \<Longrightarrow> lookup_action_type n t = lookup_action_type n s"
  by (simp_all add: lookup_condition_type_def lookup_action_type_def)

lemma wf_fresh_listener:
  assumes "wf_engine s" and "e \<in> set (events s)"
  shows "next_addr s \<notin> set (listeners e)"
proof
  assume "next_addr s \<in> set (listeners e)"
  moreover obtain i where "i < length (events s)" "e = events s ! i"
    using assms(2) by (auto simp: in_set_conv_nth)
  ultimately show False using wf_listener [OF assms(1)] wf_fresh [OF assms(1)] by fastforce
qed

lemma unlisten_new:
  assumes "\<And>e. e \<in> set evs \<Longrightarrow> c \<notin> set (listeners e)"
  shows "map (unlisten (insert c C)) (evs[i := (evs ! i)\<lparr>listeners := listeners (evs ! i) @ [c]\<rparr>]) =
    map (unlisten C) evs"
proof (rule nth_equalityI)
  fix j
  assume "j < length (map (unlisten (insert c C)) (evs[i := (evs ! i)\<lparr>listeners := listeners (evs ! i) @ [c]\<rparr>]))"
  then have j: "j < length evs" by simp
  then have "c \<notin> set (listeners (evs ! j))" using assms by simp
  then have "filter (\<lambda>x. x \<noteq> c \<and> x \<notin> C) (listeners (evs ! j)) = filter (\<lambda>x. x \<notin> C) (listeners (evs ! j))"
    by (auto intro: filter_cong)
  with j show "map (unlisten (insert c C)) (evs[i := (evs ! i)\<lparr>listeners := listeners (evs ! i) @ [c]\<rparr>]) ! j =
    map (unlisten C) evs ! j"
    by (cases "i = j") (simp_all add: unlisten_def)
qed simp

lemma load_condition_known:
  assumes l: "loaded s0 r nm C A U s" and known: "known_condition s0 f"
  shows "\<exists>s'. load_condition r f (b, s) = Ok (b, s') \<and> loaded s0 r nm (C @ [f]) A U s'"
proof -
  obtain cs where r: "rule_heap s = (rule_heap s0)(r \<mapsto> \<lparr>rule_id = Some nm, conditions = cs,
              actions = map (mk_action s0) A, undos = map (mk_action s0) U, is_active = False, linked = False\<rparr>)"
      (is "_ = (rule_heap s0)(r \<mapsto> ?rule)")
    and cs: "map (cond_heap s) cs = map (\<lambda>f. Some (mk_condition s0 r f)) C"
    and others: "\<forall>c. c \<notin> set cs \<longrightarrow> cond_heap s c = cond_heap s0 c"
    and fresh_cs: "\<forall>c \<in> set cs. cond_heap s0 c = None"
    and evs: "map (unlisten (set cs)) (events s) = events s0"
    using l by (auto simp: loaded_def)
  have wf: "wf_engine s" and types: "condition_types s = condition_types s0" using l by (simp_all add: loaded_def same_rest_def)
  obtain t where t: "lookup_condition_type (fn_name f) s = Some t" "lookup_condition_type (fn_name f) s0 = Some t"
    using known lookup_type_cong(1) [OF types] by (auto simp: known_condition_def)
  then have ev: "ct_event t < length (events s)"
    using wf by (auto simp: wf_engine_def types_ok_def lookup_condition_type_def dest: find_first_Some_in)
  have mk: "mk_condition s r f = mk_condition s0 r f" using t by (simp add: mk_condition_def)
  let ?s = "with_condition r ?rule (mk_condition s0 r f) s"
  have live: "set cs \<subseteq> dom (cond_heap s)"
  proof
    fix c
    assume "c \<in> set cs"
    then have "cond_heap s c \<in> set (map (cond_heap s) cs)" by simp
    then show "c \<in> dom (cond_heap s)" by (auto simp: cs)
  qed
  have fresh: "cond_heap s (next_addr s) = None" using wf_fresh [OF wf] by simp
  have "map (cond_heap ?s) (cs @ [next_addr s]) = map (\<lambda>f. Some (mk_condition s0 r f)) (C @ [f])"
    using live fresh by (auto simp: cs [symmetric] with_condition_def Let_def)
  moreover have "\<forall>c. c \<notin> set (cs @ [next_addr s]) \<longrightarrow> cond_heap ?s c = cond_heap s0 c"
    using others by (auto simp: with_condition_def Let_def)
  moreover have "\<forall>c \<in> set (cs @ [next_addr s]). cond_heap s0 c = None"
    using fresh_cs others fresh live by auto
  moreover have "map (unlisten (set (cs @ [next_addr s]))) (events ?s) = events s0"
    using unlisten_new [of "events s" "next_addr s" "set cs" "ct_event (c_type (mk_condition s0 r f))"]
      wf_fresh_listener [OF wf] evs
    by (simp add: with_condition_def Let_def)
  moreover have "rule_heap ?s = (rule_heap s0)(r \<mapsto> ?rule\<lparr>conditions := cs @ [next_addr s]\<rparr>)"
    by (simp add: r with_condition_def Let_def)
  moreover have "wf_engine ?s"
    using wf_with_condition [OF wf, of r ?rule "mk_condition s0 r f"] r t(2) ev by (simp add: mk_condition_def)
  moreover have "r \<notin> set (rules s0)" "rule_heap s0 r = None" "same_rest s0 ?s"
    using l by (simp_all add: loaded_def same_rest_def with_condition_def Let_def)
  ultimately have "loaded s0 r nm (C @ [f]) A U ?s"
    unfolding loaded_def by (intro conjI exI [of _ "cs @ [next_addr s]"]) simp_all
  moreover have "load_condition r f (b, s) = Ok (b, ?s)"
    using load_condition_run [of s r ?rule f t b] r t ev mk by simp
  ultimately show ?thesis by blast
qed

lemma load_condition_unknown:
  assumes "loaded s0 r nm C A U s" and "\<not> known_condition s0 f"
  shows "load_condition r f (b, s) = Ok (omit_fn BAD_CONDITION ''condition'' (fn_name f) b, s)"
  using assms lookup_type_cong(1) [of s s0]
  by (simp add: loaded_def same_rest_def known_condition_def load_condition_def new_condition_from_string_def new_condition_def)

definition missing :: "('a \<Rightarrow> bool) \<Rightarrow> nat \<Rightarrow> 'a list \<Rightarrow> nat" where
  "missing known code fs = (if \<forall>f \<in> set fs. known f then 0 else code)"

lemma load_conditions_run:
  assumes "loaded s0 r nm C A U s"
  shows "\<exists>b' s'. ofold (load_condition r) fs (b, s) = Ok (b', s') \<and>
    fst b' = fst b OR missing (known_condition s0) BAD_CONDITION fs \<and>
    loaded s0 r nm (C @ filter (known_condition s0) fs) A U s'"
  using assms
proof (induction fs arbitrary: C b s)
  case Nil
  then show ?case by (simp add: missing_def)
next
  case (Cons f fs)
  show ?case
  proof (cases "known_condition s0 f")
    case True
    with load_condition_known [OF Cons.prems this, of b] Cons.IH show ?thesis
      by (fastforce simp: missing_def)
  next
    case False
    with load_condition_unknown [OF Cons.prems this, of b] Cons.IH [OF Cons.prems]
    show ?thesis by (fastforce simp: missing_def omit_fn_def or.assoc)
  qed
qed

lemma add_args_run:
  "fold (\<lambda>a. add_action_arg (conv_fn_arg a)) as (Some act) =
   Some (act\<lparr>a_args := a_args act @ map conv_fn_arg as\<rparr>)"
  by (induction as arbitrary: act) (simp_all add: add_action_arg_def)

lemma wf_upd_rule:
  assumes wf: "wf_engine s" and r: "rule_heap s r = Some rule"
    and same: "rule_id rule' = rule_id rule" "conditions rule' = conditions rule" "linked rule' = linked rule"
  shows "wf_engine (s\<lparr>rule_heap := (rule_heap s)(r \<mapsto> rule')\<rparr>)"
proof -
  have "rules_ok (s\<lparr>rule_heap := (rule_heap s)(r \<mapsto> rule')\<rparr>)"
    using wf r same by (auto simp: wf_engine_def rules_ok_def rule_ok_def split: if_splits)
  moreover have "conds_ok (s\<lparr>rule_heap := (rule_heap s)(r \<mapsto> rule')\<rparr>)"
    unfolding conds_ok_def
  proof (intro allI impI)
    fix c x
    assume "cond_heap (s\<lparr>rule_heap := (rule_heap s)(r \<mapsto> rule')\<rparr>) c = Some x"
    then have "cond_heap s c = Some x" by simp
    then obtain q rule'' where "ct_event (c_type x) < length (events s)"
          "c \<in> set (listeners (events s ! ct_event (c_type x)))"
          "c_rule x = Some q" "rule_heap s q = Some rule''" "c \<in> set (conditions rule'')"
      by (rule wf_condition [OF wf])
    with r same show "ct_event (c_type x) < length (events (s\<lparr>rule_heap := (rule_heap s)(r \<mapsto> rule')\<rparr>)) \<and>
        c \<in> set (listeners (events (s\<lparr>rule_heap := (rule_heap s)(r \<mapsto> rule')\<rparr>) ! ct_event (c_type x))) \<and>
        (\<exists>q rule. c_rule x = Some q \<and> rule_heap (s\<lparr>rule_heap := (rule_heap s)(r \<mapsto> rule')\<rparr>) q = Some rule \<and>
           c \<in> set (conditions rule))"
      by (cases "q = r") auto
  qed
  ultimately show ?thesis
    using wf r by (auto simp: wf_engine_def heap_bounded_def listeners_ok_def types_ok_def)
qed


lemma load_action_known:
  assumes l: "loaded s0 r nm C A U s" and known: "known_action s0 f"
  shows "\<exists>s'. load_action add_action_to_rule k r f (b, s) = Ok (b, s') \<and> loaded s0 r nm C (A @ [f]) U s'"
    and "\<exists>s'. load_action add_undo_to_rule k r f (b, s) = Ok (b, s') \<and> loaded s0 r nm C A (U @ [f]) s'"
proof -
  obtain cs where r: "rule_heap s = (rule_heap s0)(r \<mapsto> \<lparr>rule_id = Some nm, conditions = cs,
              actions = map (mk_action s0) A, undos = map (mk_action s0) U, is_active = False, linked = False\<rparr>)"
      (is "_ = (rule_heap s0)(r \<mapsto> ?rule)")
    and cs: "map (cond_heap s) cs = map (\<lambda>f. Some (mk_condition s0 r f)) C"
      "\<forall>c. c \<notin> set cs \<longrightarrow> cond_heap s c = cond_heap s0 c"
      "\<forall>c \<in> set cs. cond_heap s0 c = None" "map (unlisten (set cs)) (events s) = events s0"
    and wf: "wf_engine s" and rest: "same_rest s0 s" "r \<notin> set (rules s0)" "rule_heap s0 r = None"
    using l by (auto simp: loaded_def)
  obtain t where t: "lookup_action_type (fn_name f) s = Some t" "lookup_action_type (fn_name f) s0 = Some t"
    using known rest(1) lookup_type_cong(2) [of s s0] by (auto simp: known_action_def same_rest_def)
  have made: "fold (\<lambda>a. add_action_arg (conv_fn_arg a)) (fn_args f) (Some \<lparr>a_type = t, a_args = []\<rparr>) =
      Some (mk_action s0 f)"
    using t(2) by (simp add: add_args_run mk_action_def)
  let ?s = "\<lambda>rule'. s\<lparr>rule_heap := (rule_heap s)(r \<mapsto> rule')\<rparr>"
  have put: "loaded s0 r nm C A' U' (?s rule')"
    if "rule' = ?rule\<lparr>actions := map (mk_action s0) A', undos := map (mk_action s0) U'\<rparr>" for A' U' rule'
  proof -
    have "wf_engine (?s rule')" using that r by (intro wf_upd_rule [OF wf, of r ?rule]) simp_all
    with cs rest that show ?thesis
      unfolding loaded_def by (intro conjI exI [of _ cs]) (simp_all add: r same_rest_def)
  qed
  have heap: "rule_heap s r = Some ?rule" by (simp add: r)
  have "load_action add_action_to_rule k r f (b, s) = Ok (b, ?s (?rule\<lparr>actions := map (mk_action s0) (A @ [f])\<rparr>))"
    by (simp add: load_action_def new_action_from_string_def new_action_def add_action_to_rule_def upd_rule_def
        t(1) made heap)
  moreover have "loaded s0 r nm C (A @ [f]) U (?s (?rule\<lparr>actions := map (mk_action s0) (A @ [f])\<rparr>))"
    by (rule put) simp
  ultimately show "\<exists>s'. load_action add_action_to_rule k r f (b, s) = Ok (b, s') \<and> loaded s0 r nm C (A @ [f]) U s'"
    by blast
  have "load_action add_undo_to_rule k r f (b, s) = Ok (b, ?s (?rule\<lparr>undos := map (mk_action s0) (U @ [f])\<rparr>))"
    by (simp add: load_action_def new_action_from_string_def new_action_def add_undo_to_rule_def upd_rule_def
        t(1) made heap)
  moreover have "loaded s0 r nm C A (U @ [f]) (?s (?rule\<lparr>undos := map (mk_action s0) (U @ [f])\<rparr>))"
    by (rule put) simp
  ultimately show "\<exists>s'. load_action add_undo_to_rule k r f (b, s) = Ok (b, s') \<and> loaded s0 r nm C A (U @ [f]) s'"
    by blast
qed

lemma load_action_unknown:
  assumes "loaded s0 r nm C A U s" and "\<not> known_action s0 f"
  shows "load_action add k r f (b, s) = Ok (omit_fn k ''action'' (fn_name f) b, s)"
  using assms lookup_type_cong(2) [of s s0]
  by (simp add: loaded_def same_rest_def known_action_def load_action_def new_action_from_string_def new_action_def)

lemma load_actions_run:
  assumes "loaded s0 r nm C A U s"
  shows "\<exists>b' s'. ofold (load_action add_action_to_rule k r) fs (b, s) = Ok (b', s') \<and>
    fst b' = fst b OR missing (known_action s0) k fs \<and> loaded s0 r nm C (A @ filter (known_action s0) fs) U s'"
  using assms
proof (induction fs arbitrary: A b s)
  case (Cons f fs)
  show ?case
  proof (cases "known_action s0 f")
    case True
    with load_action_known(1) [OF Cons.prems this, of k b] Cons.IH show ?thesis
      by (fastforce simp: missing_def)
  next
    case False
    with load_action_unknown [OF Cons.prems this, of add_action_to_rule k b] Cons.IH [OF Cons.prems]
    show ?thesis by (fastforce simp: missing_def omit_fn_def or.assoc)
  qed
qed (simp add: missing_def)

lemma load_undos_run:
  assumes "loaded s0 r nm C A U s"
  shows "\<exists>b' s'. ofold (load_action add_undo_to_rule k r) fs (b, s) = Ok (b', s') \<and>
    fst b' = fst b OR missing (known_action s0) k fs \<and> loaded s0 r nm C A (U @ filter (known_action s0) fs) s'"
  using assms
proof (induction fs arbitrary: U b s)
  case (Cons f fs)
  show ?case
  proof (cases "known_action s0 f")
    case True
    with load_action_known(2) [OF Cons.prems this, of k b] Cons.IH show ?thesis
      by (fastforce simp: missing_def)
  next
    case False
    with load_action_unknown [OF Cons.prems this, of add_undo_to_rule k b] Cons.IH [OF Cons.prems]
    show ?thesis by (fastforce simp: missing_def omit_fn_def or.assoc)
  qed
qed (simp add: missing_def)

definition missing_code :: "'d xstate \<Rightarrow> fn list \<Rightarrow> fn list \<Rightarrow> fn list \<Rightarrow> nat" where
  "missing_code s C A U = missing (known_condition s) BAD_CONDITION C OR
     missing (known_action s) BAD_ACTION A OR missing (known_action s) BAD_UNDO U"

lemma build_rule_run:
  assumes "loaded s0 r nm [] [] [] s"
  shows "\<exists>err' s'. build_rule r C A U ((0, err), s) = Ok ((missing_code s0 C A U, err'), s') \<and>
    loaded s0 r nm (filter (known_condition s0) C) (filter (known_action s0) A) (filter (known_action s0) U) s'"
proof -
  obtain b1 s1 where b1: "ofold (load_condition r) C ((0, err), s) = Ok (b1, s1)"
      "fst b1 = missing (known_condition s0) BAD_CONDITION C"
      "loaded s0 r nm (filter (known_condition s0) C) [] [] s1"
    using load_conditions_run [OF assms, of C "(0, err)"] by auto
  obtain b2 s2 where b2: "ofold (load_action add_action_to_rule BAD_ACTION r) A (b1, s1) = Ok (b2, s2)"
      "fst b2 = fst b1 OR missing (known_action s0) BAD_ACTION A"
      "loaded s0 r nm (filter (known_condition s0) C) (filter (known_action s0) A) [] s2"
    using load_actions_run [OF b1(3), of BAD_ACTION A b1] by auto
  obtain b3 s3 where b3: "ofold (load_action add_undo_to_rule BAD_UNDO r) U (b2, s2) = Ok (b3, s3)"
      "fst b3 = fst b2 OR missing (known_action s0) BAD_UNDO U"
      "loaded s0 r nm (filter (known_condition s0) C) (filter (known_action s0) A) (filter (known_action s0) U) s3"
    using load_undos_run [OF b2(3), of BAD_UNDO U b2] by auto
  have "b3 = (missing_code s0 C A U, snd b3)"
    using b1(2) b2(2) b3(2) by (simp add: missing_code_def or.assoc prod_eq_iff)
  with b1(1) b2(1) b3(1,3) show ?thesis
    by (intro exI [of _ "snd b3"] exI [of _ s3]) (simp add: build_rule_def)
qed


subsection \<open>Linking or deleting\<close>

definition fn_vars :: "fn list \<Rightarrow> string list" where
  "fn_vars fs = concat (map (\<lambda>f. arg_vars (map conv_fn_arg (fn_args f))) fs)"

lemma fn_vars_simps [simp]:
  "fn_vars [] = []" "fn_vars (f # fs) = arg_vars (map conv_fn_arg (fn_args f)) @ fn_vars fs"
  "fn_vars (fs @ gs) = fn_vars fs @ fn_vars gs"
  by (simp_all add: fn_vars_def)

lemma fn_vars_filter: "set (fn_vars (filter P fs)) \<subseteq> set (fn_vars fs)"
  by (induction fs) auto

lemma fn_vars_actions: "concat (map (\<lambda>a. arg_vars (a_args a)) (map (mk_action s) fs)) = fn_vars fs"
  by (induction fs) (simp_all add: mk_action_def)

lemma fn_vars_conditions:
  "map (cond_heap s) cs = map (\<lambda>f. Some (mk_condition s0 r f)) fs \<Longrightarrow>
   concat (map (cond_vars s) cs) = fn_vars fs"
proof (induction fs arbitrary: cs)
  case (Cons f fs)
  then obtain c cs' where "cs = c # cs'" by (cases cs) auto
  with Cons show ?case by (simp add: cond_vars_def mk_condition_def)
qed simp

definition linked_rule :: "'d xstate \<Rightarrow> addr \<Rightarrow> string \<Rightarrow> fn list \<Rightarrow> fn list \<Rightarrow> fn list \<Rightarrow> 'd xstate \<Rightarrow> bool" where
  \<comment> \<open>the rule \<open>r\<close> in the final state, and everything else as it was\<close>
  "linked_rule s0 r nm C A U s \<longleftrightarrow>
     (\<exists>cs. rule_heap s = (rule_heap s0)(r \<mapsto> \<lparr>rule_id = Some nm, conditions = cs,
              actions = map (mk_action s0) A, undos = map (mk_action s0) U, is_active = False, linked = True\<rparr>) \<and>
           map (cond_heap s) cs = map (\<lambda>f. Some (mk_condition s0 r f)) C \<and>
           (\<forall>c. c \<notin> set cs \<longrightarrow> cond_heap s c = cond_heap s0 c)) \<and>
     rules s = rules s0 @ [r]"

lemma wf_link:
  assumes wf: "wf_engine s" and r: "rule_heap s r = Some rule" "r \<notin> set (rules s)"
  shows "wf_engine (s\<lparr>rule_heap := (rule_heap s)(r \<mapsto> rule\<lparr>is_active := False, linked := True\<rparr>), rules := rules s @ [r]\<rparr>)"
proof -
  let ?rule = "rule\<lparr>is_active := False\<rparr>" and ?new = "rule\<lparr>is_active := False, linked := True\<rparr>"
  let ?m = "s\<lparr>rule_heap := (rule_heap s)(r \<mapsto> ?rule)\<rparr>"
  let ?s = "s\<lparr>rule_heap := (rule_heap s)(r \<mapsto> ?new), rules := rules s @ [r]\<rparr>"
  have "wf_engine ?m" using wf_upd_rule [OF wf r(1), of ?rule] by simp
  then have m: "heap_bounded ?m" "listeners_ok ?m" "conds_ok ?m" "rules_ok ?m" "types_ok ?m"
    by (simp_all add: wf_engine_def)
  have "conds_ok ?s"
    unfolding conds_ok_def
  proof (intro allI impI)
    fix c x
    assume "cond_heap ?s c = Some x"
    then have "cond_heap s c = Some x" by simp
    then obtain q rule' where "ct_event (c_type x) < length (events s)"
          "c \<in> set (listeners (events s ! ct_event (c_type x)))"
          "c_rule x = Some q" "rule_heap s q = Some rule'" "c \<in> set (conditions rule')"
      by (rule wf_condition [OF wf])
    with r(1) show "ct_event (c_type x) < length (events ?s) \<and> c \<in> set (listeners (events ?s ! ct_event (c_type x))) \<and>
        (\<exists>q rule. c_rule x = Some q \<and> rule_heap ?s q = Some rule \<and> c \<in> set (conditions rule))"
      by (cases "q = r") auto
  qed
  moreover have "rules_ok ?s"
    unfolding rules_ok_def
  proof (intro conjI allI impI)
    show "distinct (rules ?s)" "\<forall>q \<in> set (rules ?s). rule_heap ?s q \<noteq> None"
      using m(4) r by (auto simp: rules_ok_def)
    fix q rule'
    assume q: "rule_heap ?s q = Some rule'"
    show "rule_ok ?s q rule'"
    proof (cases "q = r")
      case True
      have "rule_ok ?m r ?rule" using m(4) by (simp add: rules_ok_def)
      with True q show ?thesis by (auto simp: rule_ok_def)
    next
      case False
      with q m(4) have "rule_ok ?m q rule'" by (simp add: rules_ok_def)
      with False show ?thesis by (auto simp: rule_ok_def)
    qed
  qed
  ultimately show ?thesis
    using m by (auto simp: wf_engine_def heap_bounded_def listeners_ok_def types_ok_def)
qed

lemma values_bump_all: "map_option dv_value (cached_var n (bump_all k ns s)) = map_option dv_value (cached_var n s)"
  by (induction ns arbitrary: s) (simp_all add: cached_var_bump option.map_comp comp_def)

lemma link_run:
  assumes l: "loaded s0 r nm C A U s" and ok: "engine_ok s0" and cached: "all_cached (fn_vars (C @ A @ U)) s0"
  shows "\<exists>s'. add_rule env ops (Some r) s = Ok s' \<and> engine_ok s' \<and> linked_rule s0 r nm C A U s' \<and>
    effects s' = effects s0 \<and> database s' = database s0 \<and> (\<forall>n. is_cached n s' = is_cached n s0) \<and>
    (\<forall>n. map_option dv_value (cached_var n s') = map_option dv_value (cached_var n s0)) \<and>
    condition_types s' = condition_types s0 \<and> action_types s' = action_types s0 \<and> events s' = events s \<and>
    map dv_name (db_vars s') = map dv_name (db_vars s0)"
proof -
  obtain cs where r: "rule_heap s = (rule_heap s0)(r \<mapsto> \<lparr>rule_id = Some nm, conditions = cs,
              actions = map (mk_action s0) A, undos = map (mk_action s0) U, is_active = False, linked = False\<rparr>)"
      (is "_ = (rule_heap s0)(r \<mapsto> ?rule)")
    and cs: "map (cond_heap s) cs = map (\<lambda>f. Some (mk_condition s0 r f)) C"
      "\<forall>c. c \<notin> set cs \<longrightarrow> cond_heap s c = cond_heap s0 c" "\<forall>c \<in> set cs. cond_heap s0 c = None"
    and wf: "wf_engine s" and rest: "same_rest s0 s" "r \<notin> set (rules s0)" "rule_heap s0 r = None"
    using l by (auto simp: loaded_def)
  have s0: "wf_engine s0" "complete s0" "refs_ok s0" using ok by (simp_all add: engine_ok_def)
  let ?new = "?rule\<lparr>is_active := False, linked := True\<rparr>"
  let ?s = "s\<lparr>rule_heap := (rule_heap s)(r \<mapsto> ?new), rules := rules s @ [r]\<rparr>"
  have heap: "rule_heap s r = Some ?rule" by (simp add: r)
  have out: "r \<notin> set (rules s)" using rest by (simp add: same_rest_def)
  have wf': "wf_engine ?s" by (rule wf_link [OF wf heap out])
  have vars: "rule_vars ?s ?new = fn_vars (C @ A @ U)"
    using fn_vars_conditions [of ?s cs s0 r C] cs(1) by (simp add: rule_vars_def fn_vars_actions del: map_map)
  have db: "db_vars ?s = db_vars s0" using rest by (simp add: same_rest_def)
  have cached': "all_cached (fn_vars (C @ A @ U)) ?s"
    using cached is_cached_db_vars [OF db] by (simp add: all_cached_def)
  let ?t = "bump_all 1 (fn_vars (C @ A @ U)) ?s"
  have "change_variable_refs env ops 1 r ?s = Ok ?t"
  proof -
    have "\<forall>c \<in> set (conditions ?new). cond_heap ?s c \<noteq> None"
      using wf_conditions_live [OF wf', of r ?new] by fastforce
    then show ?thesis using change_refs_run [of ?s r ?new env ops 1] cached' unfolding vars by simp
  qed
  then have run: "add_rule env ops (Some r) s = Ok ?t"
    by (simp add: add_rule_def upd_rule_def heap inc_variable_refs_def)
  have old_vars: "rule_vars ?s rule' = rule_vars s0 rule'" if q: "rule_heap s0 q = Some rule'" for q rule'
  proof -
    have "cond_vars ?s c = cond_vars s0 c" if c: "c \<in> set (conditions rule')" for c
    proof -
      obtain cond where "cond_heap s0 c = Some cond" using wf_conditions_live [OF s0(1) q c] by blast
      then have "c \<notin> set cs" using cs(3) by auto
      with cs(2) show ?thesis by (simp add: cond_vars_def)
    qed
    then have "map (cond_vars ?s) (conditions rule') = map (cond_vars s0) (conditions rule')" by simp
    then show ?thesis by (simp only: rule_vars_def)
  qed
  have uses_old: "uses ?t n q = uses s0 n q" if q: "q \<in> set (rules s0)" for n q
  proof -
    obtain rule' where rule': "rule_heap s0 q = Some rule'" using wf_rule_in_list [OF s0(1) q] by blast
    moreover have "q \<noteq> r" using q rest(2) by auto
    moreover have "rule_vars ?t rule' = rule_vars ?s rule'" by (rule rule_vars_cong) simp
    ultimately show ?thesis using old_vars [OF rule'] by (simp add: uses_def r)
  qed
  have uses_new: "uses ?t n r = count_list (fn_vars (C @ A @ U)) n" for n
    using vars rule_vars_cong [of ?t ?s ?new] by (simp add: uses_def r)
  have "ref_of n ?t = int (sum_list (map (uses ?t n) (rules ?t)))" for n
  proof -
    have "ref_of n ?t = ref_of n s0 + int (count_list (fn_vars (C @ A @ U)) n)"
      using ref_of_bump_all [OF cached', of n 1] ref_of_db_vars [OF db, of n] by simp
    also have "\<dots> = int (sum_list (map (uses s0 n) (rules s0)) + uses ?t n r)"
      using s0(3) uses_new by (simp add: refs_ok_def)
    also have "\<dots> = int (sum_list (map (uses ?t n) (rules ?t)))"
      using uses_old rest(1) by (simp add: same_rest_def cong: map_cong)
    finally show ?thesis .
  qed
  moreover have "all_cached (rule_vars ?t rule') ?t"
    if "q \<in> set (rules ?t)" "rule_heap ?t q = Some rule'" for q rule'
  proof (cases "q = r")
    case True
    with that(2) have "rule' = ?new" by (simp add: r)
    with vars rule_vars_cong [of ?t ?s ?new] cached' show ?thesis by simp
  next
    case False
    with that rest(1) have q: "q \<in> set (rules s0)" "rule_heap s0 q = Some rule'"
      by (auto simp: r same_rest_def)
    then have "all_cached (rule_vars s0 rule') s0" using s0(3) by (auto simp: refs_ok_def)
    then have "all_cached (rule_vars s0 rule') ?s" using is_cached_db_vars [OF db] by (simp add: all_cached_def)
    with old_vars [OF q(2)] rule_vars_cong [of ?t ?s rule'] show ?thesis by simp
  qed
  ultimately have "refs_ok ?t" by (auto simp: refs_ok_def)
  moreover have "complete ?t" using s0(2) by (auto simp: complete_def r split: if_splits)
  moreover have "linked_rule s0 r nm C A U ?t"
    unfolding linked_rule_def using cs rest(1) by (intro conjI exI [of _ cs]) (simp_all add: r same_rest_def)
  moreover have "is_cached n ?t = is_cached n s0" for n
    using is_cached_db_vars [OF db] by (simp add: bump_all_def vc.has_fold)
  moreover have "map_option dv_value (cached_var n ?t) = map_option dv_value (cached_var n s0)" for n
    using db by (simp only: values_bump_all) (simp add: cached_var_def)
  moreover have "map dv_name (db_vars ?t) = map dv_name (db_vars s0)" using db by (simp only: names_bump_all)
  ultimately show ?thesis using run wf' rest(1) by (simp add: engine_ok_def same_rest_def)
qed

lemma drop_loaded:
  assumes l: "loaded s0 r nm C A U s" and ok: "engine_ok s0"
  shows "\<exists>n. delete_rule env ops r s = Ok (s0\<lparr>next_addr := n\<rparr>) \<and> engine_ok (s0\<lparr>next_addr := n\<rparr>)"
proof -
  obtain cs where r: "rule_heap s = (rule_heap s0)(r \<mapsto> \<lparr>rule_id = Some nm, conditions = cs,
              actions = map (mk_action s0) A, undos = map (mk_action s0) U, is_active = False, linked = False\<rparr>)"
      (is "_ = (rule_heap s0)(r \<mapsto> ?rule)")
    and cs: "\<forall>c. c \<notin> set cs \<longrightarrow> cond_heap s c = cond_heap s0 c" "\<forall>c \<in> set cs. cond_heap s0 c = None"
      "map (unlisten (set cs)) (events s) = events s0"
    and wf: "wf_engine s" and rest: "same_rest s0 s" "r \<notin> set (rules s0)" "rule_heap s0 r = None"
    using l by (auto simp: loaded_def)
  have heap: "rule_heap s r = Some ?rule" by (simp add: r)
  have "delete_rule env ops r s = Ok (drop_rule r ?rule s)"
    using delete_rule_run [OF wf heap] by simp
  moreover have undone: "drop_rule r ?rule s = s0\<lparr>next_addr := next_addr s\<rparr>"
  proof -
    have "cond_heap s |` (- set cs) = cond_heap s0"
      using cs(1,2) by (auto simp: restrict_map_def)
    moreover have "(rule_heap s)(r := None) = rule_heap s0" using rest(3) by (auto simp: r)
    ultimately show ?thesis
      using rest(1,2) cs(3) by (simp add: drop_rule_def without_conditions_def same_rest_def remove_first_remove1 remove1_idem)
  qed
  moreover have "engine_ok (s0\<lparr>next_addr := next_addr s\<rparr>)"
  proof -
    have "wf_engine (s0\<lparr>next_addr := next_addr s\<rparr>)" using wf_drop_rule [OF wf heap] undone by simp
    moreover have "complete (s0\<lparr>next_addr := next_addr s\<rparr>)" using ok by (simp add: engine_ok_def complete_def)
    moreover have "refs_ok (s0\<lparr>next_addr := next_addr s\<rparr>)"
      using ok refs_ok_cong [of "s0\<lparr>next_addr := next_addr s\<rparr>" s0] by (simp add: engine_ok_def)
    ultimately show ?thesis by (simp add: engine_ok_def)
  qed
  ultimately show ?thesis by auto
qed


subsection \<open>The whole of \<open>apply_rule\<close>\<close>

text \<open>The verdict on a rule, read off the functions it is written with.\<close>

definition fn_kinds :: "'d xstate \<Rightarrow> fn \<Rightarrow> arg_type list" where
  "fn_kinds s f = map (arg_kind s) (map conv_fn_arg (fn_args f))"

definition verdict :: "'d xstate \<Rightarrow> string \<Rightarrow> fn list \<Rightarrow> fn list \<Rightarrow> fn list \<Rightarrow> nat" where
  "verdict s nm C A U =
     (if nm = [] then NO_NAME
      else if \<exists>q \<in> set (rules s). rule_named s nm q then NAME_COLLISION
      else if C = [] then NO_CONDITIONS
      else if A = [] \<and> U = [] then NO_ACTIONS
      else if (\<forall>f \<in> set C. ct_prototype (the (lookup_condition_type (fn_name f) s)) = signature (fn_kinds s f)) \<and>
              (\<forall>f \<in> set (A @ U). at_prototype (the (lookup_action_type (fn_name f) s)) = signature (fn_kinds s f))
      then RULE_VALID else BAD_PROTO)"

lemma arg_kind_db_vars: "db_vars t = db_vars s \<Longrightarrow> arg_kind t = arg_kind s"
  by (rule ext) (simp add: arg_kind_def cached_var_def split: arg.splits)

lemma loaded_verdict:
  assumes l: "loaded s0 r nm C A U s" and heap: "rule_heap s r = Some rule"
  shows "validation_code s rule = verdict s0 nm C A U"
proof -
  obtain cs where r: "rule_heap s = (rule_heap s0)(r \<mapsto> \<lparr>rule_id = Some nm, conditions = cs,
              actions = map (mk_action s0) A, undos = map (mk_action s0) U, is_active = False, linked = False\<rparr>)"
      (is "_ = (rule_heap s0)(r \<mapsto> ?rule)")
    and cs: "map (cond_heap s) cs = map (\<lambda>f. Some (mk_condition s0 r f)) C"
    and rest: "same_rest s0 s" "r \<notin> set (rules s0)"
    using l by (auto simp: loaded_def)
  have rule: "rule = ?rule" using heap by (simp add: r)
  have kind: "arg_kind s = arg_kind s0" using rest by (intro arg_kind_db_vars) (simp add: same_rest_def)
  have named: "(\<exists>q \<in> set (rules s). rule_named s nm q) = (\<exists>q \<in> set (rules s0). rule_named s0 nm q)"
    using rest by (auto simp: rule_named_def r same_rest_def)
  have empty: "(cs = []) = (C = [])" using arg_cong [OF cs, of length] by auto
  have "(\<forall>c \<in> set cs. cond_matches s c) =
      (\<forall>x \<in> set (map (cond_heap s) cs). \<exists>cond. x = Some cond \<and>
         ct_prototype (c_type cond) = signature (map (arg_kind s) (c_args cond)))"
    by (simp add: cond_matches_def)
  also have "\<dots> = (\<forall>f \<in> set C. ct_prototype (the (lookup_condition_type (fn_name f) s0)) = signature (fn_kinds s0 f))"
    by (simp add: cs mk_condition_def fn_kinds_def kind)
  finally have conds: "(\<forall>c \<in> set cs. cond_matches s c) = \<dots>" .
  have acts: "(\<forall>a \<in> set (map (mk_action s0) A @ map (mk_action s0) U). action_matches s a) =
      (\<forall>f \<in> set (A @ U). at_prototype (the (lookup_action_type (fn_name f) s0)) = signature (fn_kinds s0 f))"
    by (simp add: ball_Un action_matches_def mk_action_def fn_kinds_def kind)
  show ?thesis
    unfolding validation_code_def verdict_def rule using named empty conds acts by simp
qed

lemma apply_rule_run:
  assumes ok: "engine_ok s" and cached: "all_cached (fn_vars (C @ A @ U)) s"
  defines "C' \<equiv> filter (known_condition s) C" and "A' \<equiv> filter (known_action s) A"
    and "U' \<equiv> filter (known_action s) U"
  shows "\<exists>code err' s'. apply_rule env ops (Some nm) C A U err s = Ok (code, err', s') \<and> engine_ok s' \<and>
    effects s' = effects s \<and> database s' = database s \<and>
    (if verdict s nm C' A' U' = RULE_VALID
     then linked_rule s (next_addr s) nm C' A' U' s' \<and>
       code = ((if missing_code s C A U \<noteq> 0 then RECOVERABLE_ERROR else NO_PARSE_ERROR) OR missing_code s C A U OR RULE_VALID)
     else (\<exists>n. s' = s\<lparr>next_addr := n\<rparr>) \<and> code = missing_code s C A U OR verdict s nm C' A' U')"
proof -
  obtain s1 where new: "new_rule (Some nm) s = (next_addr s, s1)" by (simp add: new_rule_def)
  have wf: "wf_engine s" using ok by (simp add: engine_ok_def)
  obtain err1 s2 where build: "build_rule (next_addr s) C A U ((0, err), s1) = Ok ((missing_code s C A U, err1), s2)"
    and l: "loaded s (next_addr s) nm C' A' U' s2"
    using build_rule_run [OF loaded_new_rule [OF wf new], of C A U err] by (auto simp: C'_def A'_def U'_def)
  have cached': "all_cached (fn_vars (C' @ A' @ U')) s"
    using cached fn_vars_filter by (auto simp: all_cached_def C'_def A'_def U'_def)
  obtain cs where heap: "rule_heap s2 (next_addr s) = Some \<lparr>rule_id = Some nm, conditions = cs,
        actions = map (mk_action s) A', undos = map (mk_action s) U', is_active = False, linked = False\<rparr>"
      (is "_ = Some ?rule")
    and cs: "map (cond_heap s2) cs = map (\<lambda>f. Some (mk_condition s (next_addr s) f)) C'"
    and rest: "wf_engine s2" "same_rest s s2"
    using l by (auto simp: loaded_def)
  have "rule_vars s2 ?rule = fn_vars (C' @ A' @ U')"
    using fn_vars_conditions [OF cs] by (simp add: rule_vars_def fn_vars_actions del: map_map)
  then have "all_cached (rule_vars s2 ?rule) s2"
    using cached' rest(2) is_cached_db_vars [of s2 s] by (simp add: all_cached_def same_rest_def)
  then obtain err2 where valid: "validate_rule env ops (next_addr s) err1 s2 = Ok (verdict s nm C' A' U', err2, s2)"
    using validate_rule_run [OF rest(1) heap, of env ops err1] loaded_verdict [OF l heap] by auto
  obtain s3 where s3: "add_rule env ops (Some (next_addr s)) s2 = Ok s3" "engine_ok s3"
      "linked_rule s (next_addr s) nm C' A' U' s3" "effects s3 = effects s" "database s3 = database s"
    using link_run [OF l ok cached', of env ops] by blast
  obtain n where n: "delete_rule env ops (next_addr s) s2 = Ok (s\<lparr>next_addr := n\<rparr>)" "engine_ok (s\<lparr>next_addr := n\<rparr>)"
    using drop_loaded [OF l ok, of env ops] by blast
  show ?thesis
    by (cases "verdict s nm C' A' U' = RULE_VALID")
      (use s3 n in \<open>auto simp: apply_rule_def new build valid\<close>)
qed

text \<open>
  C5. \<open>apply_rule\<close> in full. In a consistent engine, with the variables of the rule cached,
  it returns; functions of unregistered types are left out, the rest is judged by
  \<open>verdict\<close>. A valid rule ends up linked at the tail of the rule list, inactive, with one
  condition per known condition function (inverted when written so) and the arguments of the
  text; any other rule disappears without a trace. In both cases the engine is consistent
  afterwards: listeners, rules and reference counts agree, no action has run and the database
  is untouched. The code combines the verdict with the omitted functions.
\<close>

theorem apply_rule_spec:
  assumes "engine_ok s" and "all_cached (fn_vars (C @ A @ U)) s"
  shows "\<exists>code err' s'. apply_rule env ops (Some nm) C A U err s = Ok (code, err', s') \<and> engine_ok s' \<and>
    effects s' = effects s \<and> database s' = database s \<and>
    (let C' = filter (known_condition s) C; A' = filter (known_action s) A; U' = filter (known_action s) U;
         bad = missing_code s C A U
     in if verdict s nm C' A' U' = RULE_VALID
        then linked_rule s (next_addr s) nm C' A' U' s' \<and>
          code = ((if bad \<noteq> 0 then RECOVERABLE_ERROR else NO_PARSE_ERROR) OR bad OR RULE_VALID)
        else (\<exists>n. s' = s\<lparr>next_addr := n\<rparr>) \<and> code = bad OR verdict s nm C' A' U')"
  unfolding Let_def by (rule apply_rule_run [OF assms])

definition demo_type :: condition_type where
  "demo_type = \<lparr>ct_name = ''overTemp'', ct_check = ''over_temp'', ct_prototype = ''i'',
     ct_pretty_prototype = ''int limit'', ct_event = 0\<rparr>"

definition demo_action :: action_type where
  "demo_action = \<lparr>at_name = ''logString'', at_action = ''log_string'', at_prototype = ''s'',
     at_pretty_prototype = ''string string_to_log''\<rparr>"

definition demo_state :: "(string \<Rightarrow> string option) xstate" where
  "demo_state = empty_state\<lparr>events := [\<lparr>ev_name = ''temp'', is_stateless = False, listeners = [],
       value_type = ARG_INT, reset_value = Arg_Int 0, ev_value = Arg_Int 0\<rparr>],
     condition_types := [demo_type], action_types := [demo_action]\<rparr>"

lemma demo_state_ok: "engine_ok demo_state"
  by (simp add: engine_ok_def wf_parts complete_def refs_ok_def ref_of_def cached_var_def demo_state_def
      empty_state_def demo_type_def)

theorem apply_rule_spec_witness:
  "\<exists>code err' s'. apply_rule map_env no_ops (Some ''hot'')
      [\<lparr>fn_name = ''overTemp'', fn_args = [FA_Int 90], fn_undo = True\<rparr>]
      [\<lparr>fn_name = ''logString'', fn_args = [FA_Str ''hot''], fn_undo = True\<rparr>,
       \<lparr>fn_name = ''noSuchAction'', fn_args = [], fn_undo = True\<rparr>] [] None demo_state = Ok (code, err', s') \<and>
    rules s' = [0] \<and> code = 0x721"
proof -
  let ?c = "\<lparr>fn_name = ''overTemp'', fn_args = [FA_Int 90], fn_undo = True\<rparr>"
  let ?a = "\<lparr>fn_name = ''logString'', fn_args = [FA_Str ''hot''], fn_undo = True\<rparr>"
  let ?b = "\<lparr>fn_name = ''noSuchAction'', fn_args = [], fn_undo = True\<rparr>"
  have known: "known_condition demo_state ?c" "known_action demo_state ?a" "\<not> known_action demo_state ?b"
    by (simp_all add: known_condition_def known_action_def lookup_condition_type_def lookup_action_type_def
        demo_state_def demo_type_def demo_action_def)
  have "verdict demo_state ''hot'' [?c] [?a] [] = RULE_VALID"
    by (simp add: verdict_def lookup_condition_type_def lookup_action_type_def fn_kinds_def arg_kind_def
        demo_state_def empty_state_def demo_type_def demo_action_def)
  moreover have "missing_code demo_state [?c] [?a, ?b] [] = BAD_ACTION"
    using known by (simp add: missing_code_def missing_def)
  moreover have "rules demo_state = []" "next_addr demo_state = 0"
    by (simp_all add: demo_state_def empty_state_def)
  ultimately show ?thesis
    using apply_rule_spec [OF demo_state_ok, of "[?c]" "[?a, ?b]" "[]" map_env no_ops "''hot''" None] known
    by (force simp: Let_def linked_rule_def)
qed

end
