(* ===== verification/Policy_Types.thy ===== *)
theory Policy_Types
  imports Load_Rule
begin

text \<open>
  The types of a loaded policy. Validation compares the arguments of a condition or an action
  with the prototype of its type when the rule is added; a checker or an action function
  later reads its arguments without looking. \<open>well_typed\<close> says that this is safe: every
  condition and every action of the engine is of a registered type, and its arguments, with
  variables resolved, still have the types of the prototype. Every operation on the policy
  keeps it: rules are validated before they are linked, a variable never changes its type,
  and a variable in use cannot be deleted.
\<close>

definition typed_condition :: "'d xstate \<Rightarrow> condition \<Rightarrow> bool" where
  "typed_condition s x \<longleftrightarrow> c_type x \<in> set (condition_types s) \<and>
     ct_prototype (c_type x) = signature (map (arg_kind s) (c_args x))"

definition typed_action :: "'d xstate \<Rightarrow> action \<Rightarrow> bool" where
  "typed_action s a \<longleftrightarrow> a_type a \<in> set (action_types s) \<and>
     at_prototype (a_type a) = signature (map (arg_kind s) (a_args a))"

definition well_typed :: "'d xstate \<Rightarrow> bool" where
  "well_typed s \<longleftrightarrow>
     (\<forall>c x. cond_heap s c = Some x \<longrightarrow> typed_condition s x) \<and>
     (\<forall>r rule. rule_heap s r = Some rule \<longrightarrow> (\<forall>a \<in> set (actions rule @ undos rule). typed_action s a))"

definition var_type :: "string \<Rightarrow> 'd xstate \<Rightarrow> arg_type option" where
  "var_type n s = map_option (\<lambda>v. arg_type_of (dv_value v)) (cached_var n s)"

lemma var_type_value:
  "map_option dv_value (cached_var n t) = map_option dv_value (cached_var n s) \<Longrightarrow> var_type n t = var_type n s"
  by (cases "cached_var n s"; cases "cached_var n t") (auto simp: var_type_def)

lemma arg_kinds_cong:
  assumes "\<forall>n \<in> set (arg_vars as). var_type n t = var_type n s"
  shows "map (arg_kind t) as = map (arg_kind s) as"
  using assms
proof (induction as rule: arg_vars.induct)
  case (2 v as)
  then have "var_type v t = var_type v s" by simp
  then have "arg_kind t (Arg_Var v) = arg_kind s (Arg_Var v)"
    by (auto simp: arg_kind_def var_type_def split: option.splits)
  with 2 show ?case by simp
qed (simp_all add: arg_kind_def)

subsection \<open>What the operations keep\<close>

text \<open>
  An operation that leaves the live conditions and rules of the new state as they were, and
  the types of the variables in use, keeps the policy well typed.
\<close>

lemma condition_vars_used:
  assumes "engine_ok s" and "cond_heap s c = Some x"
  shows "\<exists>r rule. r \<in> set (rules s) \<and> rule_heap s r = Some rule \<and> set (arg_vars (c_args x)) \<subseteq> set (rule_vars s rule)"
proof -
  have wf: "wf_engine s" and comp: "complete s" using assms(1) by (simp_all add: engine_ok_def)
  obtain r rule where r: "rule_heap s r = Some rule" "c \<in> set (conditions rule)"
    using wf_condition [OF wf assms(2)] by blast
  then have "linked rule" "rule_ok s r rule" using comp wf by (auto simp: complete_def wf_engine_def rules_ok_def)
  then have "r \<in> set (rules s)" by (simp add: rule_ok_def)
  moreover have "set (arg_vars (c_args x)) \<subseteq> set (rule_vars s rule)"
    using r(2) assms(2) by (force simp: rule_vars_def cond_vars_def)
  ultimately show ?thesis using r(1) by blast
qed

lemma action_vars_used:
  assumes "engine_ok s" and "rule_heap s r = Some rule" and "a \<in> set (actions rule @ undos rule)"
  shows "r \<in> set (rules s) \<and> set (arg_vars (a_args a)) \<subseteq> set (rule_vars s rule)"
proof -
  have "linked rule" "rule_ok s r rule"
    using assms(1,2) by (auto simp: engine_ok_def complete_def wf_engine_def rules_ok_def)
  with assms(3) show ?thesis by (auto simp: rule_ok_def rule_vars_def)
qed

definition used :: "string \<Rightarrow> 'd xstate \<Rightarrow> bool" where
  "used n s \<longleftrightarrow> (\<exists>r rule. r \<in> set (rules s) \<and> rule_heap s r = Some rule \<and> n \<in> set (rule_vars s rule))"

lemma well_typed_step:
  assumes typed: "well_typed s" and ok: "engine_ok s"
    and conds: "\<And>c x. cond_heap t c = Some x \<Longrightarrow>
      (\<exists>y. cond_heap s c = Some y \<and> c_type x = c_type y \<and> c_args x = c_args y) \<or> typed_condition t x"
    and rules: "\<And>r x a. rule_heap t r = Some x \<Longrightarrow> a \<in> set (actions x @ undos x) \<Longrightarrow>
      (\<exists>y. rule_heap s r = Some y \<and> a \<in> set (actions y @ undos y)) \<or> typed_action t a"
    and types: "condition_types t = condition_types s" "action_types t = action_types s"
    and vars: "\<And>n. used n s \<Longrightarrow> var_type n t = var_type n s"
  shows "well_typed t"
  unfolding well_typed_def
proof (intro conjI allI impI ballI)
  fix c x
  assume x: "cond_heap t c = Some x"
  from conds [OF x] show "typed_condition t x"
  proof
    assume "\<exists>y. cond_heap s c = Some y \<and> c_type x = c_type y \<and> c_args x = c_args y"
    then obtain y where y: "cond_heap s c = Some y" "c_type x = c_type y" "c_args x = c_args y" by blast
    have "map (arg_kind t) (c_args y) = map (arg_kind s) (c_args y)"
      using condition_vars_used [OF ok y(1)] vars by (intro arg_kinds_cong) (auto simp: used_def)
    moreover have "typed_condition s y" using typed y(1) unfolding well_typed_def by blast
    ultimately show ?thesis using y(2,3) types by (simp add: typed_condition_def del: map_eq_conv)
  qed
next
  fix r x a
  assume x: "rule_heap t r = Some x" and a: "a \<in> set (actions x @ undos x)"
  from rules [OF x a] show "typed_action t a"
  proof
    assume "\<exists>y. rule_heap s r = Some y \<and> a \<in> set (actions y @ undos y)"
    then obtain y where y: "rule_heap s r = Some y" "a \<in> set (actions y @ undos y)" by blast
    have "map (arg_kind t) (a_args a) = map (arg_kind s) (a_args a)"
      using action_vars_used [OF ok y] y(1) vars by (intro arg_kinds_cong) (auto simp: used_def)
    moreover have "typed_action s a" using typed y unfolding well_typed_def by blast
    ultimately show ?thesis using types by (simp add: typed_action_def del: map_eq_conv)
  qed
qed

lemma used_cached: "engine_ok s \<Longrightarrow> used n s \<Longrightarrow> is_cached n s"
  by (fastforce simp: used_def engine_ok_def refs_ok_def all_cached_def)

lemma used_counted:
  assumes "engine_ok s" and "used n s"
  shows "ref_of n s > 0"
proof -
  obtain r rule where r: "r \<in> set (rules s)" "rule_heap s r = Some rule" "n \<in> set (rule_vars s rule)"
    using assms(2) by (auto simp: used_def)
  then have "uses s n r > 0" using count_list_0_iff [of "rule_vars s rule" n] by (simp add: uses_def)
  moreover have "uses s n r \<le> sum_list (map (uses s n) (rules s))" using r(1) by (auto intro: member_le_sum_list)
  moreover have "ref_of n s = int (sum_list (map (uses s n) (rules s)))"
    using assms(1) by (simp add: engine_ok_def refs_ok_def)
  ultimately show ?thesis by linarith
qed


lemma known_type_in:
  "known_condition s f \<Longrightarrow> the (lookup_condition_type (fn_name f) s) \<in> set (condition_types s)"
  "known_action s f \<Longrightarrow> the (lookup_action_type (fn_name f) s) \<in> set (action_types s)"
  by (auto simp: known_condition_def known_action_def lookup_condition_type_def lookup_action_type_def find_first_Some_in)

lemma linked_typed:
  assumes typed: "well_typed s" and ok: "engine_ok s" and l: "linked_rule s r nm C A U s'"
    and valid: "verdict s nm C A U = RULE_VALID"
    and known: "\<forall>f \<in> set C. known_condition s f" "\<forall>f \<in> set (A @ U). known_action s f"
    and vals: "\<forall>n. map_option dv_value (cached_var n s') = map_option dv_value (cached_var n s)"
    and types: "condition_types s' = condition_types s" "action_types s' = action_types s"
  shows "well_typed s'"
proof -
  obtain cs where heap: "rule_heap s' = (rule_heap s)(r \<mapsto> \<lparr>rule_id = Some nm, conditions = cs,
              actions = map (mk_action s) A, undos = map (mk_action s) U, is_active = False, linked = True\<rparr>)"
    and cs: "map (cond_heap s') cs = map (\<lambda>f. Some (mk_condition s r f)) C"
      "\<forall>c. c \<notin> set cs \<longrightarrow> cond_heap s' c = cond_heap s c"
    using l by (auto simp: linked_rule_def)
  have kinds: "map (arg_kind s') as = map (arg_kind s) as" for as
    using vals by (intro arg_kinds_cong ballI var_type_value) simp
  have protos: "\<forall>f \<in> set C. ct_prototype (the (lookup_condition_type (fn_name f) s)) = signature (fn_kinds s f)"
    "\<forall>f \<in> set (A @ U). at_prototype (the (lookup_action_type (fn_name f) s)) = signature (fn_kinds s f)"
    using valid by (auto simp: verdict_def split: if_splits)
  have new_cond: "typed_condition s' (mk_condition s r f)" if "f \<in> set C" for f
    using that known(1) protos(1) types known_type_in(1) [of s f]
    by (simp add: typed_condition_def mk_condition_def fn_kinds_def kinds del: map_map map_eq_conv)
  have new_act: "typed_action s' (mk_action s f)" if "f \<in> set (A @ U)" for f
    using that known(2) protos(2) types known_type_in(2) [of s f]
    by (simp add: typed_action_def mk_action_def fn_kinds_def kinds del: map_map map_eq_conv)
  show ?thesis
  proof (rule well_typed_step [OF typed ok _ _ types])
    fix c x
    assume x: "cond_heap s' c = Some x"
    show "(\<exists>y. cond_heap s c = Some y \<and> c_type x = c_type y \<and> c_args x = c_args y) \<or> typed_condition s' x"
    proof (cases "c \<in> set cs")
      case True
      then have "Some x \<in> set (map (cond_heap s') cs)" using x by force
      then show ?thesis unfolding cs(1) using new_cond by auto
    next
      case False
      with cs(2) x show ?thesis by auto
    qed
  next
    fix q x a
    assume "rule_heap s' q = Some x" "a \<in> set (actions x @ undos x)"
    then show "(\<exists>y. rule_heap s q = Some y \<and> a \<in> set (actions y @ undos y)) \<or> typed_action s' a"
      using new_act by (cases "q = r") (auto simp: heap)
  next
    show "var_type n s' = var_type n s" for n using vals by (intro var_type_value) simp
  qed
qed

text \<open>Removing rules and unused variables.\<close>

lemma well_typed_frame:
  assumes "well_typed s" and "engine_ok s"
    and "cond_heap t = cond_heap s" "rule_heap t = rule_heap s"
    and "condition_types t = condition_types s" "action_types t = action_types s"
    and "\<And>n. used n s \<Longrightarrow> var_type n t = var_type n s"
  shows "well_typed t"
  by (rule well_typed_step [OF assms(1,2) _ _ assms(5-7)]) (auto simp: assms(3,4))

lemma delete_rule_typed:
  assumes "engine_ok s" and "well_typed s" and "r \<in> set (rules s)"
  shows "\<exists>s'. delete_rule env ops r s = Ok s' \<and> engine_ok s' \<and> well_typed s'"
proof -
  obtain rule s' where s': "delete_rule env ops r s = Ok s'" "engine_ok s'"
      "s' = drop_rule r rule (bump_all (- 1) (rule_vars s rule) s)"
    using delete_linked [OF assms(1,3), of env ops] by blast
  have "well_typed s'"
  proof (rule well_typed_step [OF assms(2,1)])
    show "var_type n s' = var_type n s" for n
      unfolding s'(3) by (intro var_type_value) (simp add: cached_var_def [of _ "drop_rule r rule t" for r rule t], simp add: cached_var_def [symmetric] values_bump_all)
  qed (auto simp: s'(3) restrict_map_def split: if_splits)
  with s' show ?thesis by blast
qed

lemma engine_ok_vars:
  assumes "engine_ok s" and "cond_heap t = cond_heap s" "rule_heap t = rule_heap s" "rules t = rules s"
    and "wf_engine t" "complete t" "\<And>m. ref_of m t = ref_of m s" "\<And>m. used m s \<Longrightarrow> is_cached m t"
  shows "engine_ok t"
proof -
  have "uses t = uses s"
    by (intro ext) (simp add: uses_def assms rule_vars_cong [OF assms(2)] split: option.splits)
  moreover have "refs_ok s" using assms(1) by (simp add: engine_ok_def)
  ultimately have "refs_ok t"
    using assms(3-8) by (auto simp: refs_ok_def rule_vars_cong [OF assms(2)] all_cached_def used_def)
  with assms(5,6) show ?thesis by (simp add: engine_ok_def)
qed

lemma delete_var_typed:
  assumes "engine_ok s" and "well_typed s" and "vars_distinct s"
  shows "engine_ok (snd (delete_var env n s)) \<and> well_typed (snd (delete_var env n s))"
proof (cases "\<exists>v. cached_var n s = Some v \<and> ref_count v \<le> 0")
  case False
  then have "snd (delete_var env n s) = s"
    by (auto simp: delete_var_def uncache_db_var_def split: option.splits)
  with assms show ?thesis by simp
next
  case True
  then obtain v where v: "cached_var n s = Some v" "ref_count v \<le> 0" by blast
  let ?t = "delete_db_var env n (s\<lparr>db_vars := remove_first v (db_vars s)\<rparr>)"
  have del: "snd (delete_var env n s) = ?t" using v by (simp add: delete_var_def uncache_db_var_def)
  have gone: "cached_var m ?t = (if m = n then None else cached_var m s)" for m
    using cached_var_remove [of "db_vars s" n v m] assms(3) v
    by (simp add: cached_var_def vars_distinct_def delete_db_var_def)
  have unused: "\<not> used n s" using used_counted [OF assms(1), of n] v by (auto simp: ref_of_def)
  have zero: "ref_of n s = 0"
  proof -
    have "0 \<le> ref_of n s" using assms(1) by (simp add: engine_ok_def refs_ok_def)
    with v show ?thesis by (simp add: ref_of_def)
  qed
  have "engine_ok ?t"
  proof (rule engine_ok_vars [OF assms(1)])
    show "wf_engine ?t" "complete ?t" using assms(1) by (simp_all add: delete_db_var_def engine_ok_def)
    show "ref_of m ?t = ref_of m s" for m using zero by (simp add: ref_of_def gone)
    show "is_cached m ?t" if "used m s" for m
      using used_cached [OF assms(1) that] unused that by (auto simp: is_cached_def gone)
  qed (simp_all add: delete_db_var_def)
  moreover have "well_typed ?t"
  proof (rule well_typed_frame [OF assms(2,1)])
    show "var_type m ?t = var_type m s" if "used m s" for m
      using that unused by (cases "m = n") (simp_all add: var_type_def gone)
  qed (simp_all add: delete_db_var_def)
  ultimately show ?thesis by (simp add: del)
qed

text \<open>Defining variables.\<close>

lemma add_var_typed:
  assumes ok: "engine_ok s" and typed: "well_typed s" and set: "settled env n s"
    and run: "add_var env ops n a err s = Ok (r, err', s')"
  shows "engine_ok s' \<and> well_typed s' \<and> (\<forall>m. m \<noteq> n \<longrightarrow> cached_var m s' = cached_var m s) \<and>
    (cached_var n s \<noteq> None \<longrightarrow> var_type n s' = var_type n s)"
proof (cases r)
  case None
  have "s' = s"
  proof (cases "cached_var n s")
    case (Some v)
    with run None show ?thesis by (auto simp: add_var_def Let_def split: if_splits)
  next
    case cache: None
    with set have "svc_read env (var_path n) (database s) = None" by (simp add: settled_def)
    with cache run None show ?thesis by (auto simp: add_var_def cache_db_var_def Let_def)
  qed
  with ok typed show ?thesis by simp
next
  case (Some var)
  have keep: "engine_ok s' \<and> well_typed s'"
    if heap: "cond_heap s' = cond_heap s" "rule_heap s' = rule_heap s" "rules s' = rules s" "wf_engine s'" "complete s'"
      "condition_types s' = condition_types s" "action_types s' = action_types s"
    and vars: "\<And>m. ref_of m s' = ref_of m s" "\<And>m. is_cached m s \<Longrightarrow> is_cached m s'"
      "\<And>m. is_cached m s \<Longrightarrow> var_type m s' = var_type m s"
    using engine_ok_vars [OF ok heap(1-5) vars(1)] well_typed_frame [OF typed ok heap(1,2,6,7)] vars(2,3)
      used_cached [OF ok] by blast
  have wf: "wf_engine s" "complete s" using ok by (simp_all add: engine_ok_def)
  from set run [unfolded Some] show ?thesis
  proof (cases rule: add_var_cases)
    case same
    with ok typed show ?thesis by simp
  next
    case (changed old)
    have c: "cached_var m s' = (if m = n then map_option (dv_value_update (\<lambda>_. a)) (cached_var m s) else cached_var m s)" for m
      unfolding changed(4) by (simp add: cached_var_def write_db_var_def find_first_update_first)
    have "engine_ok s' \<and> well_typed s'"
    proof (rule keep)
      show "ref_of m s' = ref_of m s" "is_cached m s \<Longrightarrow> is_cached m s'" "is_cached m s \<Longrightarrow> var_type m s' = var_type m s" for m
        using changed(1,3) by (auto simp: c ref_of_def is_cached_def var_type_def)
    qed (use wf in \<open>simp_all add: changed(4) write_db_var_def\<close>)
    with changed(1,3) show ?thesis by (simp add: c var_type_def)
  next
    case new
    have c: "cached_var m s' = (if m = n then Some var else cached_var m s)" for m
      using new(1,2) unfolding new(3) by (auto simp: cached_var_def write_db_var_def find_first_append split: option.splits)
    have "engine_ok s' \<and> well_typed s'"
    proof (rule keep)
      show "ref_of m s' = ref_of m s" "is_cached m s \<Longrightarrow> is_cached m s'" "is_cached m s \<Longrightarrow> var_type m s' = var_type m s" for m
        using new(1,2) by (auto simp: c ref_of_def is_cached_def var_type_def)
    qed (use wf in \<open>simp_all add: new(3) write_db_var_def\<close>)
    with new(1) show ?thesis by (simp add: c var_type_def)
  qed
qed

end
