(* ===== verification/Policy_Modules.thy ===== *)
theory Policy_Modules
  imports Load_Rule
begin

text \<open>
  Event handling and policy evaluation (\<open>modules.c\<close>): what happens to conditions and rules
  when an event's value has changed. A condition's checker is called through a function
  pointer; the parameter \<open>chk\<close> is that call: it is given the checker's name, the event and
  the condition's arguments.
\<close>

type_synonym 'd checker = "string \<Rightarrow> nat \<Rightarrow> arg list \<Rightarrow> 'd xstate \<Rightarrow> (bool \<times> 'd xstate) outcome"

subsection \<open>Operations\<close>

definition check_listener ::
  "'d checker \<Rightarrow> nat \<Rightarrow> addr \<Rightarrow> addr list \<times> 'd xstate \<Rightarrow> (addr list \<times> 'd xstate) outcome" where
  \<comment> \<open>the body of the first loop of \<open>handle_events\<close>\<close>
  "check_listener chk ev c = (\<lambda>(checklist, s).
     obind (access (cond_heap s) c) (\<lambda>cond.
       obind (chk (ct_check (c_type cond)) ev (c_args cond) s) (\<lambda>(now, s).
         obind (if is_true cond \<noteq> now
                then (case c_rule cond of None \<Rightarrow> Crash Indeterminate_Value | Some r \<Rightarrow> Ok (checklist @ [r]))
                else Ok checklist) (\<lambda>checklist.
           omap (\<lambda>s. (checklist, s)) (upd_cond c (\<lambda>x. x\<lparr>is_true := now\<rparr>) s)))))"

definition undo_changed ::
  "'d env \<Rightarrow> addr \<Rightarrow> (addr \<times> bool \<times> bool) list \<times> 'd xstate \<Rightarrow>
   ((addr \<times> bool \<times> bool) list \<times> 'd xstate) outcome" where
  \<comment> \<open>the body of the second loop; the list holds \<open>rule_was_true\<close> and \<open>rule_is_true\<close>\<close>
  "undo_changed env r = (\<lambda>(seen, s).
     obind (access (rule_heap s) r) (\<lambda>rule.
       obind (evaluate_rule r s) (\<lambda>now.
         omap (\<lambda>s. (seen @ [(r, is_active rule, now)], s))
           (if is_active rule \<and> \<not> now then do_undos env r s else Ok s))))"

definition act_changed :: "'d env \<Rightarrow> nat \<Rightarrow> addr \<times> bool \<times> bool \<Rightarrow> 'd xstate \<Rightarrow> 'd xstate outcome" where
  \<comment> \<open>the body of the third loop\<close>
  "act_changed env ev = (\<lambda>(r, was, now) s.
     obind (if now \<and> \<not> was then do_actions env r s else Ok s) (\<lambda>s.
       if \<not> is_stateless (events s ! ev) then upd_rule r (\<lambda>x. x\<lparr>is_active := now\<rparr>) s else Ok s))"

definition reset_event :: "nat \<Rightarrow> 'd xstate \<Rightarrow> 'd xstate outcome" where
  "reset_event ev s =
     (if is_stateless (events s ! ev)
      then ofold (\<lambda>c. upd_cond c (\<lambda>x. x\<lparr>is_true := False\<rparr>)) (listeners (events s ! ev))
             (s\<lparr>events := (events s)[ev := (events s ! ev)\<lparr>ev_value := reset_value (events s ! ev)\<rparr>]\<rparr>)
      else Ok s)"

definition handle_events :: "'d env \<Rightarrow> 'd checker \<Rightarrow> nat \<Rightarrow> 'd xstate \<Rightarrow> 'd xstate outcome" where
  "handle_events env chk ev s =
     (if ev < length (events s) then
        obind (ofold (check_listener chk ev) (listeners (events s ! ev)) ([], s)) (\<lambda>(checklist, s).
          obind (ofold (undo_changed env) checklist ([], s)) (\<lambda>(seen, s).
            obind (ofold (act_changed env ev) seen s) (reset_event ev)))
      else Crash Null_Deref)"

definition refresh_condition :: "'d checker \<Rightarrow> nat \<Rightarrow> addr \<Rightarrow> 'd xstate \<Rightarrow> 'd xstate outcome" where
  "refresh_condition chk ev c s =
     obind (access (cond_heap s) c) (\<lambda>cond.
       obind (chk (ct_check (c_type cond)) ev (c_args cond) s) (\<lambda>(now, s).
         upd_cond c (\<lambda>x. x\<lparr>is_true := now\<rparr>) s))"

definition refresh_event :: "'d checker \<Rightarrow> nat \<Rightarrow> 'd xstate \<Rightarrow> 'd xstate outcome" where
  "refresh_event chk ev s =
     (if is_stateless (events s ! ev) then Ok s
      else ofold (refresh_condition chk ev) (listeners (events s ! ev)) s)"

definition deactivate :: "'d env \<Rightarrow> addr \<Rightarrow> 'd xstate \<Rightarrow> 'd xstate outcome" where
  "deactivate env r s =
     obind (evaluate_rule r s) (\<lambda>now.
       if \<not> now
       then obind (access (rule_heap s) r) (\<lambda>rule.
              obind (if is_active rule then do_undos env r s else Ok s)
                (upd_rule r (\<lambda>x. x\<lparr>is_active := False\<rparr>)))
       else Ok s)"

definition activate :: "'d env \<Rightarrow> addr \<Rightarrow> 'd xstate \<Rightarrow> 'd xstate outcome" where
  "activate env r s =
     obind (evaluate_rule r s) (\<lambda>now.
       if now then obind (upd_rule r (\<lambda>x. x\<lparr>is_active := True\<rparr>) s) (do_actions env r) else Ok s)"

definition evaluate_policy :: "'d env \<Rightarrow> 'd checker \<Rightarrow> 'd xstate \<Rightarrow> 'd xstate outcome" where
  "evaluate_policy env chk s =
     obind (ofold (refresh_event chk) [0..<length (events s)] s) (\<lambda>s.
       obind (ofold (deactivate env) (rules s) s) (\<lambda>s.
         ofold (activate env) (rules s) s))"

definition policy_exists :: "'d xstate \<Rightarrow> bool" where
  "policy_exists s \<longleftrightarrow> \<not> (rules s = [] \<and> db_vars s = [])"

text \<open>
  Loading a module runs its constructor; \<open>dl\<close> is \<open>dlopen\<close>, which says whether it
  succeeded.
\<close>

fun load_modules :: "(string \<Rightarrow> 's \<Rightarrow> bool \<times> 's) \<Rightarrow> string list \<Rightarrow> 's \<Rightarrow> int \<times> 's" where
  "load_modules dl [] s = (0, s)"
| "load_modules dl (m # ms) s =
     (let (ok, s') = dl m s in if \<not> ok then (- 1, s') else load_modules dl ms s')"

definition module_list :: "string \<Rightarrow> string list" where
  "module_list path = map (append path)
     [''acpi-module.so'', ''vm-actions-module.so'', ''default-actions-module.so'', ''vm-events-module.so'']"

definition init_modules :: "(string \<Rightarrow> 's \<Rightarrow> bool \<times> 's) \<Rightarrow> string \<Rightarrow> 's \<Rightarrow> int \<times> 's" where
  "init_modules dl path = load_modules dl (module_list path)"

subsection \<open>What a round of event handling does\<close>

text \<open>
  The checkers of the theorems answer for the conditions that listen to the event, leave the
  engine alone, and depend on it only through the values of events and variables: their
  answer is a function \<open>g\<close> of the event's value and the condition's arguments.
\<close>

definition pure_checker ::
  "'d checker \<Rightarrow> (string \<Rightarrow> arg \<Rightarrow> arg list \<Rightarrow> bool) \<Rightarrow> nat \<Rightarrow> 'd xstate \<Rightarrow> bool" where
  "pure_checker chk g ev s \<longleftrightarrow>
     (\<forall>c x t. cond_heap s c = Some x \<and> ct_event (c_type x) = ev \<and> events t = events s \<and> db_vars t = db_vars s \<longrightarrow>
        chk (ct_check (c_type x)) ev (c_args x) t =
          Ok (g (ct_check (c_type x)) (ev_value (events s ! ev)) (c_args x), t))"

definition holds_now :: "(string \<Rightarrow> arg \<Rightarrow> arg list \<Rightarrow> bool) \<Rightarrow> nat \<Rightarrow> 'd xstate \<Rightarrow> condition \<Rightarrow> bool" where
  "holds_now g ev s cond = g (ct_check (c_type cond)) (ev_value (events s ! ev)) (c_args cond)"

definition recheck ::
  "(string \<Rightarrow> arg \<Rightarrow> arg list \<Rightarrow> bool) \<Rightarrow> nat \<Rightarrow> addr set \<Rightarrow> 'd xstate \<Rightarrow> 'd xstate" where
  "recheck g ev L s =
     s\<lparr>cond_heap := (\<lambda>c. if c \<in> L then map_option (\<lambda>x. x\<lparr>is_true := holds_now g ev s x\<rparr>) (cond_heap s c)
                           else cond_heap s c)\<rparr>"

definition flipped_rules ::
  "(string \<Rightarrow> arg \<Rightarrow> arg list \<Rightarrow> bool) \<Rightarrow> nat \<Rightarrow> addr list \<Rightarrow> 'd xstate \<Rightarrow> addr list" where
  "flipped_rules g ev cs s =
     concat (map (\<lambda>c. case cond_heap s c of
         Some x \<Rightarrow> if is_true x \<noteq> holds_now g ev s x then (case c_rule x of Some r \<Rightarrow> [r] | None \<Rightarrow> []) else []
       | None \<Rightarrow> []) cs)"

lemma recheck_simps [simp]:
  "events (recheck g ev L s) = events s" "rules (recheck g ev L s) = rules s"
  "rule_heap (recheck g ev L s) = rule_heap s" "effects (recheck g ev L s) = effects s"
  "db_vars (recheck g ev L s) = db_vars s" "next_addr (recheck g ev L s) = next_addr s"
  "recheck g ev {} s = s"
  by (simp_all add: recheck_def)

lemma holds_now_cong [simp]:
  "holds_now g ev (recheck g ev L s) = holds_now g ev s"
  "holds_now g ev s (x\<lparr>is_true := b\<rparr>) = holds_now g ev s x"
  by (simp_all add: holds_now_def fun_eq_iff)

lemma check_listeners_run:
  assumes "distinct cs"
    and "\<forall>c \<in> set cs. \<exists>x r. cond_heap s c = Some x \<and> c_rule x = Some r"
    and "\<forall>c \<in> set cs. \<forall>x t. cond_heap s c = Some x \<and> events t = events s \<and> db_vars t = db_vars s \<longrightarrow>
      chk (ct_check (c_type x)) ev (c_args x) t = Ok (holds_now g ev s x, t)"
  shows "ofold (check_listener chk ev) cs (acc, s) = Ok (acc @ flipped_rules g ev cs s, recheck g ev (set cs) s)"
  using assms
proof (induction cs arbitrary: acc s)
  case Nil
  then show ?case by (simp add: flipped_rules_def)
next
  case (Cons c cs)
  then obtain x r where x: "cond_heap s c = Some x" "c_rule x = Some r" by auto
  let ?s = "recheck g ev {c} s"
  have upd: "upd_cond c (\<lambda>x. x\<lparr>is_true := holds_now g ev s x\<rparr>) s = Ok ?s"
    using x by (auto simp: upd_cond_def recheck_def intro!: ext arg_cong [where f = "\<lambda>h. s\<lparr>cond_heap := h\<rparr>"])
  have step: "check_listener chk ev c (acc, s) = Ok (acc @ flipped_rules g ev [c] s, ?s)"
    using x Cons.prems(3) upd
    by (simp add: check_listener_def flipped_rules_def) (auto simp: upd_cond_def)
  have rest: "flipped_rules g ev cs ?s = flipped_rules g ev cs s"
  proof -
    have "map (\<lambda>d. case cond_heap ?s d of
         Some x \<Rightarrow> if is_true x \<noteq> holds_now g ev ?s x then (case c_rule x of Some r \<Rightarrow> [r] | None \<Rightarrow> []) else []
       | None \<Rightarrow> []) cs = map (\<lambda>d. case cond_heap s d of
         Some x \<Rightarrow> if is_true x \<noteq> holds_now g ev s x then (case c_rule x of Some r \<Rightarrow> [r] | None \<Rightarrow> []) else []
       | None \<Rightarrow> []) cs"
      using Cons.prems(1) by (intro map_cong refl) (auto simp: recheck_def holds_now_def split: option.splits)
    then show ?thesis by (simp only: flipped_rules_def)
  qed
  have "\<forall>d \<in> set cs. \<exists>x r. cond_heap ?s d = Some x \<and> c_rule x = Some r"
    using Cons.prems by (auto simp: recheck_def)
  moreover have "\<forall>d \<in> set cs. \<forall>x t. cond_heap ?s d = Some x \<and> events t = events ?s \<and> db_vars t = db_vars ?s \<longrightarrow>
      chk (ct_check (c_type x)) ev (c_args x) t = Ok (holds_now g ev ?s x, t)"
    using Cons.prems(1,3) by (auto simp: recheck_def holds_now_def)
  ultimately have "ofold (check_listener chk ev) cs (acc @ flipped_rules g ev [c] s, ?s) =
      Ok ((acc @ flipped_rules g ev [c] s) @ flipped_rules g ev cs ?s, recheck g ev (set cs) ?s)"
    using Cons.prems(1) by (intro Cons.IH) auto
  moreover have "recheck g ev (set cs) ?s = recheck g ev (set (c # cs)) s"
    using Cons.prems(1)
    by (auto simp: recheck_def holds_now_def fun_eq_iff intro!: arg_cong [where f = "\<lambda>h. s\<lparr>cond_heap := h\<rparr>"])
  moreover have "flipped_rules g ev (c # cs) s = flipped_rules g ev [c] s @ flipped_rules g ev cs s"
    by (simp add: flipped_rules_def)
  ultimately show ?case by (simp add: step rest)
qed


text \<open>Evaluating, printing and running the rules of a consistent engine.\<close>

definition all_true :: "'d xstate \<Rightarrow> addr \<Rightarrow> bool" where
  "all_true s r \<longleftrightarrow>
     (\<forall>rule. rule_heap s r = Some rule \<longrightarrow>
        (\<forall>c \<in> set (conditions rule). \<exists>x. cond_heap s c = Some x \<and> is_true x))"

definition live_rule :: "'d xstate \<Rightarrow> addr \<Rightarrow> bool" where
  "live_rule s r \<longleftrightarrow> (\<exists>rule. rule_heap s r = Some rule \<and> (\<forall>c \<in> set (conditions rule). cond_heap s c \<noteq> None))"

lemma evaluate_rule_run: "live_rule s r \<Longrightarrow> evaluate_rule r s = Ok (all_true s r)"
proof -
  assume "live_rule s r"
  then obtain rule where rule: "rule_heap s r = Some rule" "\<forall>c \<in> set (conditions rule). cond_heap s c \<noteq> None"
    by (auto simp: live_rule_def)
  have "ofold (\<lambda>c pass. omap (\<lambda>cond. pass \<and> is_true cond) (access (cond_heap s) c)) cs b =
      Ok (b \<and> (\<forall>c \<in> set cs. \<exists>x. cond_heap s c = Some x \<and> is_true x))"
    if "\<forall>c \<in> set cs. cond_heap s c \<noteq> None" for cs b
    using that by (induction cs arbitrary: b) auto
  with rule show ?thesis by (simp add: evaluate_rule_def all_true_def)
qed

lemma rule_to_string_returns: "live_rule s r \<Longrightarrow> \<exists>str. rule_to_string env r s = Ok str"
proof -
  assume "live_rule s r"
  then obtain rule where rule: "rule_heap s r = Some rule" "\<forall>c \<in> set (conditions rule). cond_heap s c \<noteq> None"
    by (auto simp: live_rule_def)
  have "\<exists>out. ofold (\<lambda>c out. omap (\<lambda>cond. out @ condition_string env cond) (access (cond_heap s) c)) cs acc = Ok out"
    if "\<forall>c \<in> set cs. cond_heap s c \<noteq> None" for cs acc
    using that by (induction cs arbitrary: acc) auto
  from this [OF rule(2), of "print_str (rule_id rule) @ '' | ''"] rule(1) show ?thesis
    by (auto simp: rule_to_string_def)
qed

definition calls :: "action list \<Rightarrow> (string \<times> arg list) list" where
  "calls acts = map (\<lambda>a. (at_action (a_type a), a_args a)) acts"

definition rule_actions :: "'d xstate \<Rightarrow> addr \<Rightarrow> (string \<times> arg list) list" where
  "rule_actions s r = (case rule_heap s r of None \<Rightarrow> [] | Some rule \<Rightarrow> calls (actions rule))"

definition rule_undos :: "'d xstate \<Rightarrow> addr \<Rightarrow> (string \<times> arg list) list" where
  "rule_undos s r = (case rule_heap s r of None \<Rightarrow> [] | Some rule \<Rightarrow> calls (undos rule))"

definition active :: "'d xstate \<Rightarrow> addr \<Rightarrow> bool" where
  "active s r \<longleftrightarrow> (\<exists>rule. rule_heap s r = Some rule \<and> is_active rule)"

definition emit :: "(string \<times> arg list) list \<Rightarrow> 'd xstate \<Rightarrow> 'd xstate" where
  "emit es s = s\<lparr>effects := effects s @ es\<rparr>"

lemma emit_simps [simp]:
  "events (emit es s) = events s" "rules (emit es s) = rules s" "rule_heap (emit es s) = rule_heap s"
  "cond_heap (emit es s) = cond_heap s" "db_vars (emit es s) = db_vars s" "emit [] s = s"
  "emit es (emit fs s) = emit (fs @ es) s" "effects (emit es s) = effects s @ es"
  "live_rule (emit es s) r = live_rule s r" "all_true (emit es s) r = all_true s r"
  "rule_actions (emit es s) r = rule_actions s r" "rule_undos (emit es s) r = rule_undos s r"
  "active (emit es s) r = active s r"
  by (simp_all add: emit_def live_rule_def all_true_def rule_actions_def rule_undos_def active_def)

lemma do_actions_run: "live_rule s r \<Longrightarrow> do_actions env r s = Ok (emit (rule_actions s r) s)"
  using rule_to_string_returns [of s r env]
  by (auto simp: live_rule_def do_actions_def perform_def emit_def rule_actions_def calls_def)

lemma do_undos_run: "live_rule s r \<Longrightarrow> do_undos env r s = Ok (emit (rule_undos s r) s)"
  using rule_to_string_returns [of s r env]
  by (auto simp: live_rule_def do_undos_def perform_def emit_def rule_undos_def calls_def)

lemma undo_loop_run:
  assumes "\<forall>r \<in> set rs. live_rule s r"
  shows "ofold (undo_changed env) rs (seen, s) =
    Ok (seen @ map (\<lambda>r. (r, active s r, all_true s r)) rs,
        emit (concat (map (rule_undos s) (filter (\<lambda>r. active s r \<and> \<not> all_true s r) rs))) s)"
  using assms
proof (induction rs arbitrary: seen s)
  case (Cons r rs)
  then obtain rule where rule: "rule_heap s r = Some rule" by (auto simp: live_rule_def)
  let ?es = "if is_active rule \<and> \<not> all_true s r then rule_undos s r else []"
  have "undo_changed env r (seen, s) = Ok (seen @ [(r, active s r, all_true s r)], emit ?es s)"
    using Cons.prems rule by (simp add: undo_changed_def evaluate_rule_run do_undos_run active_def)
  moreover have "ofold (undo_changed env) rs (seen @ [(r, active s r, all_true s r)], emit ?es s) =
    Ok ((seen @ [(r, active s r, all_true s r)]) @ map (\<lambda>q. (q, active s q, all_true s q)) rs,
        emit (concat (map (rule_undos s) (filter (\<lambda>q. active s q \<and> \<not> all_true s q) rs))) (emit ?es s))"
    using Cons.prems Cons.IH [of "emit ?es s" "seen @ [(r, active s r, all_true s r)]"] by (simp add: comp_def)
  ultimately show ?case using rule by (simp add: active_def)
qed simp

definition set_active :: "(addr \<Rightarrow> bool) \<Rightarrow> addr set \<Rightarrow> 'd xstate \<Rightarrow> 'd xstate" where
  "set_active act R s =
     s\<lparr>rule_heap := (\<lambda>r. if r \<in> R then map_option (\<lambda>x. x\<lparr>is_active := act r\<rparr>) (rule_heap s r) else rule_heap s r)\<rparr>"

lemma set_active_simps [simp]:
  "events (set_active act R s) = events s" "rules (set_active act R s) = rules s"
  "cond_heap (set_active act R s) = cond_heap s" "effects (set_active act R s) = effects s"
  "set_active act {} s = s" "rule_actions (set_active act R s) r = rule_actions s r"
  "rule_undos (set_active act R s) r = rule_undos s r"
  "live_rule (set_active act R s) r = live_rule s r" "all_true (set_active act R s) r = all_true s r"
  "set_active act R (set_active act Q s) = set_active act (R \<union> Q) s"
  "set_active act R (emit es s) = emit es (set_active act R s)"
  by (auto simp: set_active_def rule_actions_def rule_undos_def live_rule_def all_true_def emit_def fun_eq_iff
      option.map_comp comp_def split: option.splits intro!: arg_cong [where f = "\<lambda>h. s\<lparr>rule_heap := h\<rparr>"])

lemma effect_functions [simp]:
  "rule_actions (emit es s) = rule_actions s" "rule_undos (emit es s) = rule_undos s"
  "rule_actions (set_active act R s) = rule_actions s" "rule_undos (set_active act R s) = rule_undos s"
  by (simp_all add: fun_eq_iff)

lemma upd_rule_active:
  "rule_heap s r \<noteq> None \<Longrightarrow> act r = b \<Longrightarrow>
   upd_rule r (\<lambda>x. x\<lparr>is_active := b\<rparr>) s = Ok (set_active act {r} s)"
  by (auto simp: upd_rule_def set_active_def fun_eq_iff intro!: arg_cong [where f = "\<lambda>h. s\<lparr>rule_heap := h\<rparr>"])

lemma act_loop_run:
  assumes "\<forall>r \<in> set rs. live_rule s r"
  shows "ofold (act_changed env ev) (map (\<lambda>r. (r, was r, now r)) rs) s =
    Ok (emit (concat (map (rule_actions s) (filter (\<lambda>r. now r \<and> \<not> was r) rs)))
         (if is_stateless (events s ! ev) then s else set_active now (set rs) s))"
  using assms
proof (induction rs arbitrary: s)
  case (Cons r rs)
  then have live: "live_rule s r" "rule_heap s r \<noteq> None" by (auto simp: live_rule_def)
  let ?es = "if now r \<and> \<not> was r then rule_actions s r else []"
  let ?s = "if is_stateless (events s ! ev) then emit ?es s else set_active now {r} (emit ?es s)"
  have "act_changed env ev (r, was r, now r) s = Ok ?s"
    using live upd_rule_active [of "emit ?es s" r now "now r"]
    by (auto simp: act_changed_def do_actions_run)
  with Cons.IH [of ?s] Cons.prems show ?case
    by (auto simp: comp_def)
qed simp


text \<open>The three loops together.\<close>

definition round_effects :: "'d xstate \<Rightarrow> addr list \<Rightarrow> (string \<times> arg list) list" where
  "round_effects s rs =
     concat (map (rule_undos s) (filter (\<lambda>r. active s r \<and> \<not> all_true s r) rs)) @
     concat (map (rule_actions s) (filter (\<lambda>r. all_true s r \<and> \<not> active s r) rs))"

lemma wf_live_rule: "wf_engine s \<Longrightarrow> rule_heap s r = Some rule \<Longrightarrow> live_rule s r"
  using wf_conditions_live [of s r rule] by (fastforce simp: live_rule_def)

lemma live_recheck [simp]: "live_rule (recheck g ev L s) r = live_rule s r"
  by (auto simp: live_rule_def recheck_def)

lemma flipped_live:
  assumes "wf_engine s" and "r \<in> set (flipped_rules g ev cs s)"
  shows "live_rule s r"
proof -
  from assms(2) obtain c where c: "r \<in> set (case cond_heap s c of
         Some x \<Rightarrow> if is_true x \<noteq> holds_now g ev s x then (case c_rule x of Some r \<Rightarrow> [r] | None \<Rightarrow> []) else []
       | None \<Rightarrow> [])"
    unfolding flipped_rules_def set_concat set_map by blast
  show ?thesis
  proof (cases "cond_heap s c")
    case None
    with c show ?thesis by simp
  next
    case (Some x)
    with c have "c_rule x = Some r"
      by (cases "is_true x = holds_now g ev s x"; cases "c_rule x") simp_all
    with Some obtain rule where "rule_heap s r = Some rule"
      using wf_condition [OF assms(1) Some] by (metis option.inject)
    with assms(1) show ?thesis by (rule wf_live_rule)
  qed
qed

lemma handle_events_loops:
  assumes wf: "wf_engine s" and chk: "pure_checker chk g ev s" and ev: "ev < length (events s)"
  defines "L \<equiv> listeners (events s ! ev)"
  defines "s1 \<equiv> recheck g ev (set L) s" and "rs \<equiv> flipped_rules g ev L s"
  shows "handle_events env chk ev s =
    reset_event ev (emit (round_effects s1 rs)
      (if is_stateless (events s ! ev) then s1 else set_active (all_true s1) (set rs) s1))"
proof -
  have "distinct L" using wf ev by (simp add: wf_engine_def listeners_ok_def L_def)
  moreover have "\<forall>c \<in> set L. \<exists>x r. cond_heap s c = Some x \<and> c_rule x = Some r"
    using wf_listener [OF wf ev] by (fastforce simp: L_def)
  moreover have "\<forall>c \<in> set L. \<forall>x t. cond_heap s c = Some x \<and> events t = events s \<and> db_vars t = db_vars s \<longrightarrow>
      chk (ct_check (c_type x)) ev (c_args x) t = Ok (holds_now g ev s x, t)"
    using chk wf_listener [OF wf ev] by (fastforce simp: L_def pure_checker_def holds_now_def)
  ultimately have run1: "ofold (check_listener chk ev) L ([], s) = Ok (rs, s1)"
    using check_listeners_run [of L s chk ev g "[]"] by (simp add: rs_def s1_def)
  have live: "\<forall>r \<in> set rs. live_rule s1 r"
    using flipped_live [OF wf] by (auto simp: rs_def s1_def)
  have run3: "ofold (act_changed env ev) (map (\<lambda>r. (r, active s1 r, all_true s1 r)) rs) t =
      Ok (emit (concat (map (rule_actions t) (filter (\<lambda>r. all_true s1 r \<and> \<not> active s1 r) rs)))
        (if is_stateless (events t ! ev) then t else set_active (all_true s1) (set rs) t))"
    if "\<forall>r \<in> set rs. live_rule t r" for t :: "'a xstate"
    using act_loop_run [OF that, of env ev "active s1" "all_true s1"] .
  show ?thesis
    using ev live
    by (simp add: handle_events_def L_def [symmetric] run1 undo_loop_run run3 round_effects_def)
      (simp add: s1_def)
qed


subsection \<open>The engine's invariant under event handling\<close>

text \<open>
  Event handling changes the truth of conditions, the activity of rules and the value of an
  event; the invariant reads none of them.
\<close>

definition same_shape :: "'d xstate \<Rightarrow> 'd xstate \<Rightarrow> bool" where
  "same_shape s t \<longleftrightarrow>
     (\<forall>c. map_option (is_true_update (\<lambda>_. False)) (cond_heap t c) =
          map_option (is_true_update (\<lambda>_. False)) (cond_heap s c)) \<and>
     (\<forall>r. map_option (is_active_update (\<lambda>_. False)) (rule_heap t r) =
          map_option (is_active_update (\<lambda>_. False)) (rule_heap s r)) \<and>
     map listeners (events t) = map listeners (events s) \<and>
     map is_stateless (events t) = map is_stateless (events s) \<and>
     rules t = rules s \<and> next_addr t = next_addr s \<and> condition_types t = condition_types s \<and>
     action_types t = action_types s \<and> db_vars t = db_vars s \<and> database t = database s"

lemma same_shape_cond:
  assumes "same_shape s t" and "cond_heap t c = Some x"
  obtains y where "cond_heap s c = Some y" "c_type x = c_type y" "c_rule x = c_rule y" "c_args x = c_args y"
proof -
  have "map_option (is_true_update (\<lambda>_. False)) (cond_heap t c) =
      map_option (is_true_update (\<lambda>_. False)) (cond_heap s c)"
    using assms(1) unfolding same_shape_def by blast
  with assms(2) obtain y where y: "cond_heap s c = Some y" "x\<lparr>is_true := False\<rparr> = y\<lparr>is_true := False\<rparr>"
    by (cases "cond_heap s c") simp_all
  from y(2) have "c_type x = c_type y" "c_rule x = c_rule y" "c_args x = c_args y"
    by (metis condition.select_convs condition.surjective condition.update_convs(3))+
  with y(1) that show thesis by blast
qed

lemma same_shape_rule:
  assumes "same_shape s t" and "rule_heap t r = Some x"
  obtains y where "rule_heap s r = Some y" "rule_id x = rule_id y" "conditions x = conditions y"
    "actions x = actions y" "undos x = undos y" "linked x = linked y"
proof -
  have "map_option (is_active_update (\<lambda>_. False)) (rule_heap t r) =
      map_option (is_active_update (\<lambda>_. False)) (rule_heap s r)"
    using assms(1) unfolding same_shape_def by blast
  with assms(2) obtain y where y: "rule_heap s r = Some y" "x\<lparr>is_active := False\<rparr> = y\<lparr>is_active := False\<rparr>"
    by (cases "rule_heap s r") simp_all
  from y(2) have "rule_id x = rule_id y" "conditions x = conditions y"
    "actions x = actions y" "undos x = undos y" "linked x = linked y"
    by (metis rule.select_convs rule.surjective rule.update_convs(5))+
  with y(1) that show thesis by blast
qed

lemma same_shape_sym: "same_shape s t \<Longrightarrow> same_shape t s"
  by (simp add: same_shape_def)

lemma same_shape_trans: "same_shape s t \<Longrightarrow> same_shape t u \<Longrightarrow> same_shape s u"
  by (simp add: same_shape_def)

lemma same_shape_None:
  assumes "same_shape s t"
  shows "cond_heap t a = None \<longleftrightarrow> cond_heap s a = None" and "rule_heap t a = None \<longleftrightarrow> rule_heap s a = None"
  using assms unfolding same_shape_def by (metis option.map_disc_iff)+

lemma same_shape_listeners:
  assumes "same_shape s t"
  shows "length (events t) = length (events s)"
    and "i < length (events s) \<Longrightarrow> listeners (events t ! i) = listeners (events s ! i)"
    and "i < length (events s) \<Longrightarrow> is_stateless (events t ! i) = is_stateless (events s ! i)"
proof -
  have m: "map listeners (events t) = map listeners (events s)" "map is_stateless (events t) = map is_stateless (events s)"
    using assms by (simp_all add: same_shape_def)
  show len: "length (events t) = length (events s)" using m(1) by (metis length_map)
  show "i < length (events s) \<Longrightarrow> listeners (events t ! i) = listeners (events s ! i)"
    using m(1) len by (metis nth_map)
  show "i < length (events s) \<Longrightarrow> is_stateless (events t ! i) = is_stateless (events s ! i)"
    using m(2) len by (metis nth_map)
qed

lemma same_shape_rule_vars:
  assumes "same_shape s t" and "conditions x = conditions y" and "actions x = actions y" and "undos x = undos y"
  shows "rule_vars t x = rule_vars s y"
proof -
  have "cond_vars t = cond_vars s"
  proof (rule ext)
    fix c
    show "cond_vars t c = cond_vars s c"
  proof (cases "cond_heap t c")
    case None
    moreover from this have "cond_heap s c = None" using same_shape_None(1) [OF assms(1)] by blast
    ultimately show ?thesis by (simp add: cond_vars_def)
  next
    case (Some z)
    then obtain z' where "cond_heap s c = Some z'" "c_args z = c_args z'"
      using same_shape_cond [OF assms(1)] by blast
    with Some show ?thesis by (simp add: cond_vars_def)
  qed
  qed
  with assms show ?thesis by (simp add: rule_vars_def)
qed

lemma same_shape_wf:
  assumes sh: "same_shape s t" and wf: "wf_engine s"
  shows "wf_engine t"
proof -
  have eq: "rules t = rules s" "next_addr t = next_addr s" "condition_types t = condition_types s"
    using sh by (simp_all add: same_shape_def)
  note len = same_shape_listeners(1) [OF sh] and ls = same_shape_listeners(2) [OF sh]
  have back_cond: "\<exists>x. cond_heap t c = Some x \<and> c_type x = c_type y \<and> c_rule x = c_rule y"
    if "cond_heap s c = Some y" for c y
    using same_shape_cond [OF same_shape_sym [OF sh] that] by metis
  have back_rule: "\<exists>x. rule_heap t r = Some x \<and> conditions x = conditions y" if "rule_heap s r = Some y" for r y
    using same_shape_rule [OF same_shape_sym [OF sh] that] by metis
  have "heap_bounded t"
    using wf same_shape_None [OF sh] by (simp add: wf_engine_def heap_bounded_def eq)
  moreover have "types_ok t" using wf by (simp add: wf_engine_def types_ok_def eq len)
  moreover have "listeners_ok t"
    unfolding listeners_ok_def
  proof (intro allI impI conjI ballI)
    fix i
    assume "i < length (events t)"
    then have i: "i < length (events s)" by (simp add: len)
    with wf show "distinct (listeners (events t ! i))" by (simp add: ls wf_engine_def listeners_ok_def)
    fix c
    assume "c \<in> set (listeners (events t ! i))"
    with i ls obtain y where "cond_heap s c = Some y" "ct_event (c_type y) = i"
      using wf_listener [OF wf i] by fastforce
    with back_cond show "\<exists>cond. cond_heap t c = Some cond \<and> ct_event (c_type cond) = i" by metis
  qed
  moreover have "conds_ok t"
    unfolding conds_ok_def
  proof (intro allI impI)
    fix c x
    assume "cond_heap t c = Some x"
    then obtain y where y: "cond_heap s c = Some y" "c_type x = c_type y" "c_rule x = c_rule y"
      by (rule same_shape_cond [OF sh])
    obtain r rule where "ct_event (c_type y) < length (events s)"
        "c \<in> set (listeners (events s ! ct_event (c_type y)))"
        "c_rule y = Some r" "rule_heap s r = Some rule" "c \<in> set (conditions rule)"
      by (rule wf_condition [OF wf y(1)])
    with y back_rule show "ct_event (c_type x) < length (events t) \<and>
        c \<in> set (listeners (events t ! ct_event (c_type x))) \<and>
        (\<exists>r rule. c_rule x = Some r \<and> rule_heap t r = Some rule \<and> c \<in> set (conditions rule))"
      by (metis len ls)
  qed
  moreover have "rules_ok t"
    unfolding rules_ok_def
  proof (intro conjI allI impI)
    show "distinct (rules t)" "\<forall>r \<in> set (rules t). rule_heap t r \<noteq> None"
      using wf same_shape_None [OF sh] by (simp_all add: wf_engine_def rules_ok_def eq)
    fix r x
    assume "rule_heap t r = Some x"
    then obtain y where y: "rule_heap s r = Some y" "rule_id x = rule_id y" "conditions x = conditions y"
      "linked x = linked y"
      by (rule same_shape_rule [OF sh])
    then have "rule_ok s r y" using wf by (simp add: wf_engine_def rules_ok_def)
    with y back_cond show "rule_ok t r x" unfolding rule_ok_def eq by metis
  qed
  ultimately show ?thesis by (simp add: wf_engine_def)
qed


lemma same_shape_engine_ok:
  assumes sh: "same_shape s t" and ok: "engine_ok s"
  shows "engine_ok t"
proof -
  have wf: "wf_engine s" and comp: "complete s" and refs: "refs_ok s" using ok by (simp_all add: engine_ok_def)
  have db: "db_vars t = db_vars s" and rl: "rules t = rules s" using sh by (simp_all add: same_shape_def)
  have "complete t"
    using comp same_shape_rule [OF sh] unfolding complete_def by metis
  moreover have "uses t = uses s"
  proof (intro ext)
    fix n r
    show "uses t n r = uses s n r"
    proof (cases "rule_heap t r")
      case None
      moreover from this have "rule_heap s r = None" using same_shape_None(2) [OF sh] by blast
      ultimately show ?thesis by (simp add: uses_def)
    next
      case (Some x)
      then obtain y where "rule_heap s r = Some y" "rule_vars t x = rule_vars s y"
        using same_shape_rule [OF sh Some] same_shape_rule_vars [OF sh] by metis
      with Some show ?thesis by (simp add: uses_def)
    qed
  qed
  moreover have "all_cached (rule_vars t x) t" if x: "r \<in> set (rules s)" "rule_heap t r = Some x" for r x
  proof -
    obtain y where y: "rule_heap s r = Some y" "rule_vars t x = rule_vars s y"
      using same_shape_rule [OF sh x(2)] same_shape_rule_vars [OF sh] by metis
    with refs x(1) have "all_cached (rule_vars s y) s" by (simp add: refs_ok_def)
    with y is_cached_db_vars [OF db] show ?thesis by (simp add: all_cached_def)
  qed
  ultimately have "refs_ok t"
    using refs ref_of_db_vars [OF db] by (simp add: refs_ok_def rl)
  with same_shape_wf [OF sh wf] \<open>complete t\<close> show ?thesis by (simp add: engine_ok_def)
qed

lemma shape_recheck: "same_shape s (recheck g ev L s)"
  by (simp add: same_shape_def recheck_def option.map_comp comp_def)

lemma shape_emit: "same_shape s t \<Longrightarrow> same_shape s (emit es t)"
  by (simp add: same_shape_def emit_def)

lemma shape_set_active: "same_shape s t \<Longrightarrow> same_shape s (set_active act R t)"
  by (simp add: same_shape_def set_active_def option.map_comp comp_def)

definition clear_conditions :: "addr set \<Rightarrow> 'd xstate \<Rightarrow> 'd xstate" where
  "clear_conditions L s =
     s\<lparr>cond_heap := (\<lambda>c. if c \<in> L then map_option (\<lambda>x. x\<lparr>is_true := False\<rparr>) (cond_heap s c) else cond_heap s c)\<rparr>"

lemma clear_run:
  "\<forall>c \<in> set cs. cond_heap s c \<noteq> None \<Longrightarrow>
   ofold (\<lambda>c. upd_cond c (\<lambda>x. x\<lparr>is_true := False\<rparr>)) cs s = Ok (clear_conditions (set cs) s)"
proof (induction cs arbitrary: s)
  case Nil
  then show ?case by (simp add: clear_conditions_def)
next
  case (Cons c cs)
  then have "upd_cond c (\<lambda>x. x\<lparr>is_true := False\<rparr>) s = Ok (clear_conditions {c} s)"
    by (auto simp: upd_cond_def clear_conditions_def fun_eq_iff intro!: arg_cong [where f = "\<lambda>h. s\<lparr>cond_heap := h\<rparr>"])
  moreover have "ofold (\<lambda>c. upd_cond c (\<lambda>x. x\<lparr>is_true := False\<rparr>)) cs (clear_conditions {c} s) =
      Ok (clear_conditions (set cs) (clear_conditions {c} s))"
    using Cons.prems by (intro Cons.IH) (auto simp: clear_conditions_def)
  moreover have "clear_conditions (set cs) (clear_conditions {c} s) = clear_conditions (set (c # cs)) s"
    by (auto simp: clear_conditions_def fun_eq_iff option.map_comp comp_def
        intro!: arg_cong [where f = "\<lambda>h. s\<lparr>cond_heap := h\<rparr>"])
  ultimately show ?case by simp
qed

definition reset_value_of :: "nat \<Rightarrow> 'd xstate \<Rightarrow> 'd xstate" where
  "reset_value_of ev s = s\<lparr>events := (events s)[ev := (events s ! ev)\<lparr>ev_value := reset_value (events s ! ev)\<rparr>]\<rparr>"

lemma reset_event_run:
  assumes "ev < length (events s)" and "\<forall>c \<in> set (listeners (events s ! ev)). cond_heap s c \<noteq> None"
  shows "reset_event ev s =
    Ok (if is_stateless (events s ! ev) then clear_conditions (set (listeners (events s ! ev))) (reset_value_of ev s) else s)"
proof -
  let ?s = "s\<lparr>events := (events s)[ev := (events s ! ev)\<lparr>ev_value := reset_value (events s ! ev)\<rparr>]\<rparr>"
  have "ofold (\<lambda>c. upd_cond c (\<lambda>x. x\<lparr>is_true := False\<rparr>)) (listeners (events s ! ev)) ?s =
      Ok (clear_conditions (set (listeners (events s ! ev))) ?s)"
    using assms(2) by (intro clear_run) simp
  then show ?thesis by (simp add: reset_event_def reset_value_of_def)
qed

lemma shape_reset:
  assumes "same_shape s t"
  shows "same_shape s (clear_conditions L (reset_value_of ev t))"
proof -
  have upd: "map f ((events t)[ev := (events t ! ev)\<lparr>ev_value := v\<rparr>]) = map f (events t)"
    if "\<And>e. f (e\<lparr>ev_value := v\<rparr>) = f e" for f :: "ev_wrapper \<Rightarrow> 'b" and v
    using that by (cases "ev < length (events t)") (simp_all add: map_update list_update_same_conv list_update_beyond)
  show ?thesis
    using assms
    by (simp add: same_shape_def clear_conditions_def reset_value_of_def option.map_comp comp_def upd)
qed


text \<open>
  At rest a rule is active exactly when all its conditions are true, and the conditions of
  stateless events are false.
\<close>

definition at_rest :: "'d xstate \<Rightarrow> bool" where
  "at_rest s \<longleftrightarrow>
     (\<forall>r \<in> set (rules s). active s r \<longleftrightarrow> all_true s r) \<and>
     (\<forall>c x. cond_heap s c = Some x \<longrightarrow> is_stateless (events s ! ct_event (c_type x)) \<longrightarrow> \<not> is_true x)"

lemma unflipped_all_true:
  assumes wf: "wf_engine s" and r: "r \<notin> set (flipped_rules g ev L s)"
  shows "all_true (recheck g ev (set L) s) r = all_true s r"
proof -
  have "(\<exists>x. cond_heap (recheck g ev (set L) s) c = Some x \<and> is_true x) = (\<exists>x. cond_heap s c = Some x \<and> is_true x)"
    if c: "rule_heap s r = Some rule" "c \<in> set (conditions rule)" for rule c
  proof -
    obtain x where x: "cond_heap s c = Some x" "c_rule x = Some r" using wf_conditions_live [OF wf c] by blast
    have "is_true x = holds_now g ev s x" if L: "c \<in> set L"
    proof (rule ccontr)
      assume "is_true x \<noteq> holds_now g ev s x"
      with x L have "r \<in> set (flipped_rules g ev L s)"
        unfolding flipped_rules_def set_concat set_map by (intro UnionI imageI) auto
      with r show False by simp
    qed
    with x show ?thesis by (auto simp: recheck_def)
  qed
  then show ?thesis unfolding all_true_def by auto
qed

lemma active_set_active: "active (set_active act R s) r = (if r \<in> R then rule_heap s r \<noteq> None \<and> act r else active s r)"
  by (auto simp: active_def set_active_def)

lemma handle_stateful_run:
  assumes "wf_engine s" and "pure_checker chk g ev s" and "ev < length (events s)" and "\<not> is_stateless (events s ! ev)"
  shows "handle_events env chk ev s =
    (let L = listeners (events s ! ev); s1 = recheck g ev (set L) s; rs = flipped_rules g ev L s
     in Ok (emit (round_effects s1 rs) (set_active (all_true s1) (set rs) s1)))"
  using handle_events_loops [OF assms(1-3), of env] assms(4)
  by (simp add: Let_def reset_event_def)

lemma at_rest_stateful:
  fixes g :: "string \<Rightarrow> arg \<Rightarrow> arg list \<Rightarrow> bool"
  assumes wf: "wf_engine s" and rest: "at_rest s" and ev: "ev < length (events s)" "\<not> is_stateless (events s ! ev)"
  defines "L \<equiv> listeners (events s ! ev)"
  defines "s1 \<equiv> recheck g ev (set L) s" and "rs \<equiv> flipped_rules g ev L s"
  shows "at_rest (emit es (set_active (all_true s1) (set rs) s1))"
proof -
  have "active s1 r = all_true s1 r" if "r \<in> set (rules s)" "r \<notin> set rs" for r
    using that rest unflipped_all_true [OF wf, of r g ev L]
    by (simp add: at_rest_def s1_def rs_def active_def)
  moreover have "rule_heap s1 r \<noteq> None" if "r \<in> set (rules s)" for r
    using wf_rule_in_list [OF wf that] by (auto simp: s1_def)
  ultimately have "\<forall>r \<in> set (rules s). active (set_active (all_true s1) (set rs) s1) r = all_true s1 r"
    by (auto simp: active_set_active)
  moreover have "\<not> is_true x" if x: "cond_heap s1 c = Some x" "is_stateless (events s ! ct_event (c_type x))" for c x
  proof (cases "c \<in> set L")
    case True
    then obtain y where "cond_heap s c = Some y" "ct_event (c_type y) = ev"
      using wf_listener [OF wf ev(1)] unfolding L_def by blast
    with True x ev(2) show ?thesis by (auto simp: s1_def recheck_def)
  next
    case False
    with x have "cond_heap s c = Some x" by (simp add: s1_def recheck_def)
    with rest x(2) show ?thesis by (simp add: at_rest_def)
  qed
  ultimately show ?thesis by (simp add: at_rest_def) (simp add: s1_def)
qed

lemma handle_stateless_run:
  assumes wf: "wf_engine s" and chk: "pure_checker chk g ev s" and ev: "ev < length (events s)" "is_stateless (events s ! ev)"
  shows "handle_events env chk ev s =
    (let L = listeners (events s ! ev); s1 = recheck g ev (set L) s
     in Ok (clear_conditions (set L) (reset_value_of ev (emit (round_effects s1 (flipped_rules g ev L s)) s1))))"
proof -
  let ?L = "listeners (events s ! ev)"
  let ?t = "emit (round_effects (recheck g ev (set ?L) s) (flipped_rules g ev ?L s)) (recheck g ev (set ?L) s)"
  have "\<forall>c \<in> set (listeners (events ?t ! ev)). cond_heap ?t c \<noteq> None"
    using wf_listener [OF wf ev(1)] by (fastforce simp: recheck_def)
  then show ?thesis
    using handle_events_loops [OF wf chk ev(1), of env] reset_event_run [of ev ?t] ev by (simp add: Let_def)
qed

lemma at_rest_stateless:
  assumes wf: "wf_engine s" and rest: "at_rest s" and ev: "ev < length (events s)" "is_stateless (events s ! ev)"
  defines "L \<equiv> listeners (events s ! ev)"
  shows "at_rest (clear_conditions (set L) (reset_value_of ev (emit es (recheck g ev (set L) s))))" (is "at_rest ?t")
proof -
  have heap: "cond_heap ?t c = cond_heap s c" if "c \<notin> set L" for c
    using that by (simp add: clear_conditions_def reset_value_of_def recheck_def)
  have dead: "\<not> is_true x" if "c \<in> set L" "cond_heap ?t c = Some x" for c x
    using that by (auto simp: clear_conditions_def reset_value_of_def)
  have was: "\<not> is_true x" if c: "c \<in> set L" "cond_heap s c = Some x" for c x
  proof -
    obtain y where "cond_heap s c = Some y" "ct_event (c_type y) = ev"
      using wf_listener [OF wf ev(1)] c(1) unfolding L_def by blast
    with c(2) ev(2) rest show ?thesis by (auto simp: at_rest_def)
  qed
  have rules: "rules ?t = rules s" "rule_heap ?t = rule_heap s"
    by (simp_all add: clear_conditions_def reset_value_of_def)
  have "(\<exists>x. cond_heap ?t c = Some x \<and> is_true x) = (\<exists>x. cond_heap s c = Some x \<and> is_true x)" for c
    using heap [of c] dead [of c] was [of c] by (cases "c \<in> set L") auto
  then have "all_true ?t r = all_true s r" for r unfolding all_true_def rules by auto
  moreover have "active ?t r = active s r" for r by (simp add: active_def rules)
  moreover have "\<not> is_true x" if x: "cond_heap ?t c = Some x" "is_stateless (events ?t ! ct_event (c_type x))" for c x
  proof (cases "c \<in> set L")
    case True
    then show ?thesis using dead x by blast
  next
    case False
    with x heap have c: "cond_heap s c = Some x" by simp
    then have "ct_event (c_type x) < length (events s)" by (rule wf_condition [OF wf])
    then have "is_stateless (events s ! ct_event (c_type x))"
      using x(2) same_shape_listeners(3) [OF shape_reset [OF shape_emit [OF shape_recheck]]] by blast
    with c rest show ?thesis by (auto simp: at_rest_def)
  qed
  ultimately show ?thesis using rest by (simp add: at_rest_def rules)
qed


subsection \<open>Properties of event handling\<close>

lemma handle_events_ok:
  assumes ok: "engine_ok s" and rest: "at_rest s" and chk: "pure_checker chk g ev s" and ev: "ev < length (events s)"
  shows "\<exists>s'. handle_events env chk ev s = Ok s' \<and> engine_ok s' \<and> at_rest s' \<and> same_shape s s' \<and>
    events s' = (if is_stateless (events s ! ev) then events (reset_value_of ev s) else events s)"
proof (cases "is_stateless (events s ! ev)")
  case True
  have wf: "wf_engine s" using ok by (simp add: engine_ok_def)
  let ?L = "listeners (events s ! ev)"
  let ?s = "clear_conditions (set ?L) (reset_value_of ev
    (emit (round_effects (recheck g ev (set ?L) s) (flipped_rules g ev ?L s)) (recheck g ev (set ?L) s)))"
  have "same_shape s ?s" by (intro shape_reset shape_emit shape_recheck)
  moreover have "at_rest ?s" by (rule at_rest_stateless [OF wf rest ev True])
  moreover have "handle_events env chk ev s = Ok ?s"
    using handle_stateless_run [OF wf chk ev True, of env] by (simp add: Let_def)
  moreover have "events ?s = events (reset_value_of ev s)"
    by (simp add: clear_conditions_def reset_value_of_def)
  ultimately show ?thesis using same_shape_engine_ok [OF _ ok] True by auto
next
  case False
  have wf: "wf_engine s" using ok by (simp add: engine_ok_def)
  let ?L = "listeners (events s ! ev)"
  let ?s1 = "recheck g ev (set ?L) s" and ?rs = "flipped_rules g ev ?L s"
  let ?s = "emit (round_effects ?s1 ?rs) (set_active (all_true ?s1) (set ?rs) ?s1)"
  have "same_shape s ?s" by (intro shape_set_active shape_emit shape_recheck)
  moreover have "at_rest ?s" by (rule at_rest_stateful [OF wf rest ev False])
  moreover have "handle_events env chk ev s = Ok ?s"
    using handle_stateful_run [OF wf chk ev False, of env] by (simp add: Let_def)
  moreover have "events ?s = events s" by simp
  ultimately show ?thesis using same_shape_engine_ok [OF _ ok] False by auto
qed

text \<open>
  C3. Handling an event never goes wrong and leaves a consistent policy: in a consistent
  engine at rest, \<open>handle_events\<close> returns (no null or freed object is used), and afterwards
  the engine is consistent again and a rule is active exactly when all its conditions are
  true. The set of rules, their conditions, actions and arguments and the variables are as
  before.
\<close>

theorem handle_events_invariant:
  assumes "engine_ok s" and "at_rest s" and "pure_checker chk g ev s" and "ev < length (events s)"
  shows "\<exists>s'. handle_events env chk ev s = Ok s' \<and> engine_ok s' \<and> at_rest s' \<and> same_shape s s'"
  using handle_events_ok [OF assms] by blast

lemma flipped_distinct:
  assumes wf: "wf_engine s" and ev: "ev < length (events s)"
    and one: "\<forall>r rule. rule_heap s r = Some rule \<longrightarrow>
      card (set (conditions rule) \<inter> set (listeners (events s ! ev))) \<le> 1"
  shows "distinct (flipped_rules g ev (listeners (events s ! ev)) s)"
proof -
  let ?L = "listeners (events s ! ev)"
  have owner: "\<exists>x r rule. cond_heap s c = Some x \<and> c_rule x = Some r \<and> rule_heap s r = Some rule \<and> c \<in> set (conditions rule)"
    if "c \<in> set ?L" for c
    using wf_listener [OF wf ev that] by blast
  have uniq: "c = d" if a: "c \<in> set ?L" "d \<in> set ?L" "cond_heap s c = Some x" "cond_heap s d = Some y"
    "c_rule x = c_rule y" for c d x y
  proof -
    obtain r rule where "rule_heap s r = Some rule" and cd: "c \<in> set (conditions rule)" "d \<in> set (conditions rule)"
      using owner [OF a(1)] owner [OF a(2)] a(3-5) by auto
    then have "card (set (conditions rule) \<inter> set ?L) \<le> Suc 0" using one by simp
    then show ?thesis using cd a(1,2) card_le_Suc0_iff_eq [of "set (conditions rule) \<inter> set ?L"] by simp
  qed
  have "distinct (flipped_rules g ev cs s)" if "distinct cs" "set cs \<subseteq> set ?L" for cs
    using that
  proof (induction cs)
    case Nil
    then show ?case by (simp add: flipped_rules_def)
  next
    case (Cons c cs)
    obtain x r where x: "cond_heap s c = Some x" "c_rule x = Some r" using owner [of c] Cons.prems by auto
    have tail: "flipped_rules g ev (c # cs) s =
        (if is_true x \<noteq> holds_now g ev s x then [r] else []) @ flipped_rules g ev cs s"
      using x by (simp add: flipped_rules_def)
    have "r \<notin> set (flipped_rules g ev cs s)"
    proof
      assume "r \<in> set (flipped_rules g ev cs s)"
      then obtain d where d: "d \<in> set cs" "r \<in> set (case cond_heap s d of
         Some x \<Rightarrow> if is_true x \<noteq> holds_now g ev s x then (case c_rule x of Some r \<Rightarrow> [r] | None \<Rightarrow> []) else []
       | None \<Rightarrow> [])"
        unfolding flipped_rules_def set_concat set_map by blast
      obtain y q where y: "cond_heap s d = Some y" "c_rule y = Some q" using owner [of d] Cons.prems d(1) by auto
      with d(2) have "q = r" by (cases "is_true y = holds_now g ev s y") simp_all
      with uniq [of c d x y] x y d(1) Cons.prems show False by auto
    qed
    with Cons tail show ?case by simp
  qed
  moreover have "distinct ?L" using wf ev by (simp add: wf_engine_def listeners_ok_def)
  ultimately show ?thesis by blast
qed

text \<open>
  C2. What an event of a stateful source makes the policy do, as \<open>rules.h\<close> promises it: the
  undo actions of the rules that stop being active, then the actions of the rules that
  become active, nothing else, all undo actions before all actions. A rule with at most one
  condition on the event contributes at most once.
\<close>

theorem handle_events_effects:
  assumes ok: "engine_ok s" and rest: "at_rest s" and chk: "pure_checker chk g ev s"
    and ev: "ev < length (events s)" "\<not> is_stateless (events s ! ev)"
  shows "\<exists>s' gone come. handle_events env chk ev s = Ok s' \<and>
    effects s' = effects s @ concat (map (rule_undos s) gone) @ concat (map (rule_actions s) come) \<and>
    set gone = {r \<in> set (rules s). active s r \<and> \<not> active s' r} \<and>
    set come = {r \<in> set (rules s). \<not> active s r \<and> active s' r} \<and>
    ((\<forall>r rule. rule_heap s r = Some rule \<longrightarrow> card (set (conditions rule) \<inter> set (listeners (events s ! ev))) \<le> 1) \<longrightarrow>
      distinct gone \<and> distinct come)"
proof -
  have wf: "wf_engine s" and comp: "complete s" using ok by (simp_all add: engine_ok_def)
  let ?L = "listeners (events s ! ev)"
  let ?s1 = "recheck g ev (set ?L) s" and ?rs = "flipped_rules g ev ?L s"
  let ?s = "emit (round_effects ?s1 ?rs) (set_active (all_true ?s1) (set ?rs) ?s1)"
  let ?gone = "filter (\<lambda>r. active s r \<and> \<not> all_true ?s1 r) ?rs"
  let ?come = "filter (\<lambda>r. all_true ?s1 r \<and> \<not> active s r) ?rs"
  have act: "active ?s1 r = active s r" for r by (simp add: active_def)
  have run: "handle_events env chk ev s = Ok ?s"
    using handle_stateful_run [OF wf chk ev, of env] by (simp add: Let_def)
  have same: "rule_undos ?s1 = rule_undos s" "rule_actions ?s1 = rule_actions s"
    by (simp_all add: rule_undos_def rule_actions_def fun_eq_iff)
  have eff: "effects ?s = effects s @ concat (map (rule_undos s) ?gone) @ concat (map (rule_actions s) ?come)"
    by (simp add: round_effects_def act same)
  have in_rules: "r \<in> set (rules s) \<and> rule_heap s r \<noteq> None" if r: "r \<in> set ?rs" for r
  proof -
    obtain rule where rule: "rule_heap s r = Some rule" using flipped_live [OF wf r] by (auto simp: live_rule_def)
    then have "linked rule" "rule_ok s r rule" using comp wf by (auto simp: complete_def wf_engine_def rules_ok_def)
    with rule show ?thesis by (simp add: rule_ok_def)
  qed
  have final: "active ?s r = (if r \<in> set ?rs then all_true ?s1 r else active s r)" if "r \<in> set (rules s)" for r
    using in_rules by (auto simp: active_set_active act)
  have "set ?gone = {r \<in> set (rules s). active s r \<and> \<not> active ?s r}"
    using in_rules final by (auto split: if_splits)
  moreover have "set ?come = {r \<in> set (rules s). \<not> active s r \<and> active ?s r}"
    using in_rules final by (auto split: if_splits)
  moreover have "(\<forall>r rule. rule_heap s r = Some rule \<longrightarrow> card (set (conditions rule) \<inter> set ?L) \<le> 1) \<longrightarrow>
      distinct ?gone \<and> distinct ?come"
    using flipped_distinct [OF wf ev(1)] by simp
  ultimately show ?thesis using run eff by blast
qed


text \<open>
  A small engine: one stateful event, one rule with the conditions at the given addresses,
  one action.
\<close>

definition demo_check :: "string \<Rightarrow> arg \<Rightarrow> arg list \<Rightarrow> bool" where
  "demo_check f v args \<longleftrightarrow>
     (case (v, args) of (Arg_Int a, [Arg_Int b]) \<Rightarrow> a > b | _ \<Rightarrow> False)"

definition demo_checker :: "'d checker" where
  "demo_checker f ev args s = Ok (demo_check f (ev_value (events s ! ev)) args, s)"

lemma demo_checker_pure: "pure_checker demo_checker demo_check ev s"
  by (simp add: pure_checker_def demo_checker_def)

definition demo_condition :: "int \<Rightarrow> condition" where
  "demo_condition i = \<lparr>c_type = demo_type, c_rule = Some 0, is_true = False, is_inverted = False, c_args = [Arg_Int i]\<rparr>"

definition demo_rule :: "addr list \<Rightarrow> rule" where
  "demo_rule cs = \<lparr>rule_id = Some ''hot'', conditions = cs,
     actions = [\<lparr>a_type = demo_action, a_args = [Arg_Str ''hot'']\<rparr>], undos = [], is_active = False, linked = True\<rparr>"

definition demo_loaded :: "addr list \<Rightarrow> bool \<Rightarrow> int \<Rightarrow> (string \<Rightarrow> string option) xstate" where
  "demo_loaded cs stateless v = empty_state\<lparr>
     events := [\<lparr>ev_name = ''temp'', is_stateless = stateless, listeners = cs,
       value_type = ARG_INT, reset_value = Arg_Int 0, ev_value = Arg_Int v\<rparr>],
     condition_types := [demo_type], action_types := [demo_action],
     cond_heap := (\<lambda>c. if c \<in> set cs then Some (demo_condition (int (90 - c))) else None),
     rule_heap := [0 \<mapsto> demo_rule cs], rules := [0], next_addr := 3\<rparr>"

lemma demo_loaded_ok:
  assumes "distinct cs" and "set cs \<subseteq> {1, 2}" and "cs \<noteq> []"
  shows "engine_ok (demo_loaded cs b v)" and "at_rest (demo_loaded cs b v)"
proof -
  let ?s = "demo_loaded cs b v"
  have "heap_bounded ?s" using assms(2) by (auto simp: heap_bounded_def demo_loaded_def)
  moreover have "listeners_ok ?s"
    using assms(1) by (auto simp: listeners_ok_def demo_loaded_def demo_condition_def demo_type_def)
  moreover have "conds_ok ?s"
    by (auto simp: conds_ok_def demo_loaded_def demo_condition_def demo_rule_def demo_type_def)
  moreover have "rules_ok ?s"
    using assms(1) by (auto simp: rules_ok_def rule_ok_def demo_loaded_def demo_condition_def demo_rule_def split: if_splits)
  moreover have "types_ok ?s" by (simp add: types_ok_def demo_loaded_def demo_type_def)
  moreover have "complete ?s" by (auto simp: complete_def demo_loaded_def demo_rule_def split: if_splits)
  moreover have vars: "rule_vars ?s (demo_rule cs) = []"
    by (auto simp: rule_vars_def cond_vars_def demo_loaded_def demo_rule_def demo_condition_def)
  moreover have "refs_ok ?s"
  proof -
    have heap: "rules ?s = [0]" "rule_heap ?s 0 = Some (demo_rule cs)" "db_vars ?s = []"
      by (simp_all add: demo_loaded_def empty_state_def)
    have "uses ?s n 0 = 0" for n by (simp add: uses_def heap vars)
    then show ?thesis by (simp add: refs_ok_def heap vars ref_of_def cached_var_def)
  qed
  ultimately show "engine_ok ?s" by (simp add: engine_ok_def wf_engine_def)
  show "at_rest ?s"
    using assms(3)
    by (cases cs)
      (auto simp: at_rest_def active_def all_true_def demo_loaded_def demo_rule_def demo_condition_def split: if_splits)
qed

theorem handle_events_invariant_witness:
  "\<exists>s'. handle_events map_env demo_checker 0 (demo_loaded [1] True 95) = Ok s' \<and> engine_ok s' \<and> at_rest s' \<and>
     same_shape (demo_loaded [1] True 95) s'"
proof -
  have ok: "engine_ok (demo_loaded [1] True 95)" "at_rest (demo_loaded [1] True 95)"
    by (rule demo_loaded_ok; simp)+
  have "0 < length (events (demo_loaded [1] True 95))" by (simp add: demo_loaded_def)
  from handle_events_invariant [OF ok demo_checker_pure this] show ?thesis .
qed

theorem handle_events_effects_witness:
  "\<exists>s' gone come. handle_events map_env demo_checker 0 (demo_loaded [1] False 95) = Ok s' \<and>
     effects s' = effects (demo_loaded [1] False 95) @ concat (map (rule_undos (demo_loaded [1] False 95)) gone) @
       concat (map (rule_actions (demo_loaded [1] False 95)) come) \<and> distinct gone \<and> distinct come"
proof -
  let ?s = "demo_loaded [1] False 95"
  have ev: "0 < length (events ?s)" "\<not> is_stateless (events ?s ! 0)" by (simp_all add: demo_loaded_def)
  have "card (set (conditions rule) \<inter> set (listeners (events ?s ! 0))) \<le> 1" for rule
    using card_mono [of "{1}" "set (conditions rule) \<inter> {1}"] by (simp add: demo_loaded_def)
  then have one: "\<forall>r rule. rule_heap ?s r = Some rule \<longrightarrow>
      card (set (conditions rule) \<inter> set (listeners (events ?s ! 0))) \<le> 1" by blast
  have ok: "engine_ok ?s" "at_rest ?s" by (rule demo_loaded_ok; simp)+
  from handle_events_effects [OF ok demo_checker_pure ev, of map_env] one show ?thesis by blast
qed

end
