(* ===== verification/Policy_Eval.thy ===== *)
theory Policy_Eval
  imports Policy_Modules
begin

text \<open>
  What stateless events and the evaluation of the whole policy do (\<open>modules.c\<close>).
\<close>

subsection \<open>Stateless events\<close>

definition triggered ::
  "(string \<Rightarrow> arg \<Rightarrow> arg list \<Rightarrow> bool) \<Rightarrow> nat \<Rightarrow> 'd xstate \<Rightarrow> addr \<Rightarrow> bool" where
  \<comment> \<open>the rule listens to the event, its conditions on the event hold now and its others are true\<close>
  "triggered g ev s r \<longleftrightarrow>
     (\<exists>rule. rule_heap s r = Some rule \<and>
        (\<exists>c \<in> set (conditions rule). \<exists>x. cond_heap s c = Some x \<and> ct_event (c_type x) = ev) \<and>
        (\<forall>c \<in> set (conditions rule). \<exists>x. cond_heap s c = Some x \<and>
           (if ct_event (c_type x) = ev then holds_now g ev s x else is_true x)))"

lemma flipped_iff:
  "r \<in> set (flipped_rules g ev cs s) \<longleftrightarrow>
    (\<exists>c \<in> set cs. \<exists>x. cond_heap s c = Some x \<and> c_rule x = Some r \<and> is_true x \<noteq> holds_now g ev s x)"
proof -
  have "r \<in> set (case cond_heap s c of
      Some x \<Rightarrow> if is_true x \<noteq> holds_now g ev s x then (case c_rule x of Some r \<Rightarrow> [r] | None \<Rightarrow> []) else []
    | None \<Rightarrow> []) \<longleftrightarrow> (\<exists>x. cond_heap s c = Some x \<and> c_rule x = Some r \<and> is_true x \<noteq> holds_now g ev s x)" for c
  proof (cases "cond_heap s c")
    case (Some x)
    then show ?thesis by (cases "is_true x = holds_now g ev s x"; cases "c_rule x") auto
  qed simp
  then show ?thesis unfolding flipped_rules_def set_concat set_map by blast
qed

lemma listening_iff:
  assumes wf: "wf_engine s" and ev: "ev < length (events s)" and x: "cond_heap s c = Some x"
  shows "c \<in> set (listeners (events s ! ev)) \<longleftrightarrow> ct_event (c_type x) = ev"
proof
  assume "c \<in> set (listeners (events s ! ev))"
  then show "ct_event (c_type x) = ev" using wf_listener [OF wf ev] x by fastforce
next
  assume "ct_event (c_type x) = ev"
  with wf_condition [OF wf x] show "c \<in> set (listeners (events s ! ev))" by metis
qed

lemma stateless_condition_false:
  "at_rest s \<Longrightarrow> cond_heap s c = Some x \<Longrightarrow> is_stateless (events s ! ct_event (c_type x)) \<Longrightarrow> \<not> is_true x"
  by (simp add: at_rest_def)

lemma stateless_restored:
  assumes wf: "wf_engine s" and rest: "at_rest s" and ev: "ev < length (events s)" "is_stateless (events s ! ev)"
  defines "L \<equiv> set (listeners (events s ! ev))"
  shows "clear_conditions L (reset_value_of ev (emit es (recheck g ev L s))) = emit es (reset_value_of ev s)"
proof -
  have "(if c \<in> L then map_option (\<lambda>x. x\<lparr>is_true := False\<rparr>)
          (if c \<in> L then map_option (\<lambda>x. x\<lparr>is_true := holds_now g ev s x\<rparr>) (cond_heap s c) else cond_heap s c)
        else (if c \<in> L then map_option (\<lambda>x. x\<lparr>is_true := holds_now g ev s x\<rparr>) (cond_heap s c) else cond_heap s c)) =
      cond_heap s c" for c
  proof (cases "c \<in> L")
    case True
    then obtain x where x: "cond_heap s c = Some x" "ct_event (c_type x) = ev"
      using wf_listener [OF wf ev(1)] unfolding L_def by blast
    then have "\<not> is_true x" using stateless_condition_false [OF rest] ev(2) by simp
    with True x show ?thesis by simp
  qed simp
  then show ?thesis
    by (simp add: clear_conditions_def reset_value_of_def emit_def recheck_def cong: if_cong)
qed

lemma triggered_iff:
  assumes ok: "engine_ok s" and rest: "at_rest s" and ev: "ev < length (events s)" "is_stateless (events s ! ev)"
  defines "L \<equiv> listeners (events s ! ev)"
  shows "r \<in> set (flipped_rules g ev L s) \<and> all_true (recheck g ev (set L) s) r \<longleftrightarrow> r \<in> set (rules s) \<and> triggered g ev s r"
proof -
  have wf: "wf_engine s" and comp: "complete s" using ok by (simp_all add: engine_ok_def)
  note lis = listening_iff [OF wf ev(1), folded L_def]
  have heap: "(\<exists>x. cond_heap (recheck g ev (set L) s) c = Some x \<and> is_true x) \<longleftrightarrow>
      (\<exists>x. cond_heap s c = Some x \<and> (if ct_event (c_type x) = ev then holds_now g ev s x else is_true x))" for c
    using lis [of c] by (auto simp: recheck_def)
  show ?thesis
  proof
    assume a: "r \<in> set (flipped_rules g ev L s) \<and> all_true (recheck g ev (set L) s) r"
    then obtain c x where c: "c \<in> set L" "cond_heap s c = Some x" "c_rule x = Some r"
      using flipped_iff [of r g ev] by blast
    obtain rule where rule: "rule_heap s r = Some rule" "c \<in> set (conditions rule)"
      using wf_condition [OF wf c(2)] c(3) by (metis option.inject)
    then have "linked rule" "rule_ok s r rule" using comp wf by (auto simp: complete_def wf_engine_def rules_ok_def)
    then have "r \<in> set (rules s)" by (simp add: rule_ok_def)
    moreover have "ct_event (c_type x) = ev" using lis c by simp
    ultimately show "r \<in> set (rules s) \<and> triggered g ev s r"
      using a rule c(2) unfolding triggered_def all_true_def heap by auto
  next
    assume a: "r \<in> set (rules s) \<and> triggered g ev s r"
    then obtain rule c x where rule: "rule_heap s r = Some rule" and c: "c \<in> set (conditions rule)"
        "cond_heap s c = Some x" "ct_event (c_type x) = ev"
      and all: "\<forall>c \<in> set (conditions rule). \<exists>x. cond_heap s c = Some x \<and>
           (if ct_event (c_type x) = ev then holds_now g ev s x else is_true x)"
      by (auto simp: triggered_def)
    have "\<not> is_true x" "holds_now g ev s x"
      using stateless_condition_false [OF rest c(2)] all c ev(2) by fastforce+
    moreover have "c_rule x = Some r" using wf_conditions_live [OF wf rule c(1)] c(2) by auto
    ultimately have "r \<in> set (flipped_rules g ev L s)"
      using flipped_iff [of r g ev] lis [OF c(2)] c by blast
    moreover have "all_true (recheck g ev (set L) s) r"
      unfolding all_true_def heap using all rule by simp
    ultimately show "r \<in> set (flipped_rules g ev L s) \<and> all_true (recheck g ev (set L) s) r" by blast
  qed
qed

lemma flipped_inactive:
  assumes wf: "wf_engine s" and rest: "at_rest s" and ev: "ev < length (events s)" "is_stateless (events s ! ev)"
    and comp: "complete s" and r: "r \<in> set (flipped_rules g ev (listeners (events s ! ev)) s)"
  shows "\<not> active s r"
proof -
  obtain c x where c: "c \<in> set (listeners (events s ! ev))" "cond_heap s c = Some x" "c_rule x = Some r"
    using r flipped_iff [of r g ev] by blast
  obtain rule where rule: "rule_heap s r = Some rule" "c \<in> set (conditions rule)"
    using wf_condition [OF wf c(2)] c(3) by (metis option.inject)
  then have "linked rule" "rule_ok s r rule" using comp wf by (auto simp: complete_def wf_engine_def rules_ok_def)
  then have "r \<in> set (rules s)" by (simp add: rule_ok_def)
  moreover have "\<not> is_true x"
    using stateless_condition_false [OF rest c(2)] listening_iff [OF wf ev(1) c(2)] c(1) ev(2) by simp
  then have "\<not> all_true s r" using rule c(2) unfolding all_true_def by force
  ultimately show ?thesis using rest by (simp add: at_rest_def)
qed

lemma stateful_truth:
  assumes wf: "wf_engine s" and chk: "pure_checker chk g ev s" and ev: "ev < length (events s)" "\<not> is_stateless (events s ! ev)"
    and run: "handle_events env chk ev s = Ok s'" and x: "cond_heap s' c = Some x" "ct_event (c_type x) = ev"
  shows "is_true x = g (ct_check (c_type x)) (ev_value (events s ! ev)) (c_args x)"
proof -
  let ?L = "set (listeners (events s ! ev))"
  have heap: "cond_heap s' = cond_heap (recheck g ev ?L s)"
    using handle_stateful_run [OF wf chk ev, of env] run by (auto simp: Let_def)
  have "\<exists>y. cond_heap s c = Some y \<and> c_type x = c_type y \<and> c_args x = c_args y"
    using x(1) unfolding heap recheck_def by (auto split: if_splits)
  then obtain y where y: "cond_heap s c = Some y" "c_type x = c_type y" "c_args x = c_args y" by blast
  have "c \<in> ?L" using listening_iff [OF wf ev(1) y(1)] x(2) y(2) by simp
  then have "x = y\<lparr>is_true := holds_now g ev s y\<rparr>" using x(1) y(1) unfolding heap by (simp add: recheck_def)
  then show ?thesis by (simp add: holds_now_def)
qed

text \<open>
  C11. What a stateless event (a button, a brightness key, a change of a machine's state)
  makes the policy do: the actions of exactly the rules that listen to it and all of whose
  conditions hold at that moment, and no undo action. Nothing else lasts: conditions and
  rules are as before the event and the event has its reset value again.
\<close>

theorem stateless_event_effects:
  assumes ok: "engine_ok s" and rest: "at_rest s" and chk: "pure_checker chk g ev s"
    and ev: "ev < length (events s)" "is_stateless (events s ! ev)"
  shows "\<exists>come. handle_events env chk ev s = Ok (emit (concat (map (rule_actions s) come)) (reset_value_of ev s)) \<and>
    set come = {r \<in> set (rules s). triggered g ev s r} \<and>
    ((\<forall>r rule. rule_heap s r = Some rule \<longrightarrow> card (set (conditions rule) \<inter> set (listeners (events s ! ev))) \<le> 1) \<longrightarrow>
      distinct come)"
proof -
  have wf: "wf_engine s" and comp: "complete s" using ok by (simp_all add: engine_ok_def)
  let ?L = "listeners (events s ! ev)"
  let ?s1 = "recheck g ev (set ?L) s" and ?rs = "flipped_rules g ev ?L s"
  let ?come = "filter (\<lambda>r. all_true ?s1 r \<and> \<not> active s r) ?rs"
  note inactive = flipped_inactive [OF wf rest ev comp]
  have same: "rule_actions ?s1 = rule_actions s" "active ?s1 = active s"
    by (simp_all add: rule_actions_def active_def fun_eq_iff)
  have "filter (\<lambda>r. active s r \<and> \<not> all_true ?s1 r) ?rs = []"
    using inactive by (auto simp: filter_empty_conv)
  then have "round_effects ?s1 ?rs = concat (map (rule_actions s) ?come)"
    unfolding round_effects_def same by simp
  then have "handle_events env chk ev s = Ok (emit (concat (map (rule_actions s) ?come)) (reset_value_of ev s))"
    using handle_stateless_run [OF wf chk ev, of env] stateless_restored [OF wf rest ev] by (simp add: Let_def)
  moreover have "set ?come = {r \<in> set (rules s). triggered g ev s r}"
    using triggered_iff [OF ok rest ev, of _ g] inactive by auto
  moreover have "(\<forall>r rule. rule_heap s r = Some rule \<longrightarrow> card (set (conditions rule) \<inter> set ?L) \<le> 1) \<longrightarrow> distinct ?come"
    using flipped_distinct [OF wf ev(1)] by simp
  ultimately show ?thesis by blast
qed

subsection \<open>Evaluating the whole policy\<close>

definition refreshed :: "(string \<Rightarrow> arg \<Rightarrow> arg list \<Rightarrow> bool) \<Rightarrow> addr set \<Rightarrow> 'd xstate \<Rightarrow> 'd xstate" where
  "refreshed g C s =
     s\<lparr>cond_heap := (\<lambda>c. if c \<in> C
        then map_option (\<lambda>x. x\<lparr>is_true := holds_now g (ct_event (c_type x)) s x\<rparr>) (cond_heap s c)
        else cond_heap s c)\<rparr>"

lemma refreshed_simps [simp]:
  "events (refreshed g C s) = events s" "rules (refreshed g C s) = rules s"
  "rule_heap (refreshed g C s) = rule_heap s" "effects (refreshed g C s) = effects s"
  "db_vars (refreshed g C s) = db_vars s" "refreshed g {} s = s"
  "rule_actions (refreshed g C s) = rule_actions s" "rule_undos (refreshed g C s) = rule_undos s"
  "active (refreshed g C s) = active s" "live_rule (refreshed g C s) = live_rule s"
  by (auto simp: refreshed_def rule_actions_def rule_undos_def active_def live_rule_def fun_eq_iff)

lemma shape_refreshed: "same_shape s (refreshed g C s)"
  by (simp add: same_shape_def refreshed_def option.map_comp comp_def)

lemma refreshed_union: "refreshed g C (refreshed g D s) = refreshed g (C \<union> D) s"
  by (auto simp: refreshed_def holds_now_def fun_eq_iff option.map_comp comp_def
      intro!: arg_cong [where f = "\<lambda>h. s\<lparr>cond_heap := h\<rparr>"])

lemma refreshed_cond:
  assumes "cond_heap (refreshed g C s) c = Some x"
  obtains y where "cond_heap s c = Some y" "c_type x = c_type y" "c_args x = c_args y" "c_rule x = c_rule y"
    "is_true x = (if c \<in> C then holds_now g (ct_event (c_type y)) s y else is_true y)"
  using assms by (auto simp: refreshed_def split: if_splits)

lemma pure_checker_refreshed:
  "pure_checker chk g ev s \<Longrightarrow> pure_checker chk g ev (refreshed g C s)"
  unfolding pure_checker_def by (auto elim!: refreshed_cond)

lemma refresh_conditions_run:
  assumes "\<forall>c \<in> set cs. \<exists>x. cond_heap s c = Some x \<and> ct_event (c_type x) = ev" and "pure_checker chk g ev s"
  shows "ofold (refresh_condition chk ev) cs s = Ok (refreshed g (set cs) s)"
  using assms
proof (induction cs arbitrary: s)
  case (Cons c cs)
  then obtain x where x: "cond_heap s c = Some x" "ct_event (c_type x) = ev" by auto
  have "refresh_condition chk ev c s = Ok (refreshed g {c} s)"
    using x Cons.prems(2)
    by (auto simp: refresh_condition_def pure_checker_def upd_cond_def refreshed_def holds_now_def fun_eq_iff
        intro!: arg_cong [where f = "\<lambda>h. s\<lparr>cond_heap := h\<rparr>"])
  moreover have "ofold (refresh_condition chk ev) cs (refreshed g {c} s) = Ok (refreshed g (set cs) (refreshed g {c} s))"
    using Cons.prems by (intro Cons.IH pure_checker_refreshed) (auto simp: refreshed_def)
  ultimately show ?case by (simp add: refreshed_union)
qed simp

definition listening :: "'d xstate \<Rightarrow> nat set \<Rightarrow> addr set" where
  \<comment> \<open>the conditions that listen to the stateful ones of these events\<close>
  "listening s E = (\<Union>ev \<in> {ev \<in> E. \<not> is_stateless (events s ! ev)}. set (listeners (events s ! ev)))"

lemma refresh_events_run:
  assumes wf: "wf_engine s" and evs: "set evs \<subseteq> {..<length (events s)}"
    and chk: "\<forall>ev \<in> set evs. \<not> is_stateless (events s ! ev) \<longrightarrow> pure_checker chk g ev s"
  shows "ofold (refresh_event chk) evs s = Ok (refreshed g (listening s (set evs)) s)"
  using assms
proof (induction evs arbitrary: s)
  case Nil
  then show ?case by (simp add: listening_def)
next
  case (Cons ev evs)
  let ?L = "if is_stateless (events s ! ev) then {} else set (listeners (events s ! ev))"
  have "\<forall>c \<in> set (listeners (events s ! ev)). \<exists>x. cond_heap s c = Some x \<and> ct_event (c_type x) = ev"
    using wf_listener [OF Cons.prems(1), of ev] Cons.prems(2) by fastforce
  then have step: "refresh_event chk ev s = Ok (refreshed g ?L s)"
    using refresh_conditions_run [of "listeners (events s ! ev)" s ev chk g] Cons.prems(3)
    by (auto simp: refresh_event_def)
  have "ofold (refresh_event chk) evs (refreshed g ?L s) = Ok (refreshed g (listening s (set evs)) (refreshed g ?L s))"
    using Cons.prems Cons.IH [of "refreshed g ?L s"] same_shape_wf [OF shape_refreshed, of s]
    by (simp add: pure_checker_refreshed listening_def)
  moreover have "listening s (set evs) \<union> ?L = listening s (set (ev # evs))"
    by (auto simp: listening_def)
  ultimately show ?case using step by (simp add: refreshed_union)
qed

lemma deactivate_run:
  assumes "\<forall>r \<in> set rs. live_rule s r" and "distinct rs"
  shows "ofold (deactivate env) rs s =
    Ok (emit (concat (map (rule_undos s) (filter (\<lambda>r. active s r \<and> \<not> all_true s r) rs)))
         (set_active (\<lambda>_. False) {r \<in> set rs. \<not> all_true s r} s))"
  using assms
proof (induction rs arbitrary: s)
  case (Cons r rs)
  then obtain rule where rule: "rule_heap s r = Some rule" by (auto simp: live_rule_def)
  let ?es = "if active s r \<and> \<not> all_true s r then rule_undos s r else []"
  let ?R = "if all_true s r then {} else {r}"
  let ?s = "emit ?es (set_active (\<lambda>_. False) ?R s)"
  have "deactivate env r s = Ok ?s"
    using Cons.prems rule upd_rule_active [of "emit ?es s" r "\<lambda>_. False" False]
    by (auto simp: deactivate_def evaluate_rule_run do_undos_run active_def)
  moreover have "ofold (deactivate env) rs ?s =
    Ok (emit (concat (map (rule_undos ?s) (filter (\<lambda>q. active ?s q \<and> \<not> all_true ?s q) rs)))
         (set_active (\<lambda>_. False) {q \<in> set rs. \<not> all_true ?s q} ?s))"
    using Cons.prems by (intro Cons.IH) auto
  moreover have "filter (\<lambda>q. active ?s q \<and> \<not> all_true ?s q) rs = filter (\<lambda>q. active s q \<and> \<not> all_true s q) rs"
    using Cons.prems(2) by (intro filter_cong refl) (auto simp: active_set_active)
  moreover have "{q \<in> set rs. \<not> all_true s q} \<union> ?R = {q \<in> set (r # rs). \<not> all_true s q}" by auto
  ultimately show ?case by simp
qed simp

lemma activate_run:
  assumes "\<forall>r \<in> set rs. live_rule s r"
  shows "ofold (activate env) rs s =
    Ok (emit (concat (map (rule_actions s) (filter (all_true s) rs)))
         (set_active (\<lambda>_. True) {r \<in> set rs. all_true s r} s))"
  using assms
proof (induction rs arbitrary: s)
  case (Cons r rs)
  then obtain rule where rule: "rule_heap s r = Some rule" by (auto simp: live_rule_def)
  let ?es = "if all_true s r then rule_actions s r else []"
  let ?R = "if all_true s r then {r} else {}"
  let ?s = "emit ?es (set_active (\<lambda>_. True) ?R s)"
  have "activate env r s = Ok ?s"
    using Cons.prems rule upd_rule_active [of s r "\<lambda>_. True" True]
    by (auto simp: activate_def evaluate_rule_run do_actions_run)
  moreover have "ofold (activate env) rs ?s =
    Ok (emit (concat (map (rule_actions ?s) (filter (all_true ?s) rs)))
         (set_active (\<lambda>_. True) {q \<in> set rs. all_true ?s q} ?s))"
    using Cons.prems by (intro Cons.IH) auto
  moreover have "{q \<in> set rs. all_true s q} \<union> ?R = {q \<in> set (r # rs). all_true s q}" by auto
  ultimately show ?case by (simp cong: filter_cong)
qed simp

lemma refreshed_truth:
  assumes wf: "wf_engine s" and x: "cond_heap (refreshed g (listening s {0..<length (events s)}) s) c = Some x"
    and quiet: "\<forall>c x. cond_heap s c = Some x \<longrightarrow> is_stateless (events s ! ct_event (c_type x)) \<longrightarrow> \<not> is_true x"
  shows "is_true x \<longleftrightarrow> \<not> is_stateless (events s ! ct_event (c_type x)) \<and> holds_now g (ct_event (c_type x)) s x"
proof -
  let ?E = "{0..<length (events s)}"
  obtain y where y: "cond_heap s c = Some y" "c_type x = c_type y" "c_args x = c_args y"
      "is_true x = (if c \<in> listening s ?E then holds_now g (ct_event (c_type y)) s y else is_true y)"
    by (rule refreshed_cond [OF x])
  have ev: "ct_event (c_type y) < length (events s)" by (rule wf_condition [OF wf y(1)])
  have "c \<in> listening s ?E \<longleftrightarrow> \<not> is_stateless (events s ! ct_event (c_type y))"
    using listening_iff [OF wf _ y(1)] ev unfolding listening_def by fastforce
  with y quiet show ?thesis by (auto simp: holds_now_def)
qed

text \<open>
  C10. Evaluating the whole policy, as the daemon does once a policy has been loaded: it
  returns, every condition on a stateful event is what its checker says of the event's
  current value, and a rule is active exactly when all its conditions are true. The undo
  actions of the rules that stop being active run first, in the order of the rule list, then
  the actions of all active rules, those that were active before included.
\<close>

theorem evaluate_policy_spec:
  assumes ok: "engine_ok s"
    and quiet: "\<forall>c x. cond_heap s c = Some x \<longrightarrow> is_stateless (events s ! ct_event (c_type x)) \<longrightarrow> \<not> is_true x"
    and chk: "\<forall>ev < length (events s). \<not> is_stateless (events s ! ev) \<longrightarrow> pure_checker chk g ev s"
  shows "\<exists>s'. evaluate_policy env chk s = Ok s' \<and> engine_ok s' \<and> at_rest s' \<and> same_shape s s' \<and> events s' = events s \<and>
    (\<forall>c x. cond_heap s' c = Some x \<longrightarrow>
       (is_true x \<longleftrightarrow> \<not> is_stateless (events s ! ct_event (c_type x)) \<and> holds_now g (ct_event (c_type x)) s x)) \<and>
    effects s' = effects s @
      concat (map (rule_undos s) (filter (\<lambda>r. active s r \<and> \<not> active s' r) (rules s))) @
      concat (map (rule_actions s) (filter (active s') (rules s)))"
proof -
  have wf: "wf_engine s" using ok by (simp add: engine_ok_def)
  let ?s1 = "refreshed g (listening s {0..<length (events s)}) s"
  let ?gone = "filter (\<lambda>r. active s r \<and> \<not> all_true ?s1 r) (rules s)" and ?come = "filter (all_true ?s1) (rules s)"
  let ?s2 = "emit (concat (map (rule_undos s) ?gone)) (set_active (\<lambda>_. False) {r \<in> set (rules s). \<not> all_true ?s1 r} ?s1)"
  let ?s3 = "emit (concat (map (rule_actions s) ?come)) (set_active (\<lambda>_. True) {r \<in> set (rules s). all_true ?s1 r} ?s2)"
  have run1: "ofold (refresh_event chk) [0..<length (events s)] s = Ok ?s1"
    using refresh_events_run [OF wf, of "[0..<length (events s)]" chk g] chk by (simp add: atLeast0LessThan)
  have live: "\<forall>r \<in> set (rules s). live_rule s r"
    using wf_rule_in_list [OF wf] wf_live_rule [OF wf] by blast
  have dist: "distinct (rules s)" using wf by (simp add: wf_engine_def rules_ok_def)
  have run2: "ofold (deactivate env) (rules s) ?s1 = Ok ?s2"
    using deactivate_run [of "rules s" ?s1 env] live dist by simp
  have run3: "ofold (activate env) (rules s) ?s2 = Ok ?s3"
    using activate_run [of "rules s" ?s2 env] live by (simp cong: filter_cong)
  have run: "evaluate_policy env chk s = Ok ?s3"
    unfolding evaluate_policy_def run1 by (simp add: run2 del: set_active_simps(10,11)) (simp add: run3 del: set_active_simps(10,11))
  have shape: "same_shape s ?s3" by (intro shape_emit shape_set_active shape_refreshed)
  have act: "active ?s3 r = all_true ?s1 r" if "r \<in> set (rules s)" for r
    using that live by (auto simp: active_set_active live_rule_def simp del: set_active_simps(10,11)) (auto simp: set_active_def)
  have truth: "is_true x \<longleftrightarrow> \<not> is_stateless (events s ! ct_event (c_type x)) \<and> holds_now g (ct_event (c_type x)) s x"
    if "cond_heap ?s3 c = Some x" for c x
    using refreshed_truth [OF wf _ quiet] that by simp
  have "at_rest ?s3" unfolding at_rest_def using act truth by simp
  moreover have "effects ?s3 = effects s @
      concat (map (rule_undos s) (filter (\<lambda>r. active s r \<and> \<not> active ?s3 r) (rules s))) @
      concat (map (rule_actions s) (filter (active ?s3) (rules s)))"
  proof -
    have "filter (\<lambda>r. active s r \<and> \<not> active ?s3 r) (rules s) = ?gone" "filter (active ?s3) (rules s) = ?come"
      using act by (auto intro!: filter_cong simp del: emit_simps set_active_simps)
    moreover have "effects ?s3 = effects s @ concat (map (rule_undos s) ?gone) @ concat (map (rule_actions s) ?come)"
      by simp
    ultimately show ?thesis by (simp only:)
  qed
  ultimately show ?thesis
    using run same_shape_engine_ok [OF shape ok] shape truth by (intro exI [of _ ?s3]) simp
qed

text \<open>The two properties on a small engine.\<close>

theorem stateless_event_effects_witness:
  "\<exists>come. handle_events map_env demo_checker 0 (demo_loaded [1] True 95) =
      Ok (emit (concat (map (rule_actions (demo_loaded [1] True 95)) come)) (reset_value_of 0 (demo_loaded [1] True 95))) \<and>
    set come = {0}"
proof -
  let ?s = "demo_loaded [1] True 95"
  have ok: "engine_ok ?s" "at_rest ?s" by (rule demo_loaded_ok; simp)+
  have ev: "0 < length (events ?s)" "is_stateless (events ?s ! 0)" by (simp_all add: demo_loaded_def)
  have "{r \<in> set (rules ?s). triggered demo_check 0 ?s r} = {0}"
    by (auto simp: triggered_def demo_loaded_def demo_rule_def demo_condition_def demo_type_def holds_now_def demo_check_def)
  with stateless_event_effects [OF ok demo_checker_pure ev, of map_env] show ?thesis by (metis (no_types, lifting))
qed

theorem evaluate_policy_spec_witness:
  "\<exists>s'. evaluate_policy map_env demo_checker (demo_loaded [1] False 95) = Ok s' \<and> active s' 0 \<and>
     effects s' = [(''log_string'', [Arg_Str ''hot''])]"
proof -
  let ?s = "demo_loaded [1] False 95"
  have ok: "engine_ok ?s" "at_rest ?s" by (rule demo_loaded_ok; simp)+
  then have quiet: "\<forall>c x. cond_heap ?s c = Some x \<longrightarrow> is_stateless (events ?s ! ct_event (c_type x)) \<longrightarrow> \<not> is_true x"
    by (simp add: at_rest_def)
  have "\<forall>ev < length (events ?s). \<not> is_stateless (events ?s ! ev) \<longrightarrow> pure_checker demo_checker demo_check ev ?s"
    using demo_checker_pure by blast
  from evaluate_policy_spec [OF ok(1) quiet this, of map_env] obtain s' where
    s': "evaluate_policy map_env demo_checker ?s = Ok s'" "at_rest s'" "same_shape ?s s'"
      "\<forall>c x. cond_heap s' c = Some x \<longrightarrow>
        (is_true x \<longleftrightarrow> \<not> is_stateless (events ?s ! ct_event (c_type x)) \<and> holds_now demo_check (ct_event (c_type x)) ?s x)"
      "effects s' = effects ?s @
        concat (map (rule_undos ?s) (filter (\<lambda>r. active ?s r \<and> \<not> active s' r) (rules ?s))) @
        concat (map (rule_actions ?s) (filter (active s') (rules ?s)))"
    by (elim exE conjE) (rule that)
  obtain x where x: "cond_heap s' 1 = Some x" "c_type x = demo_type" "c_args x = [Arg_Int 89]"
  proof (rule same_shape_cond [OF same_shape_sym [OF s'(3)]])
    show "cond_heap ?s 1 = Some (demo_condition 89)" by (simp add: demo_loaded_def)
  qed (simp add: demo_condition_def that)
  obtain rule where rule: "rule_heap s' 0 = Some rule" "conditions rule = [1]"
  proof (rule same_shape_rule [OF same_shape_sym [OF s'(3)]])
    show "rule_heap ?s 0 = Some (demo_rule [1])" by (simp add: demo_loaded_def)
  qed (simp add: demo_rule_def that)
  have "is_true x" using s'(4) [rule_format, OF x(1)] x(2,3)
    by (simp add: demo_type_def holds_now_def demo_check_def demo_loaded_def)
  with x(1) rule have "all_true s' 0" by (simp add: all_true_def)
  moreover have "rules ?s = [0]" "rules s' = rules ?s" using s'(3) by (simp_all add: demo_loaded_def same_shape_def)
  ultimately have act: "active s' 0" using s'(2) by (simp add: at_rest_def)
  moreover have "effects s' = [(''log_string'', [Arg_Str ''hot''])]"
  proof -
    have "effects ?s = []" by (simp add: demo_loaded_def empty_state_def)
    moreover have "rule_actions ?s 0 = [(''log_string'', [Arg_Str ''hot''])]"
      by (simp add: demo_loaded_def rule_actions_def calls_def demo_rule_def demo_action_def)
    ultimately show ?thesis using s'(5) act \<open>rules ?s = [0]\<close> by simp
  qed
  ultimately show ?thesis using s'(1) by blast
qed

subsection \<open>Loading and deleting rules at rest\<close>

definition registry :: "'d xstate \<Rightarrow> condition_type list \<times> action_type list \<times> ev_wrapper list" where
  \<comment> \<open>what modules have registered: the types, and the events apart from their listeners\<close>
  "registry s = (condition_types s, action_types s, map (unlisten UNIV) (events s))"

lemma registry_events:
  assumes "registry t = registry s"
  shows "length (events t) = length (events s)" and
    "i < length (events s) \<Longrightarrow> is_stateless (events t ! i) = is_stateless (events s ! i) \<and>
       ev_value (events t ! i) = ev_value (events s ! i) \<and> reset_value (events t ! i) = reset_value (events s ! i)"
proof -
  have m: "map (unlisten UNIV) (events t) = map (unlisten UNIV) (events s)" using assms by (simp add: registry_def)
  show len: "length (events t) = length (events s)" using m by (metis length_map)
  assume i: "i < length (events s)"
  then have "unlisten UNIV (events t ! i) = unlisten UNIV (events s ! i)" using m len by (metis nth_map)
  then show "is_stateless (events t ! i) = is_stateless (events s ! i) \<and>
       ev_value (events t ! i) = ev_value (events s ! i) \<and> reset_value (events t ! i) = reset_value (events s ! i)"
    by (cases "events t ! i", cases "events s ! i") (simp add: unlisten_def)
qed

lemma registry_unlisten:
  assumes "condition_types t = condition_types s" "action_types t = action_types s"
    and "map (unlisten C) (events t) = events s"
  shows "registry t = registry s"
proof -
  have "map (unlisten UNIV) (events s) = map (unlisten UNIV) (events t)"
    unfolding assms(3) [symmetric] by simp
  with assms show ?thesis by (simp add: registry_def)
qed

lemma at_rest_linked:
  assumes rest: "at_rest s" and ok: "engine_ok s" and ok': "engine_ok s'" and l: "linked_rule s r nm C A U s'"
    and C: "C \<noteq> []" and reg: "registry s' = registry s" and fresh: "rule_heap s r = None"
  shows "at_rest s'"
proof -
  have wf: "wf_engine s" and wf': "wf_engine s'" using ok ok' by (simp_all add: engine_ok_def)
  obtain cs where heap: "rule_heap s' = (rule_heap s)(r \<mapsto> \<lparr>rule_id = Some nm, conditions = cs,
              actions = map (mk_action s) A, undos = map (mk_action s) U, is_active = False, linked = True\<rparr>)"
    and cs: "map (cond_heap s') cs = map (\<lambda>f. Some (mk_condition s r f)) C" "\<forall>c. c \<notin> set cs \<longrightarrow> cond_heap s' c = cond_heap s c"
    and rls: "rules s' = rules s @ [r]"
    using l by (auto simp: linked_rule_def)
  have new: "\<exists>f. cond_heap s' c = Some (mk_condition s r f)" if "c \<in> set cs" for c
  proof -
    have "cond_heap s' c \<in> set (map (cond_heap s') cs)" using that by simp
    then show ?thesis unfolding cs(1) by auto
  qed
  have old: "active s' q = active s q \<and> all_true s' q = all_true s q" if q: "q \<in> set (rules s)" for q
  proof -
    obtain rule where rule: "rule_heap s q = Some rule" using wf_rule_in_list [OF wf q] by blast
    with fresh have "q \<noteq> r" by auto
    with rule heap have rule': "rule_heap s' q = Some rule" by simp
    have "cond_heap s' c = cond_heap s c" if c: "c \<in> set (conditions rule)" for c
    proof -
      obtain x where "cond_heap s' c = Some x" "c_rule x = Some q" using wf_conditions_live [OF wf' rule' c] by blast
      with new [of c] \<open>q \<noteq> r\<close> have "c \<notin> set cs" by (auto simp: mk_condition_def)
      with cs(2) show ?thesis by blast
    qed
    with rule rule' show ?thesis by (simp add: active_def all_true_def)
  qed
  have "cs \<noteq> []" using cs(1) C by auto
  then obtain c where c: "c \<in> set cs" by fastforce
  have "\<not> active s' r" using heap by (simp add: active_def)
  moreover have "\<not> all_true s' r" using new [OF c] heap c unfolding all_true_def by (force simp: mk_condition_def)
  moreover have "\<not> is_true x"
    if x: "cond_heap s' c = Some x" "is_stateless (events s' ! ct_event (c_type x))" for c x
  proof (cases "c \<in> set cs")
    case True
    then show ?thesis using new [of c] x(1) by (auto simp: mk_condition_def)
  next
    case False
    then have "cond_heap s c = Some x" using cs(2) x by simp
    moreover from this have "ct_event (c_type x) < length (events s)" by (rule wf_condition [OF wf])
    ultimately show ?thesis using rest x(2) registry_events(2) [OF reg] by (simp add: at_rest_def)
  qed
  ultimately show ?thesis using old rest rls by (auto simp: at_rest_def)
qed

end
