(* ===== verification/Parser_System.thy ===== *)
theory Parser_System
  imports Policy_Types Policy_Eval
begin

text \<open>
  The parser connected to the engine. When every variable the database holds is also in the
  cache (\<open>parse_db_vars\<close> brings this about before rules are read), what the parser calls
  returns and keeps the engine consistent: the operations \<open>xops\<close> meet the contract
  \<open>parser_env\<close>, and with it no input of at most 255 characters per string can crash the
  daemon.
\<close>

definition all_settled :: "'d env \<Rightarrow> 'd xstate \<Rightarrow> bool" where
  "all_settled env s \<longleftrightarrow> (\<forall>n. settled env n s)"

lemma settled_lookup:
  assumes "all_settled env s"
  shows "lookup_var env ops n s = Ok (cached_var n s, s)"
proof (cases "cached_var n s")
  case None
  with assms have "svc_read env (var_path n) (database s) = None"
    unfolding all_settled_def settled_def by blast
  with None show ?thesis by simp
qed simp

lemma arg_letters_settled:
  assumes "all_settled env s"
  shows "\<exists>r. arg_letters env ops as acc s = Ok (r, s) \<and> (\<forall>x. r = Inr x \<longrightarrow> all_cached (arg_vars as) s)"
proof (induction as arbitrary: acc)
  case (Cons a as)
  show ?case
  proof (cases a)
    case (Arg_Var v)
    show ?thesis
    proof (cases "cached_var v s")
      case None
      then show ?thesis using Arg_Var assms by (simp add: resolve_var_def settled_lookup)
    next
      case (Some x)
      obtain r where "arg_letters env ops as (str_append acc [arg_type_code (arg_type_of (dv_value x)), CHR '' '']) s = Ok (r, s)"
        "\<forall>x. r = Inr x \<longrightarrow> all_cached (arg_vars as) s"
        using Cons.IH by blast
      then show ?thesis
        using Arg_Var Some by (simp add: resolve_var_def is_cached_def)
    qed
  qed (use Cons.IH in \<open>simp\<close>)+
qed simp

lemma check_prototype_settled:
  assumes "all_settled env s"
  shows "\<exists>b err'. check_prototype env ops p args err s = Ok (b, err', s) \<and> (b \<longrightarrow> all_cached (arg_vars args) s)"
proof -
  obtain r where r: "arg_letters env ops args None s = Ok (r, s)" "\<forall>x. r = Inr x \<longrightarrow> all_cached (arg_vars args) s"
    using arg_letters_settled [OF assms] by blast
  then show ?thesis by (cases r) (auto simp: check_prototype_def Let_def)
qed

lemma check_conditions_settled:
  assumes "all_settled env s" and "\<forall>c \<in> set cs. cond_heap s c \<noteq> None"
  shows "\<exists>b err'. check_each (check_condition env ops) cs err s = Ok (b, err', s) \<and>
    (b \<longrightarrow> all_cached (concat (map (cond_vars s) cs)) s)"
  using assms(2)
proof (induction cs arbitrary: err)
  case (Cons c cs)
  then obtain cond where c: "cond_heap s c = Some cond" by auto
  obtain b e where e: "check_prototype env ops (ct_prototype (c_type cond)) (c_args cond) err s = Ok (b, e, s)"
    "b \<longrightarrow> all_cached (arg_vars (c_args cond)) s"
    using check_prototype_settled [OF assms(1)] by blast
  obtain b' e' where "check_each (check_condition env ops) cs e s = Ok (b', e', s)"
    "b' \<longrightarrow> all_cached (concat (map (cond_vars s) cs)) s"
    using Cons.IH [of e] Cons.prems by auto
  moreover have "check_condition env ops c err s =
      Ok (b, if b then e else str_append e ('' for condition '' @ ct_name (c_type cond)), s)"
    by (simp add: check_condition_def c e(1))
  moreover have "cond_vars s c = arg_vars (c_args cond)" by (simp add: cond_vars_def c)
  ultimately show ?case using e(2) by (cases b) auto
qed auto

lemma check_actions_settled:
  assumes "all_settled env s"
  shows "\<exists>b err'. check_each (check_action env ops) acts err s = Ok (b, err', s) \<and>
    (b \<longrightarrow> all_cached (concat (map (\<lambda>a. arg_vars (a_args a)) acts)) s)"
proof (induction acts arbitrary: err)
  case (Cons a acts)
  obtain b e where e: "check_prototype env ops (at_prototype (a_type a)) (a_args a) err s = Ok (b, e, s)"
    "b \<longrightarrow> all_cached (arg_vars (a_args a)) s"
    using check_prototype_settled [OF assms] by blast
  obtain b' e' where "check_each (check_action env ops) acts e s = Ok (b', e', s)"
    "b' \<longrightarrow> all_cached (concat (map (\<lambda>a. arg_vars (a_args a)) acts)) s"
    using Cons.IH [of e] by auto
  moreover have "check_action env ops a err s =
      Ok (b, if b then e else str_append e ('' for action '' @ at_name (a_type a)), s)"
    by (simp add: check_action_def e(1))
  ultimately show ?case using e(2) by (cases b) auto
qed auto

lemma validate_settled:
  assumes set: "all_settled env s" and wf: "wf_engine s" and r: "rule_heap s r = Some rule"
  shows "\<exists>code err'. validate_rule env ops r err s = Ok (code, err', s) \<and>
    (code = RULE_VALID \<longrightarrow> all_cached (rule_vars s rule) s)"
proof -
  have live: "\<forall>c \<in> set (conditions rule). cond_heap s c \<noteq> None"
    using wf_conditions_live [OF wf r] by fastforce
  obtain b1 e1 where e1: "check_each (check_condition env ops) (conditions rule) err s = Ok (b1, e1, s)"
      "b1 \<longrightarrow> all_cached (concat (map (cond_vars s) (conditions rule))) s"
    using check_conditions_settled [OF set live] by blast
  obtain b2 e2 where e2: "check_each (check_action env ops) (actions rule) e1 s = Ok (b2, e2, s)"
      "b2 \<longrightarrow> all_cached (concat (map (\<lambda>a. arg_vars (a_args a)) (actions rule))) s"
    using check_actions_settled [OF set] by blast
  obtain b3 e3 where e3: "check_each (check_action env ops) (undos rule) e2 s = Ok (b3, e3, s)"
      "b3 \<longrightarrow> all_cached (concat (map (\<lambda>a. arg_vars (a_args a)) (undos rule))) s"
    using check_actions_settled [OF set] by blast
  show ?thesis
    using e1 e2 e3 by (simp add: validate_rule_def r lookup_rule_run [OF wf] rule_vars_def)
qed

lemma all_settled_frame:
  "db_vars t = db_vars s \<Longrightarrow> database t = database s \<Longrightarrow> all_settled env t = all_settled env s"
  by (simp add: all_settled_def settled_def cached_var_def)

lemma settled_bump [simp]: "all_settled env (bump_all k ns s) = all_settled env s"
proof -
  have "settled env m (bump_ref n k s) = settled env m s" for m n and s :: "'a xstate"
    by (simp add: settled_def cached_var_bump)
  then show ?thesis by (induction ns arbitrary: s) (simp_all add: all_settled_def)
qed

text \<open>What the parser makes of the code: a linked rule, with or without left-out functions, or none.\<close>

lemma missing_codes: "missing_code s C A U \<in> {0, 0x10, 0x20, 0x30, 0x40, 0x50, 0x60, 0x70}"
  by (auto simp: missing_code_def missing_def)

lemma validate_codes:
  assumes "validate_rule env ops r err s = Ok (code, err', s')" and "code \<noteq> RULE_VALID"
  shows "code \<in> {NO_NAME, NO_CONDITIONS, NO_ACTIONS, NAME_COLLISION, BAD_PROTO}"
  using assms by (auto simp: validate_rule_def outcome_simps split: if_splits)

lemma rule_result_codes:
  assumes "m \<in> {0, 0x10, 0x20, 0x30, 0x40, 0x50, 0x60, 0x70}"
  shows "fst (rule_result ((if m \<noteq> 0 then RECOVERABLE_ERROR else NO_PARSE_ERROR) OR m OR RULE_VALID)) \<in> {NO_PARSE_ERROR, RECOVERABLE_ERROR}"
    and "v \<in> {NO_NAME, NO_CONDITIONS, NO_ACTIONS, NAME_COLLISION, BAD_PROTO} \<Longrightarrow>
      fst (rule_result (NO_PARSE_ERROR OR m OR v)) = RULE_INVALID"
  using assms by (auto simp: rule_result_def)

definition rule_reported :: "nat \<Rightarrow> 'd xstate \<Rightarrow> bool" where
  "rule_reported code s \<longleftrightarrow>
     fst (rule_result code) = RULE_INVALID \<or>
     fst (rule_result code) \<in> {NO_PARSE_ERROR, RECOVERABLE_ERROR} \<and> rules s \<noteq> []"

lemma apply_rule_settled:
  assumes ok: "engine_ok s" and typed: "well_typed s" and set: "all_settled env s"
  shows "\<exists>code err' s'. apply_rule env ops (Some nm) C A U err s = Ok (code, err', s') \<and>
    engine_ok s' \<and> well_typed s' \<and> all_settled env s' \<and> registry s' = registry s \<and> (at_rest s \<longrightarrow> at_rest s') \<and>
    map dv_name (db_vars s') = map dv_name (db_vars s) \<and> rule_reported code s'"
proof -
  obtain s1 where new: "new_rule (Some nm) s = (next_addr s, s1)" by (simp add: new_rule_def)
  have wf: "wf_engine s" using ok by (simp add: engine_ok_def)
  let ?C = "filter (known_condition s) C" and ?A = "filter (known_action s) A" and ?U = "filter (known_action s) U"
  obtain err1 s2 where build: "build_rule (next_addr s) C A U ((0, err), s1) = Ok ((missing_code s C A U, err1), s2)"
    and l: "loaded s (next_addr s) nm ?C ?A ?U s2"
    using build_rule_run [OF loaded_new_rule [OF wf new], of C A U err] by auto
  obtain cs where heap: "rule_heap s2 (next_addr s) = Some \<lparr>rule_id = Some nm, conditions = cs,
        actions = map (mk_action s) ?A, undos = map (mk_action s) ?U, is_active = False, linked = False\<rparr>"
      (is "_ = Some ?rule")
    and cs: "map (cond_heap s2) cs = map (\<lambda>f. Some (mk_condition s (next_addr s) f)) ?C"
    and rest: "wf_engine s2" "same_rest s s2" "rule_heap s (next_addr s) = None" "map (unlisten (set cs)) (events s2) = events s"
    using l by (auto simp: loaded_def)
  have db: "db_vars s2 = db_vars s" "database s2 = database s" using rest(2) by (simp_all add: same_rest_def)
  have set2: "all_settled env s2" using set all_settled_frame [OF db] by simp
  obtain code err2 where valid: "validate_rule env ops (next_addr s) err1 s2 = Ok (code, err2, s2)"
    and code: "code = RULE_VALID \<longrightarrow> all_cached (rule_vars s2 ?rule) s2"
    using validate_settled [OF set2 rest(1) heap, of ops err1] by auto
  show ?thesis
  proof (cases "code = RULE_VALID")
    case True
    have "rule_vars s2 ?rule = fn_vars (?C @ ?A @ ?U)"
      using fn_vars_conditions [OF cs] by (simp add: rule_vars_def fn_vars_actions del: map_map)
    then have "all_cached (fn_vars (?C @ ?A @ ?U)) s"
      using True code is_cached_db_vars [OF db(1)] by (simp add: all_cached_def)
    then obtain s3 where s3: "add_rule env ops (Some (next_addr s)) s2 = Ok s3" "engine_ok s3"
        "\<forall>n. is_cached n s3 = is_cached n s" "database s3 = database s"
        and link: "linked_rule s (next_addr s) nm ?C ?A ?U s3"
          "\<forall>n. map_option dv_value (cached_var n s3) = map_option dv_value (cached_var n s)"
          "condition_types s3 = condition_types s" "action_types s3 = action_types s" "events s3 = events s2"
          "map dv_name (db_vars s3) = map dv_name (db_vars s)"
      using link_run [OF l ok, of env ops] by blast
    then have "all_settled env s3" using set by (simp add: all_settled_def settled_def is_cached_def)
    moreover have verdict: "verdict s nm ?C ?A ?U = RULE_VALID"
      using True code valid validate_rule_run [OF rest(1) heap, of env ops err1] loaded_verdict [OF l heap] by auto
    moreover have "well_typed s3"
      by (rule linked_typed [OF typed ok link(1) verdict _ _ link(2-4)]) auto
    moreover have reg: "registry s3 = registry s"
      using rest(4) link(3-5) by (intro registry_unlisten [of _ _ "set cs"]) simp_all
    moreover have "at_rest s \<Longrightarrow> at_rest s3"
      by (rule at_rest_linked [OF _ ok s3(2) link(1) _ reg rest(3)])
        (use verdict in \<open>auto simp: verdict_def split: if_splits\<close>)
    moreover have "rule_reported ((if missing_code s C A U \<noteq> 0 then RECOVERABLE_ERROR else NO_PARSE_ERROR) OR
        missing_code s C A U OR RULE_VALID) s3"
    proof -
      have "rules s3 \<noteq> []" using link(1) by (simp add: linked_rule_def)
      then show ?thesis unfolding rule_reported_def using rule_result_codes(1) [OF missing_codes [of s C A U]] by blast
    qed
    ultimately show ?thesis using s3 True link(6) by (simp add: apply_rule_def new build valid)
  next
    case False
    obtain n where n: "delete_rule env ops (next_addr s) s2 = Ok (s\<lparr>next_addr := n\<rparr>)" "engine_ok (s\<lparr>next_addr := n\<rparr>)"
      using drop_loaded [OF l ok, of env ops] by blast
    have "all_settled env (s\<lparr>next_addr := n\<rparr>)" using set by (subst all_settled_frame [of _ s]) simp_all
    moreover have "well_typed (s\<lparr>next_addr := n\<rparr>)"
      by (rule well_typed_frame [OF typed ok]) (simp_all add: var_type_def)
    moreover have "rule_reported (NO_PARSE_ERROR OR missing_code s C A U OR code) (s\<lparr>next_addr := n\<rparr>)"
      using rule_result_codes(2) [OF missing_codes [of s C A U] validate_codes [OF valid False]] by (simp add: rule_reported_def)
    ultimately show ?thesis
      using n False by (simp add: apply_rule_def new build valid registry_def at_rest_def active_def all_true_def)
  qed
qed


lemma at_rest_frame:
  "rules t = rules s \<Longrightarrow> rule_heap t = rule_heap s \<Longrightarrow> cond_heap t = cond_heap s \<Longrightarrow> events t = events s \<Longrightarrow>
   at_rest t = at_rest s"
  by (simp add: at_rest_def active_def all_true_def)

lemma add_var_settled:
  assumes ok: "engine_ok s" and typed: "well_typed s" and set: "all_settled env s" and laws: "db_laws env"
  shows "\<exists>r err' s'. add_var env ops n a err s = Ok (r, err', s') \<and> engine_ok s' \<and> well_typed s' \<and> all_settled env s' \<and>
    registry s' = registry s \<and> (at_rest s \<longrightarrow> at_rest s') \<and> (vars_distinct s \<longrightarrow> vars_distinct s')"
proof -
  note frame = registry_def at_rest_def active_def all_true_def
  have "\<exists>r err' s'. add_var env ops n a err s = Ok (r, err', s') \<and>
      (database s' = database s \<or> database s' = database (write_db_var env n a s) \<and> cached_var n s' \<noteq> None) \<and>
      registry s' = registry s \<and> (at_rest s \<longrightarrow> at_rest s') \<and> (vars_distinct s \<longrightarrow> vars_distinct s')"
  proof (cases "cached_var n s")
    case None
    then have "vars_distinct s \<longrightarrow> distinct (map dv_name (db_vars s) @ [n])"
      by (auto simp: vars_distinct_def cached_var_def find_first_None)
    with None show ?thesis
      by (simp add: add_var_def settled_lookup [OF set] cache_db_var_def write_db_var_def Let_def frame)
        (simp add: cached_var_def find_first_append vars_distinct_def)
  next
    case (Some v)
    let ?t = "s\<lparr>db_vars := update_first n (\<lambda>_. v\<lparr>dv_value := a\<rparr>) (db_vars s)\<rparr>"
    have "cached_var n ?t \<noteq> None"
      using Some cached_var_name [OF Some] update_first_const [of n "db_vars s" v "dv_value_update (\<lambda>_. a)"]
      by (simp add: cached_var_def find_first_update_first)
    moreover have "map dv_name (update_first n (\<lambda>_. v\<lparr>dv_value := a\<rparr>) (db_vars s)) = map dv_name (db_vars s)"
      using Some update_first_const [of n "db_vars s" v "dv_value_update (\<lambda>_. a)"]
      by (simp add: cached_var_def update_first_names)
    ultimately show ?thesis
      using Some by (cases "arg_type_of (dv_value v) = arg_type_of a"; cases "same_value env (dv_value v) a")
        (simp_all add: add_var_def settled_lookup [OF set] write_db_var_def Let_def frame vars_distinct_def)
  qed
  then obtain r err' s' where run: "add_var env ops n a err s = Ok (r, err', s')"
      and db: "database s' = database s \<or> database s' = database (write_db_var env n a s) \<and> cached_var n s' \<noteq> None"
      and kept: "registry s' = registry s" "at_rest s \<longrightarrow> at_rest s'" "vars_distinct s \<longrightarrow> vars_distinct s'"
    by blast
  have "settled env n s" using set by (simp add: all_settled_def)
  note typed' = add_var_typed [OF ok typed this run]
  have "settled env m s'" for m
  proof (cases "m = n")
    case True
    have "settled env n s" "cached_var n s \<noteq> None \<Longrightarrow> cached_var n s' \<noteq> None"
      using set typed' by (auto simp: all_settled_def var_type_def)
    with True db show ?thesis by (auto simp: settled_def)
  next
    case False
    then have "svc_read env (var_path m) (database s') = svc_read env (var_path m) (database s)"
      using laws db by (auto simp: db_laws_def write_db_var_def var_path_def)
    moreover have "settled env m s" using set by (simp add: all_settled_def)
    ultimately show ?thesis using False typed' by (simp add: settled_def)
  qed
  with run typed' kept show ?thesis by (auto simp: all_settled_def)
qed

text \<open>The invariant of the daemon while it reads policy, and the contract of the parser.\<close>

definition policy_ok ::
  "'d env \<Rightarrow> condition_type list \<times> action_type list \<times> ev_wrapper list \<Rightarrow> 'd xstate \<Rightarrow> bool" where
  "policy_ok env reg s \<longleftrightarrow>
     db_laws env \<and> engine_ok s \<and> well_typed s \<and> all_settled env s \<and> vars_distinct s \<and> at_rest s \<and> registry s = reg"

lemma xops_lookup:
  "policy_ok env reg s \<Longrightarrow> \<exists>b s'. op_lookup_var (xops env il fl (Suc k)) v s = Ok (b, s') \<and> policy_ok env reg s'"
  by (simp add: policy_ok_def settled_lookup)

lemma xops_add:
  "policy_ok env reg s \<Longrightarrow> \<exists>b m' s'. op_add_var (xops env il fl (Suc k)) v a m s = Ok (b, m', s') \<and> policy_ok env reg s'"
  using add_var_settled [of s env "xops env il fl k" v a m] by (auto simp: policy_ok_def)

lemma xops_apply:
  "policy_ok env reg s \<Longrightarrow>
   \<exists>e m' s'. op_apply_rule (xops env il fl (Suc k)) (Some nm) C A U m s = Ok (e, m', s') \<and> policy_ok env reg s'"
  using apply_rule_settled [of s env "xops env il fl k" nm C A U m] by (auto simp: policy_ok_def vars_distinct_def)

interpretation xp: parser_env "xops env il fl (Suc k)" "policy_ok env reg"
  by unfold_locales (erule xops_lookup, erule xops_add, erule xops_apply)

text \<open>
  C6. No policy text of ordinary length crashes the daemon. With the stored variables cached
  and the engine consistent and at rest, parsing a variable definition and parsing a rule return, whatever
  the text says, when none of the strings is longer than 255 characters, and leave the
  engine consistent and at rest, what modules registered unchanged, every stored variable
  still cached and every condition and action of every loaded rule matching the prototype of
  its registered type. It holds from any
  left-over parser state, so lines and rules may be parsed one after the other with the same
  \<open>parse_data\<close>.
\<close>

theorem policy_text_safe:
  assumes "policy_ok env reg s" and "short (Some var)" and "short cs" and "short as" and "short us"
  shows "(\<exists>ok d' s'. parse_var_persistent (xops env il fl (Suc k)) var d s = Ok (ok, d', s') \<and> policy_ok env reg s') \<and>
    (\<exists>ok d' s'. parse_rule_persistent (xops env il fl (Suc k)) name cs as us d s = Ok (ok, d', s') \<and> policy_ok env reg s')"
  unfolding parse_var_persistent_def parse_rule_persistent_def
  by (intro conjI xp.parse_returns)
    (use assms in \<open>simp_all add: init_parse_data_def cleanup_parse_data_def named_def, simp_all add: short_def\<close>)

lemma demo_policy_ok: "policy_ok map_env (registry demo_state) demo_state"
  using demo_state_ok map_env_laws
  by (simp add: policy_ok_def well_typed_def all_settled_def settled_def at_rest_def vars_distinct_def demo_state_def empty_state_def map_env_def)

theorem policy_text_safe_witness:
  "(\<exists>ok d' s'. parse_var_persistent (xops map_env 0 (F32_Inf False) 1) ''lim(90)'' blank_parse_data demo_state = Ok (ok, d', s') \<and>
     policy_ok map_env (registry demo_state) s') \<and>
   (\<exists>ok d' s'. parse_rule_persistent (xops map_env 0 (F32_Inf False) 1) ''hot'' (Some ''overTemp(90)'') (Some ''log(x'') None
      blank_parse_data demo_state = Ok (ok, d', s') \<and> policy_ok map_env (registry demo_state) s')"
  using policy_text_safe [OF demo_policy_ok, of "''lim(90)''" "Some ''overTemp(90)''" "Some ''log(x''" None 0 "F32_Inf False" 0
      blank_parse_data "''hot''"]
  by (simp add: short_def)

end
