(* ===== verification/Rule_Db.thy ===== *)
theory Rule_Db
  imports Parser_System Parser_Text
begin

unbundle bit_operations_syntax

text \<open>
  Rules and variables in the database (\<open>db-helper.c\<close>): a rule is stored as a JSON object,
  read back as a tree, turned into the strings of the policy language and parsed again. The
  yajl library is a parameter: the type of its trees and of the calls of its generator is
  here, what its parser, its lookup and its generator do is a record of functions with the
  documented behaviour as \<open>yajl_laws\<close>.
\<close>

subsection \<open>yajl\<close>

datatype json =
    J_String string
  | J_Number string
  | J_Object "(string \<times> json) list"
  | J_Array "json list"
  | J_True
  | J_False
  | J_Null

datatype gen_call = G_map_open | G_map_close | G_string string

record yajl =
  tree_parse :: "string \<Rightarrow> json option" \<comment> \<open>\<open>yajl_tree_parse\<close>\<close>
  tree_get_any :: "json \<Rightarrow> string \<Rightarrow> json option" \<comment> \<open>\<open>yajl_tree_get\<close> of a path of length 1 and \<open>yajl_t_any\<close>\<close>
  tree_get_string :: "json \<Rightarrow> string \<Rightarrow> string option" \<comment> \<open>the same with \<open>yajl_t_string\<close>, and the string\<close>
  gen_buf :: "gen_call list \<Rightarrow> string" \<comment> \<open>the buffer after these calls of \<open>yajl_gen_*\<close>\<close>

subsection \<open>From a stored rule to policy text\<close>

fun entry_args :: "json list \<Rightarrow> string option \<Rightarrow> string option option" where
  \<comment> \<open>the loop over the arguments of a condition, action or undo; \<open>None\<close> is a \<open>goto\<close> to the failure exits\<close>
  "entry_args [] str = Some str"
| "entry_args (y # ys) str =
     (case y of
        J_String t \<Rightarrow> entry_args ys (str_append str (if ys = [] then t else t @ '' ''))
      | _ \<Rightarrow> None)"

definition entry_arg_list :: "yajl \<Rightarrow> json \<Rightarrow> string option \<Rightarrow> string option option" where
  "entry_arg_list Y y str =
     (case tree_get_any Y y ''args'' of
        Some (J_String t) \<Rightarrow> if t = [] then Some str else None
      | Some (J_Object kvs) \<Rightarrow> entry_args (map snd kvs) str
      | _ \<Rightarrow> None)"

definition entry_text :: "yajl \<Rightarrow> bool \<Rightarrow> json \<Rightarrow> string option \<Rightarrow> string option option" where
  \<comment> \<open>the body of the three loops; only conditions have the key \<open>is_inverted\<close>\<close>
  "entry_text Y cond y str =
     Option.bind
       (if cond
        then map_option (\<lambda>v. if v = ''true'' then str_append str ''!'' else str) (tree_get_string Y y ''is_inverted'')
        else Some str) (\<lambda>str.
     Option.bind (tree_get_string Y y ''type'') (\<lambda>ty.
       entry_arg_list Y y (str_append str (ty @ ''(''))))"

fun entries_text :: "yajl \<Rightarrow> bool \<Rightarrow> json list \<Rightarrow> string option \<Rightarrow> string option option" where
  "entries_text Y cond [] str = Some str"
| "entries_text Y cond (y # ys) str =
     (case y of
        J_Object _ \<Rightarrow>
          Option.bind (entry_text Y cond y str) (\<lambda>str.
            entries_text Y cond ys (str_append str (if ys = [] then '')'' else '') '')))
      | _ \<Rightarrow> entries_text Y cond ys str)"

definition json_rule_to_parseable ::
  "yajl \<Rightarrow> string \<Rightarrow> string \<Rightarrow> (string \<times> string option \<times> string option \<times> string option) option" where
  "json_rule_to_parseable Y name json =
     (case tree_parse Y json of
        Some (J_Object kvs) \<Rightarrow>
          (case tree_get_any Y (J_Object kvs) ''conditions'' of
             Some (J_Object cs) \<Rightarrow>
               Option.bind (entries_text Y True (map snd cs) None) (\<lambda>conditions.
                 (case tree_get_any Y (J_Object kvs) ''actions'' of
                    Some (J_Object as) \<Rightarrow>
                      Option.bind (entries_text Y False (map snd as) None) (\<lambda>actions.
                        (case tree_get_any Y (J_Object kvs) ''undos'' of
                           Some (J_String t) \<Rightarrow> if t = [] then Some (name, conditions, actions, None) else None
                         | Some (J_Object us) \<Rightarrow>
                             map_option (\<lambda>undos. (name, conditions, actions, undos))
                               (entries_text Y False (map snd us) None)
                         | _ \<Rightarrow> None))
                  | _ \<Rightarrow> None))
           | _ \<Rightarrow> None)
      | _ \<Rightarrow> None)"

subsection \<open>From a rule to its stored form\<close>

fun gen_args_from :: "'d env \<Rightarrow> nat \<Rightarrow> arg list \<Rightarrow> gen_call list" where
  "gen_args_from env i [] = []"
| "gen_args_from env i (a # as) =
     G_string (show_nat i) # G_string (arg_to_string (show_ptr env) a) # gen_args_from env (Suc i) as"

definition gen_args :: "'d env \<Rightarrow> arg list \<Rightarrow> gen_call list" where
  "gen_args env as =
     G_string ''args'' #
     (if as = [] then [G_string []] else G_map_open # gen_args_from env 0 as @ [G_map_close])"

definition gen_condition :: "'d env \<Rightarrow> nat \<Rightarrow> condition \<Rightarrow> gen_call list" where
  "gen_condition env i c =
     [G_string (show_nat i), G_map_open, G_string ''type'', G_string (ct_name (c_type c)),
      G_string ''is_inverted'', G_string (if is_inverted c then ''true'' else ''false'')] @
     gen_args env (c_args c) @ [G_map_close]"

definition gen_action :: "'d env \<Rightarrow> nat \<Rightarrow> action \<Rightarrow> gen_call list" where
  "gen_action env i a =
     [G_string (show_nat i), G_map_open, G_string ''type'', G_string (at_name (a_type a))] @
     gen_args env (a_args a) @ [G_map_close]"

fun gen_indexed :: "(nat \<Rightarrow> 'a \<Rightarrow> gen_call list) \<Rightarrow> nat \<Rightarrow> 'a list \<Rightarrow> gen_call list" where
  \<comment> \<open>a loop over conditions or actions that counts in \<open>index\<close>\<close>
  "gen_indexed g i [] = []"
| "gen_indexed g i (x # xs) = g i x @ gen_indexed g (Suc i) xs"

definition gen_rule :: "'d env \<Rightarrow> condition list \<Rightarrow> action list \<Rightarrow> action list \<Rightarrow> gen_call list" where
  "gen_rule env cs as us =
     [G_map_open, G_string ''conditions'', G_map_open] @ gen_indexed (gen_condition env) 0 cs @ [G_map_close] @
     [G_string ''actions'', G_map_open] @ gen_indexed (gen_action env) 0 as @ [G_map_close] @
     [G_string ''undos''] @
     (if us = [] then [G_string []] else G_map_open # gen_indexed (gen_action env) 0 us @ [G_map_close]) @
     [G_map_close]"

definition rule_to_json :: "yajl \<Rightarrow> 'd env \<Rightarrow> addr \<Rightarrow> 'd xstate \<Rightarrow> string outcome" where
  "rule_to_json Y env r s =
     obind (access (rule_heap s) r) (\<lambda>rule.
       omap (\<lambda>cs. gen_buf Y (gen_rule env cs (actions rule) (undos rule)))
         (ofold (\<lambda>c cs. omap (\<lambda>cond. cs @ [cond]) (access (cond_heap s) c)) (conditions rule) []))"

subsection \<open>Writing and removing\<close>

definition write_db_rule :: "yajl \<Rightarrow> 'd env \<Rightarrow> addr option \<Rightarrow> 'd xstate \<Rightarrow> 'd xstate outcome" where
  "write_db_rule Y env r s =
     obind (deref r) (\<lambda>r.
       obind (rule_to_json Y env r s) (\<lambda>json.
         omap (\<lambda>rule. s\<lparr>database := svc_inject env (DB_RULE_PATH @ ''/'' @ print_str (rule_id rule)) json (database s)\<rparr>)
           (access (rule_heap s) r)))"

definition write_db_rules :: "yajl \<Rightarrow> 'd env \<Rightarrow> 'd xstate \<Rightarrow> 'd xstate outcome" where
  "write_db_rules Y env s = ofold (\<lambda>r. write_db_rule Y env (Some r)) (rules s) s"

definition delete_db_rule :: "'d env \<Rightarrow> string \<Rightarrow> 'd xstate \<Rightarrow> 'd xstate" where
  "delete_db_rule env name s = s\<lparr>database := svc_rm env (DB_RULE_PATH @ ''/'' @ name) (database s)\<rparr>"

definition delete_db_rules :: "'d env \<Rightarrow> 'd xstate \<Rightarrow> 'd xstate" where
  "delete_db_rules env s = s\<lparr>database := svc_rm env DB_RULE_PATH (database s)\<rparr>"

subsection \<open>Reading\<close>

definition parse_db_var ::
  "'s parser_ops \<Rightarrow> string \<times> json \<Rightarrow> bool \<times> parse_data \<times> 's \<Rightarrow> (bool \<times> parse_data \<times> 's) outcome" where
  \<comment> \<open>the body of the loop of \<open>parse_db_vars\<close>\<close>
  "parse_db_var ops kv = (\<lambda>(success, d, s).
     (case snd kv of
        J_String v \<Rightarrow>
          obind (parse_var_persistent ops (fst kv @ ''('' @ v @ '')'') d s) (\<lambda>(ok, d, s).
            if ok then Ok (success, d, s)
            else omap (\<lambda>_. (False, d, s)) (extract_parse_error d))
      | _ \<Rightarrow> Ok (success, d, s)))"

definition parse_db_vars ::
  "yajl \<Rightarrow> 'd env \<Rightarrow> 'd xstate parser_ops \<Rightarrow> parse_data \<Rightarrow> 'd xstate \<Rightarrow> (bool \<times> parse_data \<times> 'd xstate) outcome" where
  "parse_db_vars Y env ops d s =
     (case svc_dump env DB_VAR_MAP_PATH (database s) of
        None \<Rightarrow> Ok (False, d, s)
      | Some json \<Rightarrow>
          (case tree_parse Y json of
             Some (J_Object kvs) \<Rightarrow> ofold (parse_db_var ops) kvs (True, d, s)
           | _ \<Rightarrow> Ok (True, d, s)))"

definition parse_db_rule ::
  "yajl \<Rightarrow> 'd env \<Rightarrow> 'd xstate parser_ops \<Rightarrow> string \<Rightarrow> parse_data \<times> 'd xstate \<Rightarrow> (parse_data \<times> 'd xstate) outcome" where
  \<comment> \<open>the body of the loop of \<open>parse_db_rules\<close>\<close>
  "parse_db_rule Y env ops nm = (\<lambda>(d, s).
     (case svc_dump env (DB_RULE_PATH @ ''/'' @ nm) (database s) of
        None \<Rightarrow> Ok (d, s)
      | Some json \<Rightarrow>
          (case json_rule_to_parseable Y nm json of
             None \<Rightarrow> Ok (d, s)
           | Some (name, cs, as, us) \<Rightarrow>
               obind (parse_rule_persistent ops name cs as us d s) (\<lambda>(ok, d, s).
                 if ok then Ok (d, s) else omap (\<lambda>_. (d, s)) (extract_parse_error d)))))"

definition parse_db_rules ::
  "yajl \<Rightarrow> 'd env \<Rightarrow> 'd xstate parser_ops \<Rightarrow> parse_data \<Rightarrow> 'd xstate \<Rightarrow> (bool \<times> parse_data \<times> 'd xstate) outcome" where
  "parse_db_rules Y env ops d s =
     (case svc_dump env DB_RULE_PATH (database s) of
        None \<Rightarrow> Ok (False, d, s)
      | Some json \<Rightarrow>
          if json = [] \<or> take 4 json = ''null'' then Ok (True, d, s)
          else
            (case tree_parse Y json of
               Some (J_Object kvs) \<Rightarrow>
                 omap (\<lambda>(d, s). (True, d, s)) (ofold (parse_db_rule Y env ops) (map fst kvs) (d, s))
             | _ \<Rightarrow> Ok (False, d, s)))"

definition parse_config_from_db ::
  "yajl \<Rightarrow> 'd env \<Rightarrow> 'd xstate parser_ops \<Rightarrow> 'd xstate \<Rightarrow> (int \<times> 'd xstate) outcome" where
  \<comment> \<open>\<open>ret\<close> is a \<open>bool\<close>, so the \<open>-1\<close> of a failure comes back as 1\<close>
  "parse_config_from_db Y env ops s =
     obind (parse_db_vars Y env ops blank_parse_data s) (\<lambda>(ok, d, s).
       if ok
       then obind (parse_db_rules Y env ops d s) (\<lambda>(ok, d, s).
              if ok then Ok (0, s) else omap (\<lambda>_. (1, s)) (extract_parse_error d))
       else omap (\<lambda>_. (1, s)) (extract_parse_error d))"

definition load_policy_from_db ::
  "yajl \<Rightarrow> 'd env \<Rightarrow> 'd xstate parser_ops \<Rightarrow> 'd xstate \<Rightarrow> (int \<times> 'd xstate) outcome" where
  "load_policy_from_db Y env ops s =
     omap (\<lambda>(ret, s). (if ret \<noteq> 0 then - 1 else 0, s)) (parse_config_from_db Y env ops s)"

definition parse_rule ::
  "yajl \<Rightarrow> 'd env \<Rightarrow> 'd xstate parser_ops \<Rightarrow> string \<Rightarrow> string option \<Rightarrow> string option \<Rightarrow> string option \<Rightarrow>
   string option \<Rightarrow> 'd xstate \<Rightarrow> (bool \<times> string option \<times> 'd xstate) outcome" where
  "parse_rule Y env ops name C A U err s =
     obind (parse_db_vars Y env ops blank_parse_data s) (\<lambda>(vars_ok, d, s).
       if \<not> vars_ok
       then Ok (False, str_append err (''couldn't parse varmap: '' @ print_str (message d)), s)
       else obind (parse_rule_persistent ops name C A U d s) (\<lambda>(ok, d, s).
         if ok then omap (\<lambda>s. (True, err, s)) (write_db_rule Y env (get_rule_tail s) s)
         else if error_code d AND PARSE_ERROR_MASK = RECOVERABLE_ERROR
         then obind (extract_parse_error d) (\<lambda>e.
                omap (\<lambda>s. (False, str_append err e, s)) (write_db_rule Y env (get_rule_tail s) s))
         else omap (\<lambda>e. (False, str_append err (''couldn't parse rule '' @ name @ '': '' @ e), s))
                (extract_parse_error d)))"

definition dbus_add_rule ::
  "yajl \<Rightarrow> 'd env \<Rightarrow> 'd xstate parser_ops \<Rightarrow> string \<Rightarrow> string option \<Rightarrow> string option \<Rightarrow> string option \<Rightarrow>
   string option \<Rightarrow> 'd xstate \<Rightarrow> (bool \<times> string option \<times> 'd xstate) outcome" where
  \<comment> \<open>a copy of \<open>parse_rule\<close> in the source\<close>
  "dbus_add_rule = parse_rule"

subsection \<open>The laws of yajl\<close>

text \<open>
  What the code relies on, for trees of strings and objects with ASCII text: the generator
  writes a document that the parser reads back as the tree the calls describe, and a lookup
  in an object with distinct keys finds the value of the key.
\<close>

definition ascii :: "string \<Rightarrow> bool" where
  "ascii t \<longleftrightarrow> (\<forall>c \<in> set t. (0::nat) < of_char c \<and> of_char c < (128::nat))"

fun textual :: "json \<Rightarrow> bool" where
  "textual (J_String t) \<longleftrightarrow> ascii t"
| "textual (J_Object kvs) \<longleftrightarrow> (\<forall>(k, v) \<in> set kvs. ascii k \<and> textual v)"
| "textual _ \<longleftrightarrow> False"

fun gen_of :: "json \<Rightarrow> gen_call list" where
  "gen_of (J_String t) = [G_string t]"
| "gen_of (J_Object kvs) = G_map_open # concat (map (\<lambda>(k, v). G_string k # gen_of v) kvs) @ [G_map_close]"
| "gen_of _ = []"

definition yajl_laws :: "yajl \<Rightarrow> bool" where
  "yajl_laws Y \<longleftrightarrow>
     (\<forall>j. textual j \<longrightarrow> tree_parse Y (gen_buf Y (gen_of j)) = Some j) \<and>
     (\<forall>kvs k. distinct (map fst kvs) \<longrightarrow>
        tree_get_any Y (J_Object kvs) k = map_of kvs k \<and>
        tree_get_string Y (J_Object kvs) k = (case map_of kvs k of Some (J_String t) \<Rightarrow> Some t | _ \<Rightarrow> None))"

subsection \<open>The tree of a rule\<close>

fun index_from :: "nat \<Rightarrow> 'a list \<Rightarrow> (string \<times> 'a) list" where
  "index_from i [] = []"
| "index_from i (x # xs) = (show_nat i, x) # index_from (Suc i) xs"

lemma map_snd_index_from [simp]: "map snd (index_from i xs) = xs"
  by (induction xs arbitrary: i) auto

definition args_tree :: "'d env \<Rightarrow> arg list \<Rightarrow> json" where
  "args_tree env as =
     (if as = [] then J_String []
      else J_Object (index_from 0 (map (\<lambda>a. J_String (arg_to_string (show_ptr env) a)) as)))"

definition condition_tree :: "'d env \<Rightarrow> condition \<Rightarrow> json" where
  "condition_tree env c =
     J_Object [(''type'', J_String (ct_name (c_type c))),
       (''is_inverted'', J_String (if is_inverted c then ''true'' else ''false'')),
       (''args'', args_tree env (c_args c))]"

definition action_tree :: "'d env \<Rightarrow> action \<Rightarrow> json" where
  "action_tree env a = J_Object [(''type'', J_String (at_name (a_type a))), (''args'', args_tree env (a_args a))]"

definition rule_tree :: "'d env \<Rightarrow> condition list \<Rightarrow> action list \<Rightarrow> action list \<Rightarrow> json" where
  "rule_tree env cs as us =
     J_Object [(''conditions'', J_Object (index_from 0 (map (condition_tree env) cs))),
       (''actions'', J_Object (index_from 0 (map (action_tree env) as))),
       (''undos'', if us = [] then J_String [] else J_Object (index_from 0 (map (action_tree env) us)))]"

lemma gen_args_tree: "gen_args env as = G_string ''args'' # gen_of (args_tree env as)"
proof -
  have "gen_args_from env i as =
      concat (map (\<lambda>(k, v). G_string k # gen_of v)
        (index_from i (map (\<lambda>a. J_String (arg_to_string (show_ptr env) a)) as)))" for i
    by (induction as arbitrary: i) auto
  then show ?thesis by (simp add: gen_args_def args_tree_def)
qed

lemma gen_indexed_tree:
  assumes "\<And>i x. g i x = G_string (show_nat i) # gen_of (f x)"
  shows "gen_indexed g i xs = concat (map (\<lambda>(k, v). G_string k # gen_of v) (index_from i (map f xs)))"
  by (induction xs arbitrary: i) (simp_all add: assms)

lemma gen_rule_tree: "gen_rule env cs as us = gen_of (rule_tree env cs as us)"
proof -
  have "gen_condition env i c = G_string (show_nat i) # gen_of (condition_tree env c)" for i c
    by (simp add: gen_condition_def condition_tree_def gen_args_tree)
  moreover have "gen_action env i a = G_string (show_nat i) # gen_of (action_tree env a)" for i a
    by (simp add: gen_action_def action_tree_def gen_args_tree)
  ultimately show ?thesis by (simp add: gen_rule_def rule_tree_def gen_indexed_tree)
qed

subsection \<open>The text of a rule\<close>

fun fn_arg_of :: "arg \<Rightarrow> fn_arg" where
  "fn_arg_of (Arg_Int i) = FA_Int i"
| "fn_arg_of (Arg_Float f) = FA_Float f"
| "fn_arg_of (Arg_Bool b) = FA_Bool b"
| "fn_arg_of (Arg_Str t) = FA_Str t"
| "fn_arg_of (Arg_Var v) = FA_Var v"
| "fn_arg_of _ = FA_Str []"

definition condition_fn :: "condition \<Rightarrow> fn" where
  "condition_fn c = \<lparr>fn_name = ct_name (c_type c), fn_args = map fn_arg_of (c_args c), fn_undo = (\<not> is_inverted c)\<rparr>"

definition action_fn :: "action \<Rightarrow> fn" where
  "action_fn a = \<lparr>fn_name = at_name (a_type a), fn_args = map fn_arg_of (a_args a), fn_undo = True\<rparr>"

fun spaced :: "fn list \<Rightarrow> (fn \<times> nat) list" where
  "spaced [] = []"
| "spaced [f] = [(f, 0)]"
| "spaced (f # fs) = (f, 1) # spaced fs"

lemma spaced_fst [simp]: "map fst (spaced fs) = fs"
  by (induction fs rule: spaced.induct) auto

lemma spaced_separated: "separated (spaced fs)"
proof (induction fs rule: spaced.induct)
  case (3 f g fs)
  then show ?case by (cases fs) auto
qed auto

definition writable :: "arg \<Rightarrow> bool" where
  \<comment> \<open>an argument the policy language can write\<close>
  "writable a \<longleftrightarrow>
     (case a of
        Arg_Int i \<Rightarrow> in_int32 i
      | Arg_Bool _ \<Rightarrow> True
      | Arg_Str t \<Rightarrow> arg_ok (FA_Str t) \<and> ascii t
      | Arg_Var v \<Rightarrow> name_ok v
      | _ \<Rightarrow> False)"

lemma writable_arg_ok: "writable a \<Longrightarrow> arg_ok (fn_arg_of a)"
  by (cases a) (auto simp: writable_def)

lemma writable_text: "writable a \<Longrightarrow> arg_to_string p a = fn_arg_text (fn_arg_of a)"
  by (cases a) (auto simp: writable_def arg_to_string_def)

lemma writable_conv: "writable a \<Longrightarrow> conv_fn_arg (fn_arg_of a) = a"
  by (cases a) (auto simp: writable_def)

lemma entry_args_run:
  assumes "\<forall>a \<in> set as. writable a" and "as \<noteq> []"
  shows "entry_args (map (\<lambda>a. J_String (arg_to_string p a)) as) (Some t) = Some (Some (t @ args_text (map fn_arg_of as)))"
  using assms
proof (induction as arbitrary: t)
  case (Cons a as)
  show ?case
  proof (cases as)
    case Nil
    with Cons.prems show ?thesis by (simp add: str_append_def writable_text)
  next
    case more: (Cons b bs)
    with Cons.prems Cons.IH [of "t @ fn_arg_text (fn_arg_of a) @ '' ''"]
    show ?thesis by (simp add: str_append_def writable_text)
  qed
qed simp

text \<open>The text of a function up to its closing parenthesis.\<close>

definition open_text :: "fn \<Rightarrow> string" where
  "open_text f = (if fn_undo f then [] else ''!'') @ fn_name f @ ''('' @ args_text (fn_args f)"

lemma fn_text_open: "fn_text f = open_text f @ '')''"
  by (simp add: fn_text_def open_text_def)

lemma map_of_tree [simp]:
  assumes "yajl_laws Y"
  shows "tree_get_string Y (condition_tree env c) ''is_inverted'' = Some (if is_inverted c then ''true'' else ''false'')"
    and "tree_get_string Y (condition_tree env c) ''type'' = Some (ct_name (c_type c))"
    and "tree_get_any Y (condition_tree env c) ''args'' = Some (args_tree env (c_args c))"
    and "tree_get_string Y (action_tree env a) ''type'' = Some (at_name (a_type a))"
    and "tree_get_any Y (action_tree env a) ''args'' = Some (args_tree env (a_args a))"
  using assms by (simp_all add: yajl_laws_def condition_tree_def action_tree_def)

lemma args_tree_text:
  assumes "tree_get_any Y y ''args'' = Some (args_tree env as)" and "\<forall>a \<in> set as. writable a"
  shows "entry_arg_list Y y (Some t) = Some (Some (t @ args_text (map fn_arg_of as)))"
  using assms by (auto simp: entry_arg_list_def args_tree_def entry_args_run)

lemma opt_text_append [simp]: "str_append str t = Some (opt_text str @ t)" "opt_text (Some t) = t"
  by (simp_all add: str_append_def opt_text_def split: option.split)

lemma entry_text_condition:
  assumes "yajl_laws Y" and "\<forall>a \<in> set (c_args c). writable a"
  shows "entry_text Y True (condition_tree env c) str = Some (Some (opt_text str @ open_text (condition_fn c)))"
  using assms(1) by (simp add: entry_text_def open_text_def condition_fn_def
      args_tree_text [OF map_of_tree(3) [OF assms(1)] assms(2)])

lemma entry_text_action:
  assumes "yajl_laws Y" and "\<forall>x \<in> set (a_args a). writable x"
  shows "entry_text Y False (action_tree env a) str = Some (Some (opt_text str @ open_text (action_fn a)))"
  using assms(1) by (simp add: entry_text_def open_text_def action_fn_def
      args_tree_text [OF map_of_tree(5) [OF assms(1)] assms(2)])

lemma entries_text_run:
  assumes "\<And>x. x \<in> set xs \<Longrightarrow> \<exists>kvs. tree x = J_Object kvs"
    and "\<And>x str. x \<in> set xs \<Longrightarrow> entry_text Y b (tree x) str = Some (Some (opt_text str @ open_text (f x)))"
  shows "entries_text Y b (map tree xs) str =
    Some (if xs = [] then str else Some (opt_text str @ fns_text (spaced (map f xs))))"
  using assms
proof (induction xs arbitrary: str)
  case (Cons x xs)
  obtain kvs where x: "tree x = J_Object kvs" using Cons.prems(1) by auto
  have e: "entry_text Y b (J_Object kvs) str = Some (Some (opt_text str @ open_text (f x)))"
    using Cons.prems(2) [of x] x by simp
  have "entries_text Y b (map tree xs) str' =
      Some (if xs = [] then str' else Some (opt_text str' @ fns_text (spaced (map f xs))))" for str'
    using Cons by simp
  then show ?case using x e by (cases xs) (simp_all add: fn_text_open)
qed simp

definition section_text :: "fn list \<Rightarrow> string option" where
  \<comment> \<open>a null pointer for a section with no function\<close>
  "section_text fs = (if fs = [] then None else Some (fns_text (spaced fs)))"

lemma opt_section_text [simp]: "opt_text (section_text fs) = fns_text (spaced fs)"
  by (simp add: section_text_def opt_text_def)

lemma conditions_text:
  assumes "yajl_laws Y" and "\<forall>c \<in> set cs. \<forall>a \<in> set (c_args c). writable a"
  shows "entries_text Y True (map (condition_tree env) cs) None = Some (section_text (map condition_fn cs))"
proof -
  have "\<exists>kvs. condition_tree env c = J_Object kvs" for c by (simp add: condition_tree_def)
  with assms show ?thesis
    using entries_text_run [of cs "condition_tree env" Y True condition_fn None]
    by (simp add: entry_text_condition section_text_def opt_text_def)
qed

lemma actions_text:
  assumes "yajl_laws Y" and "\<forall>x \<in> set as. \<forall>a \<in> set (a_args x). writable a"
  shows "entries_text Y False (map (action_tree env) as) None = Some (section_text (map action_fn as))"
proof -
  have "\<exists>kvs. action_tree env a = J_Object kvs" for a by (simp add: action_tree_def)
  with assms show ?thesis
    using entries_text_run [of as "action_tree env" Y False action_fn None]
    by (simp add: entry_text_action section_text_def opt_text_def)
qed

definition rule_writable :: "condition list \<Rightarrow> action list \<Rightarrow> action list \<Rightarrow> bool" where
  "rule_writable cs as us \<longleftrightarrow>
     (\<forall>c \<in> set cs. name_ok (ct_name (c_type c)) \<and> (\<forall>a \<in> set (c_args c). writable a)) \<and>
     (\<forall>x \<in> set (as @ us). name_ok (at_name (a_type x)) \<and> (\<forall>a \<in> set (a_args x). writable a))"

lemma parseable_of_tree:
  assumes "yajl_laws Y" and "tree_parse Y json = Some (rule_tree env cs as us)" and "rule_writable cs as us"
  shows "json_rule_to_parseable Y name json =
    Some (name, section_text (map condition_fn cs), section_text (map action_fn as), section_text (map action_fn us))"
proof -
  let ?t = "rule_tree env cs as us"
  have get: "tree_get_any Y ?t ''conditions'' = Some (J_Object (index_from 0 (map (condition_tree env) cs)))"
    "tree_get_any Y ?t ''actions'' = Some (J_Object (index_from 0 (map (action_tree env) as)))"
    "tree_get_any Y ?t ''undos'' =
       Some (if us = [] then J_String [] else J_Object (index_from 0 (map (action_tree env) us)))"
    using assms(1) by (simp_all add: yajl_laws_def rule_tree_def)
  obtain kvs where kvs: "?t = J_Object kvs" by (simp add: rule_tree_def)
  have "\<forall>c \<in> set cs. \<forall>a \<in> set (c_args c). writable a" "\<forall>x \<in> set as. \<forall>a \<in> set (a_args x). writable a"
    "\<forall>x \<in> set us. \<forall>a \<in> set (a_args x). writable a"
    using assms(3) by (auto simp: rule_writable_def)
  with get assms(1,2) show ?thesis
    unfolding kvs by (simp add: json_rule_to_parseable_def conditions_text actions_text section_text_def)
qed

subsection \<open>A stored rule is read back\<close>

lemma ascii_simps [simp]: "ascii []" "ascii (s @ t) \<longleftrightarrow> ascii s \<and> ascii t"
  "ascii (c # t) \<longleftrightarrow> (0::nat) < of_char c \<and> of_char c < (128::nat) \<and> ascii t"
  by (auto simp: ascii_def)

lemma ascii_name: "name_ok n \<Longrightarrow> ascii n"
  unfolding name_ok_def ascii_def
  by (auto simp: condition_isAlphanumeric_us_def less_eq_char_def dest!: bspec)

lemma ascii_digit: "is_digit c \<Longrightarrow> (0::nat) < of_char c \<and> of_char c < (128::nat)"
  by (auto simp: is_digit_def less_eq_char_def)

lemma ascii_show_nat [simp]: "ascii (show_nat n)"
  using show_nat_digits ascii_digit by (auto simp: ascii_def)

lemma ascii_writable: "writable a \<Longrightarrow> ascii (arg_to_string p a)"
  using ascii_name by (cases a) (auto simp: writable_def arg_to_string_def show_int_def)

lemma textual_index: "(\<forall>x \<in> set xs. textual x) \<Longrightarrow> textual (J_Object (index_from i xs))"
  by (induction xs arbitrary: i) auto

lemma textual_args: "(\<forall>a \<in> set as. writable a) \<Longrightarrow> textual (args_tree env as)"
  unfolding args_tree_def by (auto intro!: textual_index simp: ascii_writable simp del: textual.simps(2))

lemma textual_entries:
  "name_ok (ct_name (c_type c)) \<Longrightarrow> \<forall>a \<in> set (c_args c). writable a \<Longrightarrow> textual (condition_tree env c)"
  "name_ok (at_name (a_type x)) \<Longrightarrow> \<forall>a \<in> set (a_args x). writable a \<Longrightarrow> textual (action_tree env x)"
  by (auto simp: condition_tree_def action_tree_def ascii_name textual_args)

lemma textual_rule:
  assumes "rule_writable cs as us"
  shows "textual (rule_tree env cs as us)"
proof -
  have "textual (J_Object (index_from 0 (map (condition_tree env) cs)))"
    "textual (J_Object (index_from 0 (map (action_tree env) as)))"
    "textual (J_Object (index_from 0 (map (action_tree env) us)))"
    using assms by (auto simp: rule_writable_def ball_Un intro!: textual_index textual_entries simp del: textual.simps(2))
  then show ?thesis
    unfolding rule_tree_def by (subst textual.simps(2)) (simp del: textual.simps(2))
qed

lemma ofold_collect:
  "map h xs = map Some ys \<Longrightarrow> ofold (\<lambda>x acc. omap (\<lambda>y. acc @ [y]) (access h x)) xs acc = Ok (acc @ ys)"
proof (induction xs arbitrary: ys acc)
  case (Cons x xs)
  then show ?case by (cases ys) (auto simp: access_def)
qed simp

lemma write_db_rule_run:
  assumes "rule_heap s r = Some rule" and "map (cond_heap s) (conditions rule) = map Some cs" and "rule_id rule = Some nm"
  shows "write_db_rule Y env (Some r) s =
    Ok (s\<lparr>database := svc_inject env (DB_RULE_PATH @ ''/'' @ nm)
          (gen_buf Y (gen_of (rule_tree env cs (actions rule) (undos rule)))) (database s)\<rparr>)"
  using assms ofold_collect [OF assms(2), of "[]"]
  by (simp add: write_db_rule_def rule_to_json_def access_def gen_rule_tree print_str_def)

text \<open>What the database keeps of an injected document: its tree, not its formatting.\<close>

definition db_keeps :: "yajl \<Rightarrow> 'd env \<Rightarrow> bool" where
  "db_keeps Y env \<longleftrightarrow>
     (\<forall>p doc j d. tree_parse Y doc = Some j \<longrightarrow>
        (\<exists>doc'. svc_dump env p (svc_inject env p doc d) = Some doc' \<and> tree_parse Y doc' = Some j))"

definition registered :: "'d xstate \<Rightarrow> condition list \<Rightarrow> action list \<Rightarrow> bool" where
  "registered t cs as \<longleftrightarrow>
     (\<forall>c \<in> set cs. lookup_condition_type (ct_name (c_type c)) t = Some (c_type c)) \<and>
     (\<forall>a \<in> set as. lookup_action_type (at_name (a_type a)) t = Some (a_type a))"

lemma set_arg_vars: "set (arg_vars as) = {v. Arg_Var v \<in> set as}"
  by (induction as rule: arg_vars.induct) auto

lemma section_ok_xops:
  assumes "\<forall>f \<in> set fs. fn_ok f" and "all_cached (fn_vars fs) t"
  shows "section_ok (xops env il fl (Suc k)) t (spaced fs)"
proof -
  have "\<exists>x. cached_var v t = Some x" if "f \<in> set fs" "FA_Var v \<in> set (fn_args f)" for f v
  proof -
    have "Arg_Var v \<in> set (map conv_fn_arg (fn_args f))" using that(2) by force
    then have "v \<in> set (fn_vars fs)"
      using that(1) by (auto simp: fn_vars_def set_arg_vars)
    with assms(2) show ?thesis by (auto simp: all_cached_def is_cached_def)
  qed
  moreover have "f \<in> set fs" if "(f, n) \<in> set (spaced fs)" for f n
    using that spaced_fst [of fs] by (metis fst_conv image_eqI set_map)
  ultimately show ?thesis
    using assms(1) spaced_separated by (fastforce simp: section_ok_def resolves_def)
qed

lemma engine_ok_database [simp]: "engine_ok (t\<lparr>database := x\<rparr>) = engine_ok t"
  using refs_ok_cong [of "t\<lparr>database := x\<rparr>" t]
  by (simp add: engine_ok_def wf_parts complete_def)

lemma verdict_database [simp]: "verdict (t\<lparr>database := x\<rparr>) nm C A U = verdict t nm C A U"
proof -
  let ?t = "t\<lparr>database := x\<rparr>"
  have "arg_kind ?t = arg_kind t" by (rule arg_kind_db_vars) simp
  then have "fn_kinds ?t = fn_kinds t" "rule_named ?t = rule_named t" "rules ?t = rules t"
    "\<And>n. lookup_condition_type n ?t = lookup_condition_type n t" "\<And>n. lookup_action_type n ?t = lookup_action_type n t"
    by (simp_all add: fun_eq_iff fn_kinds_def rule_named_def lookup_condition_type_def lookup_action_type_def)
  then show ?thesis by (simp only: verdict_def)
qed

lemma registered_rule:
  assumes "registered t cs (as @ us)" and "rule_writable cs as us"
  shows "filter (known_condition t) (map condition_fn cs) = map condition_fn cs"
    and "filter (known_action t) (map action_fn as) = map action_fn as"
    and "filter (known_action t) (map (fn_undo_update (\<lambda>_. False)) (map action_fn us)) =
      map (fn_undo_update (\<lambda>_. False)) (map action_fn us)"
    and "missing_code t (map condition_fn cs) (map action_fn as)
      (map (fn_undo_update (\<lambda>_. False)) (map action_fn us)) = 0"
    and "map (mk_action t) (map action_fn as) = as"
    and "map (mk_action t) (map (fn_undo_update (\<lambda>_. False)) (map action_fn us)) = us"
    and "map (\<lambda>f. Some (mk_condition t r f)) (map condition_fn cs) =
      map (\<lambda>c. Some (c\<lparr>c_rule := Some r, is_true := False\<rparr>)) cs"
proof -
  have k: "known_condition t (condition_fn c)" if "c \<in> set cs" for c
    using assms that by (auto simp: registered_def known_condition_def condition_fn_def)
  have ka: "known_action t (action_fn a)" "known_action t (action_fn a\<lparr>fn_undo := False\<rparr>)" if "a \<in> set (as @ us)" for a
    using assms that by (auto simp: registered_def known_action_def action_fn_def)
  have conv: "map (conv_fn_arg \<circ> fn_arg_of) xs = xs" if "\<forall>a \<in> set xs. writable a" for xs
    using that by (simp add: map_idI writable_conv)
  show "filter (known_condition t) (map condition_fn cs) = map condition_fn cs"
    "filter (known_action t) (map action_fn as) = map action_fn as"
    "filter (known_action t) (map (fn_undo_update (\<lambda>_. False)) (map action_fn us)) =
      map (fn_undo_update (\<lambda>_. False)) (map action_fn us)"
    using k ka by (auto simp: filter_id_conv)
  show "missing_code t (map condition_fn cs) (map action_fn as)
      (map (fn_undo_update (\<lambda>_. False)) (map action_fn us)) = 0"
    using k ka by (auto simp: missing_code_def missing_def)
  have mk: "mk_action t (action_fn a) = a" "mk_action t (action_fn a\<lparr>fn_undo := False\<rparr>) = a" if "a \<in> set (as @ us)" for a
    using assms that conv [of "a_args a"]
    by (auto simp: registered_def rule_writable_def mk_action_def action_fn_def intro!: action.equality)
  then show "map (mk_action t) (map action_fn as) = as"
    "map (mk_action t) (map (fn_undo_update (\<lambda>_. False)) (map action_fn us)) = us"
    by (simp_all add: map_idI)
  show "map (\<lambda>f. Some (mk_condition t r f)) (map condition_fn cs) =
      map (\<lambda>c. Some (c\<lparr>c_rule := Some r, is_true := False\<rparr>)) cs"
    using assms conv by (auto simp: registered_def rule_writable_def mk_condition_def condition_fn_def intro!: condition.equality)
qed

lemma parse_db_rule_run:
  assumes yajl: "yajl_laws Y" and ok: "engine_ok t" and w: "rule_writable cs as us"
    and doc: "svc_dump env (DB_RULE_PATH @ ''/'' @ nm) (database t) = Some doc" "tree_parse Y doc = Some (rule_tree env cs as us)"
    and reg: "registered t cs (as @ us)"
    and cached: "all_cached (fn_vars (map condition_fn cs @ map action_fn as @ map action_fn us)) t"
    and valid: "verdict t nm (map condition_fn cs) (map action_fn as) (map (fn_undo_update (\<lambda>_. False)) (map action_fn us)) = RULE_VALID"
  shows "\<exists>d' t'. parse_db_rule Y env (xops env il fl (Suc k)) nm (d, t) = Ok (d', t') \<and> engine_ok t' \<and>
    linked_rule t (next_addr t) nm (map condition_fn cs) (map action_fn as)
      (map (fn_undo_update (\<lambda>_. False)) (map action_fn us)) t'"
proof -
  let ?C = "map condition_fn cs" and ?A = "map action_fn as" and ?U = "map action_fn us"
  let ?U' = "map (fn_undo_update (\<lambda>_. False)) ?U"
  let ?ops = "xops env il fl (Suc k)"
  have fns: "\<forall>f \<in> set ?C. fn_ok f" "\<forall>f \<in> set ?A. fn_ok f" "\<forall>f \<in> set ?U. fn_ok f"
    using w by (auto simp: rule_writable_def fn_ok_def condition_fn_def action_fn_def writable_arg_ok ball_Un)
  have vars: "all_cached (fn_vars ?C) t" "all_cached (fn_vars ?A) t" "all_cached (fn_vars ?U) t"
    using cached by (auto simp: all_cached_def)
  have undo_vars: "fn_vars (map (fn_undo_update (\<lambda>_. False)) fs) = fn_vars fs" for fs
    by (induction fs) simp_all
  have sec: "section_ok ?ops t (spaced ?C)" "section_ok ?ops t (spaced ?A)" "section_ok ?ops t (spaced ?U)"
    by (rule section_ok_xops; use fns vars in blast)+
  have "all_cached (fn_vars (?C @ ?A @ ?U')) t"
    using vars undo_vars [of ?U] by (auto simp: all_cached_def)
  then obtain msg t' where app: "apply_rule env (xops env il fl k) (Some nm) ?C ?A ?U' None t = Ok (1, msg, t')"
      "engine_ok t'" "linked_rule t (next_addr t) nm ?C ?A ?U' t'"
    using apply_rule_run [OF ok, of ?C ?A ?U' env "xops env il fl k" nm None] registered_rule [OF reg w] valid
    by auto
  have "rule_result 1 = (0, 0)" by (simp add: rule_result_def Let_def)
  then have "omap (\<lambda>(ok, e, s'). (ok, error_code e, rule_error_code e, message e, s'))
      (parse_rule_persistent ?ops nm (section_text ?C) (section_text ?A) (section_text ?U) d t) = Ok (True, 0, 0, msg, t')"
    using parse_rule_text_run [OF sec, of "section_text ?C" "section_text ?A" "section_text ?U" "Some nm" None d] app(1)
    by (simp add: parse_rule_persistent_def)
  then obtain e where "parse_rule_persistent ?ops nm (section_text ?C) (section_text ?A) (section_text ?U) d t = Ok (True, e, t')"
    by (auto simp: omap_def outcome_simps split: outcome.splits)
  then show ?thesis
    using app(2,3) doc(1) parseable_of_tree [OF yajl doc(2) w, of nm]
    by (auto simp: parse_db_rule_def)
qed


subsection \<open>A concrete yajl\<close>

text \<open>
  A generator and parser with the laws: braces and quoted strings in which every character
  is escaped.
\<close>

fun enc_call :: "gen_call \<Rightarrow> string" where
  "enc_call G_map_open = ''{''"
| "enc_call G_map_close = ''}''"
| "enc_call (G_string t) = [CHR 0x22] @ concat (map (\<lambda>c. [CHR 0x5C, c]) t) @ [CHR 0x22]"

fun lex_calls :: "string \<Rightarrow> string option \<Rightarrow> gen_call list" where
  "lex_calls [] _ = []"
| "lex_calls (c # r) None =
     (if c = CHR ''{'' then G_map_open # lex_calls r None
      else if c = CHR ''}'' then G_map_close # lex_calls r None
      else lex_calls r (Some []))"
| "lex_calls (c # r) (Some acc) =
     (if c = CHR 0x22 then G_string acc # lex_calls r None
      else case r of [] \<Rightarrow> [] | e # r' \<Rightarrow> lex_calls r' (Some (acc @ [e])))"

fun build_tree :: "gen_call list \<Rightarrow> ((string \<times> json) list \<times> string option) list \<Rightarrow> json option" where
  "build_tree [] st = None"
| "build_tree (G_string t # cs) [] = (if cs = [] then Some (J_String t) else None)"
| "build_tree (G_string t # cs) ((kvs, None) # st) = build_tree cs ((kvs, Some t) # st)"
| "build_tree (G_string t # cs) ((kvs, Some k) # st) = build_tree cs ((kvs @ [(k, J_String t)], None) # st)"
| "build_tree (G_map_open # cs) st = build_tree cs (([], None) # st)"
| "build_tree (G_map_close # cs) [] = None"
| "build_tree (G_map_close # cs) [(kvs, _)] = (if cs = [] then Some (J_Object kvs) else None)"
| "build_tree (G_map_close # cs) ((kvs, _) # (kvs', Some k) # st) =
     build_tree cs ((kvs' @ [(k, J_Object kvs)], None) # st)"
| "build_tree (G_map_close # cs) ((kvs, _) # (kvs', None) # st) = None"

definition simple_yajl :: yajl where
  "simple_yajl =
     \<lparr>tree_parse = (\<lambda>s. build_tree (lex_calls s None) []),
      tree_get_any = (\<lambda>j k. case j of J_Object kvs \<Rightarrow> map_of kvs k | _ \<Rightarrow> None),
      tree_get_string = (\<lambda>j k. case j of J_Object kvs \<Rightarrow>
         (case map_of kvs k of Some (J_String t) \<Rightarrow> Some t | _ \<Rightarrow> None) | _ \<Rightarrow> None),
      gen_buf = (\<lambda>cs. concat (map enc_call cs))\<rparr>"

lemma lex_string: "lex_calls (concat (map (\<lambda>c. [CHR 0x5C, c]) t) @ CHR 0x22 # r) (Some acc) = G_string (acc @ t) # lex_calls r None"
  by (induction t arbitrary: acc) simp_all

lemma lex_enc: "lex_calls (concat (map enc_call cs)) None = cs"
proof (induction cs)
  case (Cons c cs)
  then show ?case by (cases c) (simp_all add: lex_string)
qed simp

lemma build_tree_value:
  "textual j \<Longrightarrow> build_tree (gen_of j @ cs) ((kvs, Some k) # st) = build_tree cs ((kvs @ [(k, j)], None) # st)"
proof (induction j arbitrary: cs kvs k st)
  case (J_Object ps)
  have "build_tree (concat (map (\<lambda>(k, v). G_string k # gen_of v) qs) @ cs') ((acc, None) # st') =
      build_tree cs' ((acc @ qs, None) # st')" if "set qs \<subseteq> set ps" for qs acc cs' st'
    using that
  proof (induction qs arbitrary: acc)
    case (Cons q qs)
    obtain k v where q: "q = (k, v)" by (cases q)
    have "build_tree (gen_of v @ ds) ((acc, Some k) # st') = build_tree ds ((acc @ [(k, v)], None) # st')" for ds
      by (rule J_Object.IH) (use Cons.prems q J_Object.prems in auto)
    with Cons q show ?case by simp
  qed simp
  from this [of ps] show ?case by simp
qed simp_all

lemma build_tree_top: "textual j \<Longrightarrow> build_tree (gen_of j) [] = Some j"
proof (cases j)
  case (J_Object ps)
  assume j: "textual j"
  have "build_tree (concat (map (\<lambda>(k, v). G_string k # gen_of v) qs) @ [G_map_close]) [(acc, None)] =
      Some (J_Object (acc @ qs))" if "set qs \<subseteq> set ps" for qs acc
    using that
  proof (induction qs arbitrary: acc)
    case (Cons q qs)
    with j J_Object show ?case by (cases q) (auto simp: build_tree_value)
  qed simp
  from this [of ps] J_Object show ?thesis by simp
qed simp_all

lemma simple_yajl_laws: "yajl_laws simple_yajl"
  by (simp add: yajl_laws_def simple_yajl_def lex_enc build_tree_top)

lemma map_env_keeps: "db_keeps Y map_env"
  by (simp add: db_keeps_def map_env_def)

definition demo_stored :: "(string \<Rightarrow> string option) xstate" where
  "demo_stored = demo_state\<lparr>
     cond_heap := [1 \<mapsto> \<lparr>c_type = demo_type, c_rule = Some 0, is_true = True, is_inverted = True, c_args = [Arg_Int 90]\<rparr>],
     rule_heap := [0 \<mapsto> \<lparr>rule_id = Some ''hot'', conditions = [1],
        actions = [\<lparr>a_type = demo_action, a_args = [Arg_Str ''too hot'']\<rparr>], undos = [], is_active = True, linked = True\<rparr>],
     rules := [0], next_addr := 2\<rparr>"


end
