(* ===== verification/Policy_File.thy ===== *)
theory Policy_File
  imports Rule_Db
begin

text \<open>
  Policy files (\<open>parse_config_from_file\<close> of \<open>parser.c\<close>, \<open>load_policy_from_file\<close> of
  \<open>modules.c\<close>). A file is read in pieces of at most 1023 characters with \<open>fgets\<close>;
  \<open>None\<close> is a run that never returns.
\<close>

subsection \<open>Reading lines\<close>

abbreviation (input) newline :: char where "newline \<equiv> CHR 0x0A"

definition fgets :: "string \<Rightarrow> (string \<times> string) option" where
  \<comment> \<open>\<open>fgets (line, 1024, file)\<close>: what is read and what remains; \<open>None\<close> at the end of the file\<close>
  "fgets rest =
     (if rest = [] then None
      else
        let chunk = take 1023 rest; l = takeWhile (\<lambda>c. c \<noteq> newline) chunk
        in if newline \<in> set chunk then Some (l @ [newline], drop (Suc (length l)) rest)
           else Some (chunk, drop 1023 rest))"

definition c_str :: "string \<Rightarrow> string" where
  "c_str l = takeWhile (\<lambda>c. c \<noteq> CHR 0x00) l"

definition whitespace_line :: "string \<Rightarrow> bool" where
  \<comment> \<open>\<open>*ptr <= ' '\<close> on a signed \<open>char\<close> holds for the bytes above 127 too\<close>
  "whitespace_line l \<longleftrightarrow> (\<forall>c \<in> set l. of_char c \<le> (32::nat) \<or> of_char c \<ge> (128::nat))"

partial_function (option) skip_long :: "string \<Rightarrow> string \<Rightarrow> string option" where
  \<comment> \<open>the loop that discards the rest of a long line: at the end of the file \<open>fgets\<close> leaves \<open>line\<close> alone\<close>
  "skip_long line rest =
     (if newline \<in> set line then Some rest
      else case fgets rest of None \<Rightarrow> skip_long line rest | Some (l, r) \<Rightarrow> skip_long (c_str l) r)"

subsection \<open>Fields of a rule\<close>

fun fields :: "string \<Rightarrow> bool \<Rightarrow> string \<Rightarrow> string list" where
  \<comment> \<open>the tokens of a line, in order: \<open>in_quotes\<close> and the token read so far\<close>
  "fields [] q acc = (if q then [] else [acc])"
| "fields (c # r) q acc =
     (let q' = (if c = CHR 0x22 then \<not> q else q)
      in if (c = CHR ''|'' \<or> c = newline) \<and> \<not> q' then acc # fields r q' []
         else fields r q' (acc @ [c]))"

definition field :: "string list \<Rightarrow> nat \<Rightarrow> string option" where
  "field fs i = (if i < length fs then Some (fs ! i) else None)"

definition garbage :: "char \<Rightarrow> bool" where
  "garbage c \<longleftrightarrow> of_char c < (33::nat) \<or> of_char c > (126::nat)"

definition chomp :: "string option \<Rightarrow> string option outcome" where
  \<comment> \<open>the loop over trailing garbage runs off the front of the buffer when nothing else is there\<close>
  "chomp name =
     (case name of
        None \<Rightarrow> Ok None
      | Some t \<Rightarrow>
          if \<forall>c \<in> set t. garbage c then Crash Buffer_Overflow
          else Ok (Some (rev (dropWhile garbage (rev t)))))"

subsection \<open>The file\<close>

definition file_var :: "'s parser_ops \<Rightarrow> string \<Rightarrow> parse_data \<Rightarrow> 's \<Rightarrow> (parse_data \<times> 's) outcome" where
  "file_var ops line d s =
     obind (parse ops (Some line) (init_parse_data None (Some line) None None None TYPE_VAR_MAP d) s) (\<lambda>(ok, d, s).
       if ok then Ok (d, s) else omap (\<lambda>_. (d, s)) (extract_parse_error d))"

definition file_rule :: "'s parser_ops \<Rightarrow> string \<Rightarrow> parse_data \<Rightarrow> 's \<Rightarrow> (parse_data \<times> 's) outcome" where
  "file_rule ops line d s =
     (let fs = fields line False []
      in obind (chomp (field fs 0)) (\<lambda>name.
           obind (parse ops (field fs 1)
             (init_parse_data name None (field fs 1) (field fs 2) (field fs 3) TYPE_RULE d) s) (\<lambda>(ok, d, s).
             if ok then Ok (d, s) else omap (\<lambda>_. (d, s)) (extract_parse_error d))))"

definition file_line ::
  "'s parser_ops \<Rightarrow> string \<Rightarrow> bool \<times> parse_data \<times> 's \<Rightarrow> (bool \<times> parse_data \<times> 's) outcome" where
  \<comment> \<open>a line that is complete and neither a comment nor blank\<close>
  "file_line ops line = (\<lambda>(in_var_section, d, s).
     if CHR ''='' \<in> set line then Ok (False, d, s)
     else omap (Pair in_var_section) (if in_var_section then file_var ops line d s else file_rule ops line d s))"

lemma fgets_shorter: "fgets rest = Some (l, r) \<Longrightarrow> length r < length rest"
  by (auto simp: fgets_def Let_def split: if_splits)

lemma skip_long_shorter:
  assumes "skip_long line rest = Some r"
  shows "length r \<le> length rest"
proof (rule skip_long.raw_induct [where P = "\<lambda>line rest r. length r \<le> length rest", OF _ assms])
  fix skip line rest r
  assume IH: "\<And>line rest r. skip line rest = Some r \<Longrightarrow> length r \<le> length rest"
    and run: "(if newline \<in> set line then Some rest
      else case fgets rest of None \<Rightarrow> skip line rest | Some (l, r) \<Rightarrow> skip (c_str l) r) = Some r"
  show "length r \<le> length rest"
  proof (cases "fgets rest")
    case None
    with run IH show ?thesis by (auto split: if_splits)
  next
    case (Some a)
    with run IH [of "c_str (fst a)" "snd a" r] fgets_shorter [of rest "fst a" "snd a"] show ?thesis
      by (cases a) (auto split: if_splits)
  qed
qed

function file_loop ::
  "'s parser_ops \<Rightarrow> string \<Rightarrow> bool \<times> parse_data \<times> 's \<Rightarrow> (bool \<times> parse_data \<times> 's) outcome option" where
  "file_loop ops rest st =
     (case fgets rest of
        None \<Rightarrow> Some (Ok st)
      | Some (l, r) \<Rightarrow>
          let line = c_str l in
          if line \<noteq> [] \<and> hd line = CHR ''#'' then file_loop ops r st
          else if whitespace_line line then file_loop ops r st
          else if newline \<notin> set line
          then (case skip_long line r of None \<Rightarrow> None | Some r' \<Rightarrow> file_loop ops r' st)
          else (case file_line ops line st of Ok st' \<Rightarrow> file_loop ops r st' | Crash k \<Rightarrow> Some (Crash k)))"
  by pat_completeness auto
termination
  by (relation "measure (\<lambda>(ops, rest, st). length rest)")
    (auto dest!: fgets_shorter skip_long_shorter)

declare file_loop.simps [simp del]

definition parse_config_from_file ::
  "'s parser_ops \<Rightarrow> string option \<Rightarrow> 's \<Rightarrow> (int \<times> 's) outcome option" where
  \<comment> \<open>the file's contents, \<open>None\<close> when it cannot be opened\<close>
  "parse_config_from_file ops file s =
     (case file of
        None \<Rightarrow> Some (Ok (- 1, s))
      | Some content \<Rightarrow>
          map_option (omap (\<lambda>(_, _, s). (0, s))) (file_loop ops content (True, blank_parse_data, s)))"

definition load_policy_from_file ::
  "yajl \<Rightarrow> 'd env \<Rightarrow> 'd xstate parser_ops \<Rightarrow> string option \<Rightarrow> 'd xstate \<Rightarrow> (int \<times> 'd xstate) outcome option" where
  "load_policy_from_file Y env ops file s =
     map_option (\<lambda>m. obind m (\<lambda>(ret, s). if ret = - 1 then Ok (- 1, s) else omap (Pair 0) (write_db_rules Y env s)))
       (parse_config_from_file ops file s)"

subsection \<open>Lines\<close>

lemma fgets_line:
  assumes "newline \<notin> set l" and "length l < 1023"
  shows "fgets (l @ newline # rest) = Some (l @ [newline], rest)"
proof -
  have "take 1023 (l @ newline # rest) = l @ newline # take (1022 - length l) rest"
    using assms(2) by (simp add: take_Cons' )
  moreover have "takeWhile (\<lambda>c. c \<noteq> newline) (l @ newline # r) = l" for r
    using assms(1) by (induction l) auto
  ultimately show ?thesis by (simp add: fgets_def Let_def)
qed

lemma c_str_id: "CHR 0x00 \<notin> set l \<Longrightarrow> c_str l = l"
  by (auto simp: c_str_def takeWhile_eq_all_conv)

text \<open>What a complete line does.\<close>

definition line_effect ::
  "'s parser_ops \<Rightarrow> string \<Rightarrow> bool \<times> parse_data \<times> 's \<Rightarrow> (bool \<times> parse_data \<times> 's) outcome" where
  "line_effect ops l st =
     (if l \<noteq> [] \<and> hd l = CHR ''#'' \<or> whitespace_line l then Ok st else file_line ops (l @ [newline]) st)"

definition plain_line :: "string \<Rightarrow> bool" where
  "plain_line l \<longleftrightarrow> newline \<notin> set l \<and> CHR 0x00 \<notin> set l \<and> length l < 1023"

lemma file_loop_line:
  assumes "plain_line l"
  shows "file_loop ops (l @ newline # rest) st =
    (case line_effect ops l st of Ok st' \<Rightarrow> file_loop ops rest st' | Crash k \<Rightarrow> Some (Crash k))"
proof -
  have l: "c_str (l @ [newline]) = l @ [newline]"
    using assms by (intro c_str_id) (simp add: plain_line_def)
  have blank: "whitespace_line (l @ [newline]) = whitespace_line l" by (simp add: whitespace_line_def)
  have head: "(l @ [newline] \<noteq> [] \<and> hd (l @ [newline]) = CHR ''#'') = (l \<noteq> [] \<and> hd l = CHR ''#'')"
    by (cases l) auto
  have "fgets (l @ newline # rest) = Some (l @ [newline], rest)"
    using assms by (intro fgets_line) (simp_all add: plain_line_def)
  then show ?thesis
    unfolding line_effect_def by (subst file_loop.simps) (simp only: option.case prod.case Let_def l blank head, simp)
qed

lemma file_loop_lines:
  assumes "\<forall>l \<in> set ls. plain_line l"
  shows "file_loop ops (concat (map (\<lambda>l. l @ [newline]) ls) @ rest) st =
    (case ofold (line_effect ops) ls st of Ok st' \<Rightarrow> file_loop ops rest st' | Crash k \<Rightarrow> Some (Crash k))"
  using assms
proof (induction ls arbitrary: st)
  case (Cons l ls)
  then show ?case by (cases "line_effect ops l st") (simp_all add: file_loop_line)
qed simp

lemma file_loop_end [simp]: "file_loop ops [] st = Some (Ok st)"
  by (subst file_loop.simps) (simp add: fgets_def)



lemma skip_long_found:
  assumes "skip_long line rest = Some r"
  shows "newline \<in> set line \<or> newline \<in> set rest"
proof (rule skip_long.raw_induct [where P = "\<lambda>line rest r. newline \<in> set line \<or> newline \<in> set rest", OF _ assms])
  fix skip line rest r
  assume IH: "\<And>line rest r. skip line rest = Some r \<Longrightarrow> newline \<in> set line \<or> newline \<in> set rest"
    and run: "(if newline \<in> set line then Some rest
      else case fgets rest of None \<Rightarrow> skip line rest | Some (l, r) \<Rightarrow> skip (c_str l) r) = Some r"
  show "newline \<in> set line \<or> newline \<in> set rest"
  proof (cases "fgets rest")
    case None
    with run IH show ?thesis by (auto split: if_splits)
  next
    case (Some a)
    have "set (c_str (fst a)) \<subseteq> set rest" "set (snd a) \<subseteq> set rest"
      using Some by (auto simp: fgets_def c_str_def Let_def split: if_splits
          dest!: set_takeWhileD in_set_takeD in_set_dropD)
    with Some run IH [of "c_str (fst a)" "snd a" r] show ?thesis
      by (cases a) (auto split: if_splits)
  qed
qed

text \<open>
  C30. A policy file whose last line does not end in a newline hangs the daemon. The line is
  taken for one longer than the buffer, and the loop that is to skip the rest of it calls
  \<open>fgets\<close> at the end of the file forever, unless the line is a comment or blank or an
  earlier line has crashed the parser. \<open>parse_config_from_file\<close> then never returns.
\<close>

theorem unterminated_file_hangs:
  assumes "\<forall>l \<in> set ls. plain_line l" and "ofold (line_effect ops) ls (True, blank_parse_data, s) = Ok st"
    and "plain_line l" and "l \<noteq> []" and "hd l \<noteq> CHR ''#''" and "\<not> whitespace_line l"
  shows "parse_config_from_file ops (Some (concat (map (\<lambda>l. l @ [newline]) ls) @ l)) s = None"
proof -
  have "fgets l = Some (l, [])" "c_str l = l"
    using assms(3,4) by (auto simp: fgets_def Let_def plain_line_def c_str_id)
  moreover have "skip_long l [] = None"
    using skip_long_found [of l "[]"] assms(3) by (cases "skip_long l []") (auto simp: plain_line_def)
  ultimately have "file_loop ops l st' = None" for st' :: "bool \<times> parse_data \<times> 'a"
    using assms(3,5,6) by (subst file_loop.simps) (auto simp: plain_line_def)
  then show ?thesis
    using file_loop_lines [OF assms(1), of ops l "(True, blank_parse_data, s)"] assms(2)
    by (simp add: parse_config_from_file_def)
qed

theorem unterminated_file_hangs_witness:
  "parse_config_from_file recording_ops (Some (''='' @ [newline] @ ''r|onAc()|log()'')) [] = None"
  using unterminated_file_hangs [of "[''='']" recording_ops "[]" "(False, blank_parse_data, [])" "''r|onAc()|log()''"]
  by (simp add: plain_line_def line_effect_def whitespace_line_def file_line_def)

subsection \<open>Rules in a file\<close>

text \<open>The quoting state after a piece of a line that contains no separator outside quotes.\<close>

fun quote_scan :: "bool \<Rightarrow> string \<Rightarrow> bool option" where
  "quote_scan q [] = Some q"
| "quote_scan q (c # r) =
     (let q' = (if c = CHR 0x22 then \<not> q else q)
      in if (c = CHR ''|'' \<or> c = newline) \<and> \<not> q' then None else quote_scan q' r)"

lemma quote_scan_append: "quote_scan q (s @ t) = Option.bind (quote_scan q s) (\<lambda>q'. quote_scan q' t)"
  by (induction s arbitrary: q) (simp_all add: Let_def)

lemma quote_scan_plain:
  "CHR 0x22 \<notin> set t \<Longrightarrow> q \<or> CHR ''|'' \<notin> set t \<and> newline \<notin> set t \<Longrightarrow> quote_scan q t = Some q"
  by (induction t) (auto simp: Let_def)

lemma fields_scan: "quote_scan q t = Some q' \<Longrightarrow> fields (t @ r) q acc = fields r q' (acc @ t)"
proof (induction t arbitrary: q acc)
  case (Cons c t)
  define p where "p = (if c = CHR 0x22 then \<not> q else q)"
  have sep: "\<not> ((c = CHR ''|'' \<or> c = newline) \<and> \<not> p)" and rest: "quote_scan p t = Some q'"
    using Cons.prems by (auto simp: Let_def p_def [symmetric] split: if_splits)
  have "fields ((c # t) @ r) q acc = fields (t @ r) p (acc @ [c])"
    using sep by (auto simp: Let_def p_def [symmetric])
  with Cons.IH [OF rest] show ?case by simp
qed simp

lemma alnum_unquoted:
  "condition_isAlphanumeric_us c \<Longrightarrow> c \<noteq> CHR 0x22 \<and> c \<noteq> CHR ''|'' \<and> c \<noteq> newline"
  by (auto simp: condition_isAlphanumeric_us_def less_eq_char_def)

lemma digit_unquoted: "is_digit c \<Longrightarrow> c \<noteq> CHR 0x22 \<and> c \<noteq> CHR ''|'' \<and> c \<noteq> newline"
  by (auto simp: is_digit_def less_eq_char_def)

lemma name_unquoted: "name_ok n \<Longrightarrow> quote_scan False n = Some False"
  using alnum_unquoted by (intro quote_scan_plain) (auto simp: name_ok_def)

lemma arg_unquoted: "arg_ok a \<Longrightarrow> quote_scan False (fn_arg_text a) = Some False"
proof (cases a)
  case (FA_Int i)
  then show ?thesis
    using show_nat_digits digit_unquoted by (auto intro!: quote_scan_plain simp: show_int_def)
next
  case (FA_Str t)
  assume "arg_ok a"
  with FA_Str have "quote_scan True t = Some True"
    by (intro quote_scan_plain) (auto simp: condition_isNotDblQuoteOrNull_def)
  with FA_Str show ?thesis by (simp add: quote_scan_append)
qed (auto simp: name_unquoted)

lemma args_unquoted: "\<forall>a \<in> set as. arg_ok a \<Longrightarrow> quote_scan False (args_text as) = Some False"
  by (induction as rule: args_text.induct) (simp_all add: arg_unquoted quote_scan_append)

lemma fns_unquoted: "section_ok ops s fs \<Longrightarrow> quote_scan False (fns_text fs) = Some False"
proof -
  have "\<forall>(f, n) \<in> set fs. fn_ok f \<Longrightarrow> quote_scan False (fns_text fs) = Some False"
  proof (induction fs rule: fns_text.induct)
    case (2 f n fs)
    have "quote_scan False (replicate n (CHR '' '')) = Some False" by (rule quote_scan_plain) auto
    moreover have "quote_scan False (fn_text f) = Some False"
      using 2 by (auto simp: fn_text_def quote_scan_append fn_ok_def name_unquoted args_unquoted)
    ultimately show ?case using 2 by (simp add: quote_scan_append)
  qed simp
  then show "section_ok ops s fs \<Longrightarrow> ?thesis" by (auto simp: section_ok_def)
qed

definition rule_line :: "string \<Rightarrow> (fn \<times> nat) list \<Rightarrow> (fn \<times> nat) list \<Rightarrow> (fn \<times> nat) list \<Rightarrow> string" where
  "rule_line nm C A U = nm @ ''|'' @ fns_text C @ ''|'' @ fns_text A @ ''|'' @ fns_text U"

lemma fields_rule_line:
  assumes "quote_scan False nm = Some False" and "section_ok ops s C" "section_ok ops s A" "section_ok ops s U"
  shows "fields (rule_line nm C A U @ [newline]) False [] = [nm, fns_text C, fns_text A, fns_text U, []]"
proof -
  have "fields (t @ c # r) False [] = t # fields r False []" if "quote_scan False t = Some False" "c = CHR ''|'' \<or> c = newline" for t c r
    using that(2) fields_scan [OF that(1), of "c # r" "[]"] by auto
  from this [OF assms(1)] this [OF fns_unquoted [OF assms(2)]] this [OF fns_unquoted [OF assms(3)]]
    this [OF fns_unquoted [OF assms(4)]]
  show ?thesis by (simp add: rule_line_def)
qed

text \<open>
  C29. A rule written on one line of a policy file, \<open>name|conditions|actions|undos\<close>, is loaded
  as written: vertical bars inside string arguments do not separate, spaces after the name
  are dropped, and \<open>apply_rule\<close> gets exactly the name and the functions of the text.
\<close>

theorem file_rule_text:
  assumes "quote_scan False nm = Some False" and "nm \<noteq> []" and "\<not> garbage (last nm)"
    and "section_ok ops s C" and "section_ok ops s A" and "section_ok ops s U"
    and "op_apply_rule ops (Some nm) (map fst C) (map fst A) (map (fn_undo_update (\<lambda>_. False)) (map fst U)) None s =
      Ok (1, msg, s')"
  shows "\<exists>d'. file_rule ops (rule_line (nm @ replicate k (CHR '' '')) C A U @ [newline]) d s = Ok (d', s')"
proof -
  let ?nm = "nm @ replicate k (CHR '' '')"
  have "quote_scan False (replicate k (CHR '' '')) = Some False" by (rule quote_scan_plain) auto
  with assms(1) have nm: "quote_scan False ?nm = Some False" by (simp add: quote_scan_append)
  have g: "garbage (CHR '' '')" by (simp add: garbage_def)
  have fs: "fields (rule_line ?nm C A U @ [newline]) False [] = [?nm, fns_text C, fns_text A, fns_text U, []]"
    by (rule fields_rule_line [OF nm assms(4-6)])
  have "dropWhile garbage (replicate k (CHR '' '') @ rev nm) = rev nm"
    using g assms(2,3) by (induction k) (simp_all, cases nm rule: rev_cases, auto)
  moreover have "\<exists>c \<in> set ?nm. \<not> garbage c" using assms(2,3) last_in_set [of nm] by auto
  ultimately have chomp: "chomp (Some ?nm) = Ok (Some nm)" by (auto simp: chomp_def)
  have "rule_result 1 = (0, 0)" by (simp add: rule_result_def Let_def)
  with parse_rule_text_run [OF assms(4-6), of "Some (fns_text C)" "Some (fns_text A)" "Some (fns_text U)" "Some nm" None d] assms(7)
  obtain e where "parse ops (Some (fns_text C))
      (init_parse_data (Some nm) None (Some (fns_text C)) (Some (fns_text A)) (Some (fns_text U)) TYPE_RULE d) s = Ok (True, e, s')"
    by (auto simp: omap_def outcome_simps split: outcome.splits)
  then show ?thesis
    by (simp add: file_rule_def fs field_def chomp numeral_2_eq_2 numeral_3_eq_3)
qed

theorem file_rule_text_witness:
  "\<exists>d'. file_rule recording_ops (''hot |over(90)|log('' @ [CHR 0x22] @ ''a|b'' @ [CHR 0x22] @ '')|'' @ [newline]) blank_parse_data [] =
    Ok (d', [(Some ''hot'', [\<lparr>fn_name = ''over'', fn_args = [FA_Int 90], fn_undo = True\<rparr>],
      [\<lparr>fn_name = ''log'', fn_args = [FA_Str ''a|b''], fn_undo = True\<rparr>], [])])"
proof -
  let ?C = "[(\<lparr>fn_name = ''over'', fn_args = [FA_Int 90], fn_undo = True\<rparr>, 0)]"
  let ?A = "[(\<lparr>fn_name = ''log'', fn_args = [FA_Str ''a|b''], fn_undo = True\<rparr>, 0)]"
  have ok: "section_ok recording_ops [] ?C" "section_ok recording_ops [] ?A" "section_ok recording_ops [] []"
    by (simp_all add: section_ok_def fn_ok_def name_ok_def condition_isAlphanumeric_us_def less_eq_char_def
        in_int32_def condition_isNotDblQuoteOrNull_def resolves_def recording_ops_def)
  have printed: "rule_line (''hot'' @ replicate 1 (CHR '' '')) ?C ?A [] =
      ''hot |over(90)|log('' @ [CHR 0x22] @ ''a|b'' @ [CHR 0x22] @ '')|''"
    by code_simp
  show ?thesis
    using file_rule_text [of "''hot''", OF _ _ _ ok, of None _ 1 blank_parse_data] printed
    by (simp add: garbage_def recording_ops_def)
qed

end
