(* ===== verification/Condition_Modules.thy ===== *)
theory Condition_Modules
  imports Policy_Modules Policy_Types
begin

text \<open>
  What the modules that provide conditions have in common (\<open>acpi-module.c\<close>,
  \<open>vm-events-module.c\<close>): a table of events and a table of condition types, which the
  module's constructor registers, and checkers that read the event's value and their
  arguments. The locale \<open>condition_module\<close> is the contract between such a module and the
  engine: called with arguments that match the prototype of its row and an event that holds a
  value of the declared type, a checker returns and leaves the engine alone. Together with
  the types of a loaded policy this gives that events are handled without undefined behaviour.
\<close>

record event_data_row =
  er_name :: string
  er_stateless :: bool
  er_type :: arg_type
  er_reset :: arg
  er_index :: nat

record cond_table_row =
  cr_name :: string
  cr_func :: string
  cr_prototype :: string
  cr_pretty :: string
  cr_event :: nat

definition event_row :: "string \<Rightarrow> bool \<Rightarrow> arg_type \<Rightarrow> arg \<Rightarrow> nat \<Rightarrow> event_data_row" where
  "event_row n st t r i = \<lparr>er_name = n, er_stateless = st, er_type = t, er_reset = r, er_index = i\<rparr>"

definition cond_row :: "string \<Rightarrow> string \<Rightarrow> string \<Rightarrow> string \<Rightarrow> nat \<Rightarrow> cond_table_row" where
  "cond_row n f p pp e = \<lparr>cr_name = n, cr_func = f, cr_prototype = p, cr_pretty = pp, cr_event = e\<rparr>"

definition register_events :: "event_data_row list \<Rightarrow> 'd xstate \<Rightarrow> nat list \<times> 'd xstate" where
  \<comment> \<open>the first loop of a module's constructor; the list is the module's event table\<close>
  "register_events rows s =
     fold (\<lambda>row (table, s).
         let (e, s') = add_event (er_name row) (er_stateless row) (er_type row) (er_reset row) s
         in (table[er_index row := e], s'))
       rows (replicate (length rows) 0, s)"

definition register_conditions :: "nat list \<Rightarrow> cond_table_row list \<Rightarrow> 'd xstate \<Rightarrow> 'd xstate" where
  \<comment> \<open>the second loop\<close>
  "register_conditions table rows =
     fold (\<lambda>row. add_condition_type (cr_name row) (cr_func row) (cr_prototype row) (cr_pretty row) (table ! cr_event row)) rows"

definition init_module ::
  "event_data_row list \<Rightarrow> cond_table_row list \<Rightarrow> 'd xstate \<Rightarrow> nat list \<times> 'd xstate" where
  "init_module evs conds s =
     (let (table, s) = register_events evs s in (table, register_conditions table conds s))"

subsection \<open>Reading values and arguments\<close>

text \<open>
  A union member is read as the type it was stored with; any other reading depends on bytes
  the program did not set.
\<close>

definition value_i :: "arg \<Rightarrow> int outcome" where
  "value_i v = (case v of Arg_Int i \<Rightarrow> Ok i | _ \<Rightarrow> Crash Indeterminate_Value)"

definition value_b :: "arg \<Rightarrow> bool outcome" where
  "value_b v = (case v of Arg_Bool b \<Rightarrow> Ok b | _ \<Rightarrow> Crash Indeterminate_Value)"

definition value_str :: "arg \<Rightarrow> string outcome" where
  "value_str v = (case v of Arg_Str t \<Rightarrow> Ok t | _ \<Rightarrow> Crash Indeterminate_Value)"

definition store_event :: "nat \<Rightarrow> arg \<Rightarrow> 'd xstate \<Rightarrow> 'd xstate outcome" where
  \<comment> \<open>\<open>e->value = v\<close>\<close>
  "store_event ev v s =
     (if ev < length (events s)
      then Ok (s\<lparr>events := (events s)[ev := (events s ! ev)\<lparr>ev_value := v\<rparr>]\<rparr>)
      else Crash Null_Deref)"

definition read_arg ::
  "'d env \<Rightarrow> 'd xstate parser_ops \<Rightarrow> (arg \<Rightarrow> 'a outcome) \<Rightarrow> arg list \<Rightarrow> nat \<Rightarrow> 'd xstate \<Rightarrow> ('a \<times> 'd xstate) outcome" where
  \<comment> \<open>\<open>get_arg(args, i)->arg\<close>, with the member read by the first function\<close>
  "read_arg env ops read args i s =
     obind (get_arg env ops args i s) (\<lambda>(a, s). obind (deref a) (\<lambda>a. omap (\<lambda>v. (v, s)) (read a)))"

lemma value_typed:
  "arg_type_of v = ARG_INT \<Longrightarrow> \<exists>i. value_i v = Ok i"
  "arg_type_of v = ARG_BOOL \<Longrightarrow> \<exists>b. value_b v = Ok b"
  "arg_type_of v = ARG_STR \<Longrightarrow> \<exists>t. value_str v = Ok t"
  by (cases v; simp add: value_i_def value_b_def value_str_def)+

definition arg_value :: "'d xstate \<Rightarrow> arg \<Rightarrow> arg" where
  "arg_value s a = (case a of Arg_Var v \<Rightarrow> (case cached_var v s of Some x \<Rightarrow> dv_value x | None \<Rightarrow> a) | _ \<Rightarrow> a)"

lemma get_arg_cached:
  assumes "i < length args" and "all_cached (arg_vars args) s"
  shows "get_arg env ops args i s = Ok (Some (arg_value s (args ! i)), s)"
proof -
  have member: "list_member_arg args i = Ok (args ! i)"
    using assms(1) by (simp add: list_member_arg_def)
  have "resolve_arg env ops a s = Ok (Some (arg_value s a), s)" if "a \<in> set args" for a
    using that assms(2)
  proof (induction args rule: arg_vars.induct)
    case (2 v as)
    then show ?case by (auto simp: resolve_arg_def resolve_var_def arg_value_def is_cached_def)
  qed (auto simp: resolve_arg_def arg_value_def)
  with assms(1) member show ?thesis by (simp add: get_arg_def)
qed

lemma arg_value_kind:
  "a \<in> set args \<Longrightarrow> all_cached (arg_vars args) s \<Longrightarrow> arg_type_of (arg_value s a) = arg_kind s a"
  by (induction args rule: arg_vars.induct) (auto simp: arg_value_def arg_kind_def is_cached_def)

lemma arg_value_cong: "db_vars t = db_vars s \<Longrightarrow> arg_value t = arg_value s"
  by (rule ext) (simp add: arg_value_def cached_var_def split: arg.split)

lemma signature_single:
  assumes "signature ts = [arg_type_code t]" and "t \<noteq> ARG_NONE"
  shows "ts = [t]"
proof (cases ts rule: signature.cases)
  case 1
  with assms show ?thesis by (cases t) simp_all
next
  case (2 u)
  with assms show ?thesis by (simp add: arg_type_code_inj)
qed (use assms in simp)

lemma read_arg_typed:
  assumes "signature (map (arg_kind s) args) = [arg_type_code t]" and "t \<noteq> ARG_NONE"
    and "all_cached (arg_vars args) s"
  obtains a where "args = [a]" "arg_type_of (arg_value s a) = t"
    "read_arg env ops read args 0 s = omap (\<lambda>v. (v, s)) (read (arg_value s a))"
proof -
  from signature_single [OF assms(1,2)] obtain a where a: "args = [a]" "arg_kind s a = t"
    by (cases args) auto
  moreover have "arg_type_of (arg_value s a) = t" using arg_value_kind [of a args s] a assms(3) by simp
  moreover have "read_arg env ops read args 0 s = omap (\<lambda>v. (v, s)) (read (arg_value s a))"
    using get_arg_cached [of 0 args s env ops] a(1) assms(3) by (simp add: read_arg_def)
  ultimately show thesis using that by blast
qed

subsection \<open>The contract of a module\<close>

definition of_row :: "nat list \<Rightarrow> cond_table_row \<Rightarrow> condition_type" where
  \<comment> \<open>the condition type a row is registered as\<close>
  "of_row table row =
     \<lparr>ct_name = cr_name row, ct_check = cr_func row, ct_prototype = cr_prototype row,
      ct_pretty_prototype = cr_pretty row, ct_event = table ! cr_event row\<rparr>"

definition events_typed :: "event_data_row list \<Rightarrow> nat list \<Rightarrow> 'd xstate \<Rightarrow> bool" where
  \<comment> \<open>the module's events are there, of the declared kind, and hold values of the declared types\<close>
  "events_typed evs table s \<longleftrightarrow> length table = length evs \<and>
     (\<forall>i < length evs. table ! i < length (events s) \<and>
        is_stateless (events s ! (table ! i)) = er_stateless (evs ! i) \<and>
        arg_type_of (ev_value (events s ! (table ! i))) = er_type (evs ! i) \<and>
        arg_type_of (reset_value (events s ! (table ! i))) = er_type (evs ! i))"

locale condition_module =
  fixes evs :: "event_data_row list" and rows :: "cond_table_row list"
    and check :: "string \<Rightarrow> ev_wrapper \<Rightarrow> arg list \<Rightarrow> 'd xstate \<Rightarrow> (bool \<times> 'd xstate) outcome"
    and meaning :: "string \<Rightarrow> arg \<Rightarrow> arg list \<Rightarrow> bool"
  assumes row_event: "row \<in> set rows \<Longrightarrow> cr_event row < length evs"
    and check_spec: "row \<in> set rows \<Longrightarrow> arg_type_of (ev_value e) = er_type (evs ! cr_event row) \<Longrightarrow>
      all_cached (arg_vars args) s \<Longrightarrow> signature (map (arg_kind s) args) = cr_prototype row \<Longrightarrow>
      check (cr_func row) e args s = Ok (meaning (cr_func row) (ev_value e) (map (arg_value s) args), s)"
begin

lemma check_condition_of_row:
  assumes row: "row \<in> set rows" "c_type x = of_row table row" and evt: "events_typed evs table s"
    and ok: "engine_ok s" "well_typed s" and x: "cond_heap s c = Some x"
    and same: "events t = events s" "db_vars t = db_vars s"
  shows "check (ct_check (c_type x)) (events t ! ct_event (c_type x)) (c_args x) t =
    Ok (meaning (ct_check (c_type x)) (ev_value (events s ! ct_event (c_type x))) (map (arg_value s) (c_args x)), t)"
proof -
  have vars: "all_cached (arg_vars (c_args x)) t"
    using condition_vars_used [OF ok(1) x] used_cached [OF ok(1)] is_cached_db_vars [OF same(2)]
    by (fastforce simp: all_cached_def used_def)
  have "typed_condition s x" using ok(2) x unfolding well_typed_def by blast
  then have "signature (map (arg_kind t) (c_args x)) = cr_prototype row"
    using row(2) arg_kind_db_vars [OF same(2)] by (simp add: typed_condition_def of_row_def)
  moreover have "arg_type_of (ev_value (events t ! (table ! cr_event row))) = er_type (evs ! cr_event row)"
    using evt row_event [OF row(1)] same(1) by (simp add: events_typed_def)
  ultimately have "check (cr_func row) (events t ! (table ! cr_event row)) (c_args x) t =
      Ok (meaning (cr_func row) (ev_value (events t ! (table ! cr_event row))) (map (arg_value t) (c_args x)), t)"
    using check_spec [OF row(1) _ vars] by blast
  then show ?thesis using row(2) same arg_value_cong [OF same(2)] by (simp add: of_row_def)
qed

end

subsection \<open>Registration\<close>

lemma register_conditions_run:
  "register_conditions table rows s = s\<lparr>condition_types := condition_types s @ map (of_row table) rows\<rparr>"
  by (induction rows arbitrary: s) (simp_all add: register_conditions_def add_condition_type_def of_row_def)

definition new_event :: "event_data_row \<Rightarrow> ev_wrapper" where
  "new_event row = \<lparr>ev_name = er_name row, is_stateless = er_stateless row, listeners = [],
     value_type = er_type row, reset_value = er_reset row, ev_value = er_reset row\<rparr>"

lemma register_events_run:
  assumes "map er_index rows = [0..<length rows]"
  shows "register_events rows s =
    ([length (events s)..<length (events s) + length rows], s\<lparr>events := events s @ map new_event rows\<rparr>)"
proof -
  let ?f = "\<lambda>row (table, s). let (e, s') = add_event (er_name row) (er_stateless row) (er_type row) (er_reset row) s
         in (table[er_index row := e], s' :: 'a xstate)"
  have "fold ?f rs (tab, t) =
      (take k tab @ [length (events t)..<length (events t) + length rs] @ drop (k + length rs) tab,
       t\<lparr>events := events t @ map new_event rs\<rparr>)"
    if "map er_index rs = [k..<k + length rs]" "k + length rs \<le> length tab" for rs tab k and t :: "'a xstate"
    using that
  proof (induction rs arbitrary: tab t k)
    case (Cons r rs)
    from Cons.prems(1) have idx: "er_index r = k" "map er_index rs = [Suc k..<Suc k + length rs]"
      by (simp_all add: upt_conv_Cons del: upt_Suc)
    let ?tab = "tab[k := length (events t)]" and ?t = "t\<lparr>events := events t @ [new_event r]\<rparr>"
    have step: "?f r (tab, t) = (?tab, ?t)"
      using idx(1) by (simp add: add_event_def new_event_def)
    have "fold ?f rs (?tab, ?t) =
      (take (Suc k) ?tab @ [length (events ?t)..<length (events ?t) + length rs] @ drop (Suc k + length rs) ?tab,
       ?t\<lparr>events := events ?t @ map new_event rs\<rparr>)"
      using Cons.prems(2) idx(2) by (intro Cons.IH) simp_all
    moreover have "take (Suc k) ?tab = take k tab @ [length (events t)]"
      using Cons.prems(2) by (simp add: take_Suc_conv_app_nth)
    moreover have "drop (Suc k + length rs) ?tab = drop (k + length (r # rs)) tab" by simp
    moreover have "[length (events t)..<length (events t) + length (r # rs)] =
        length (events t) # [Suc (length (events t))..<Suc (length (events t)) + length rs]"
      by (simp add: upt_conv_Cons del: upt_Suc)
    ultimately show ?case using step by simp
  qed simp
  from this [of rows 0 "replicate (length rows) 0" s] assms show ?thesis
    by (simp add: register_events_def)
qed

end
