(* ===== verification/Battery.thy ===== *)
theory Battery
  imports Prelude "HOL-Library.Word"
begin

unbundle bit_operations_syntax

text \<open>
  The batteries of xcpmd (\<open>battery.c\<close>): their state as read from the sysfs, charge levels,
  rates and times. \<open>unsigned long\<close> is a 64-bit word, \<open>unsigned int\<close> a 32-bit word, and
  the conversions between them truncate. The sysfs is a parameter: which directories exist
  and what their files contain.
\<close>

subsection \<open>Arrays\<close>

text \<open>
  \<open>last_info\<close> and \<open>last_status\<close> are pointers to heap arrays, which may be null, live or
  freed.
\<close>

datatype 'a buf = Buf_Null | Buf_Freed | Buf "'a list"

fun buf_get :: "'a buf \<Rightarrow> nat \<Rightarrow> 'a outcome" where
  "buf_get Buf_Null i = Crash Null_Deref"
| "buf_get Buf_Freed i = Crash Use_After_Free"
| "buf_get (Buf xs) i = (if i < length xs then Ok (xs ! i) else Crash Buffer_Overflow)"

fun buf_set :: "'a buf \<Rightarrow> nat \<Rightarrow> 'a \<Rightarrow> 'a buf outcome" where
  "buf_set Buf_Null i x = Crash Null_Deref"
| "buf_set Buf_Freed i x = Crash Use_After_Free"
| "buf_set (Buf xs) i x = (if i < length xs then Ok (Buf (xs[i := x])) else Crash Buffer_Overflow)"

subsection \<open>State\<close>

datatype battery_unit = mW | mA

datatype battery_level = NORMAL | WARNING | LOW | CRITICAL

datatype battery_state =
    BATT_STATE_UNKNOWN | BATT_CHARGING | BATT_DISCHARGING | BATT_EMPTY | BATT_FULL
  | BATT_PENDING_CHARGE | BATT_PENDING_DISCHARGE

datatype ac_adapter = ON_AC | ON_BATT | AC_UNKNOWN | NO_AC

type_synonym ulong = "64 word"

record battery_info =
  info_present :: bool
  charge_full_design :: ulong
  charge_full :: ulong
  energy_full_design :: ulong
  energy_full :: ulong
  power_unit :: battery_unit
  design_capacity :: ulong
  last_full_capacity :: ulong
  rechargeable :: bool \<comment> \<open>\<open>battery_technology\<close>\<close>
  design_voltage :: ulong
  design_capacity_warning :: ulong
  design_capacity_low :: ulong
  capacity_granularity_1 :: ulong
  capacity_granularity_2 :: ulong
  model_number :: string \<comment> \<open>the bytes before the first null, 32 when there is none\<close>
  serial_number :: string
  battery_type :: string
  oem_info :: string

record battery_status =
  present :: bool
  current_now :: ulong
  charge_now :: ulong
  power_now :: ulong
  energy_now :: ulong
  state :: ulong
  present_rate :: ulong
  remaining_capacity :: ulong
  present_voltage :: ulong

definition zero_info :: battery_info where
  "zero_info = \<lparr>info_present = False, charge_full_design = 0, charge_full = 0, energy_full_design = 0, energy_full = 0,
     power_unit = mW, design_capacity = 0, last_full_capacity = 0, rechargeable = False, design_voltage = 0,
     design_capacity_warning = 0, design_capacity_low = 0, capacity_granularity_1 = 0, capacity_granularity_2 = 0,
     model_number = [], serial_number = [], battery_type = [], oem_info = []\<rparr>"

definition zero_status :: battery_status where
  "zero_status = \<lparr>present = False, current_now = 0, charge_now = 0, power_now = 0, energy_now = 0, state = 0,
     present_rate = 0, remaining_capacity = 0, present_voltage = 0\<rparr>"

text \<open>
  \<open>bat_files i\<close> are the readable regular files of \<open>BAT<i>\<close> in the order of
  \<open>readdir\<close>, with the line \<open>fgets\<close> reads of each, \<open>None\<close> when the directory is
  missing; \<open>reopen_error i\<close> is the failure of a second \<open>opendir\<close>, with whether it is
  \<open>ENOENT\<close>; \<open>supplies\<close> are the entries of the power supply directory;
  \<open>present_line\<close> is what \<open>fgets\<close> reads of an entry's \<open>present\<close> file; \<open>ac_online\<close> is
  the adapter's file, \<open>Inl\<close> the failure of \<open>fopen\<close> and whether it is \<open>ENOENT\<close>.
\<close>

record sysfs =
  bat_files :: "nat \<Rightarrow> (string \<times> string) list option"
  reopen_error :: "nat \<Rightarrow> bool option"
  supplies :: "string list option"
  present_line :: "string \<Rightarrow> string option"
  ac_online :: "bool + string"

record batteries =
  last_info :: "battery_info buf"
  last_status :: "battery_status buf"
  num_battery_structs_allocd :: nat

definition initial_batteries :: batteries where
  "initial_batteries = \<lparr>last_info = Buf_Null, last_status = Buf_Null, num_battery_structs_allocd = 0\<rparr>"

subsection \<open>Strings\<close>

fun strstr :: "string \<Rightarrow> string \<Rightarrow> bool" where
  \<comment> \<open>whether the second string occurs in the first\<close>
  "strstr [] p \<longleftrightarrow> p = []"
| "strstr (c # s) p \<longleftrightarrow> take (length p) (c # s) = p \<or> strstr s p"

definition is_space :: "char \<Rightarrow> bool" where
  "is_space c \<longleftrightarrow> c = CHR '' '' \<or> of_char c \<in> {9..13::nat}"

definition strtoull :: "string \<Rightarrow> ulong" where
  "strtoull v =
     (let t = dropWhile is_space v;
          neg = (t \<noteq> [] \<and> hd t = CHR ''-'');
          r = (if t \<noteq> [] \<and> (hd t = CHR ''-'' \<or> hd t = CHR ''+'') then tl t else t);
          n = read_nat (takeWhile is_digit r)
      in if n \<ge> 2 ^ 64 then - 1 else if neg then - of_nat n else of_nat n)"

definition get_terminal_number :: "string \<Rightarrow> int" where
  \<comment> \<open>\<open>sscanf\<close> with \<open>%d\<close> stores the low 32 bits of the clamped value\<close>
  "get_terminal_number str =
     (let ds = rev (takeWhile is_digit (rev str))
      in if ds = [] then - 1 else to_int32 (clamp_long (int (read_nat ds))))"

subsection \<open>Attributes\<close>

definition set_battery_status_attribute :: "string \<Rightarrow> string \<Rightarrow> battery_status \<Rightarrow> battery_status" where
  "set_battery_status_attribute name v st =
     (if name = ''status'' then
        (if strstr v ''Discharging'' then st\<lparr>state := state st OR 1\<rparr>
         else if strstr v ''Charging'' then st\<lparr>state := state st OR 2\<rparr> else st)
      else if name = ''capacity_level'' then
        (if strstr v ''critical'' then st\<lparr>state := state st OR 4\<rparr> else st)
      else if name = ''current_now'' then st\<lparr>current_now := strtoull v div 1000\<rparr>
      else if name = ''charge_now'' then st\<lparr>charge_now := strtoull v div 1000\<rparr>
      else if name = ''power_now'' then st\<lparr>power_now := strtoull v div 1000\<rparr>
      else if name = ''energy_now'' then st\<lparr>energy_now := strtoull v div 1000\<rparr>
      else if name = ''voltage_now'' then st\<lparr>present_voltage := strtoull v div 1000\<rparr>
      else if name = ''present'' then (if strstr v ''1'' then st\<lparr>present := True\<rparr> else st)
      else st)"

definition set_battery_info_attribute :: "string \<Rightarrow> string \<Rightarrow> battery_info \<Rightarrow> battery_info" where
  "set_battery_info_attribute name v info =
     (if name = ''present'' then (if strstr v ''1'' then info\<lparr>info_present := True\<rparr> else info)
      else if name = ''charge_full_design'' then info\<lparr>charge_full_design := strtoull v div 1000\<rparr>
      else if name = ''charge_full'' then info\<lparr>charge_full := strtoull v div 1000\<rparr>
      else if name = ''energy_full_design'' then info\<lparr>energy_full_design := strtoull v div 1000\<rparr>
      else if name = ''energy_full'' then info\<lparr>energy_full := strtoull v div 1000\<rparr>
      else if name = ''voltage_min_design'' then info\<lparr>design_voltage := strtoull v div 1000\<rparr>
      else if name = ''model_name'' then info\<lparr>model_number := take 32 v\<rparr>
      else if name = ''serial_number'' then info\<lparr>serial_number := take 32 v\<rparr>
      else if name = ''technology'' then
        info\<lparr>battery_type :=
            (if strstr v ''Li-ion'' then ''LION'' @ [CHR 0x0A]
             else if strstr v ''Li-poly'' then ''LiP'' @ [CHR 0x0A] else take 32 v),
          rechargeable := True\<rparr>
      else if name = ''manufacturer'' then info\<lparr>oem_info := take 32 v\<rparr>
      else info)"

definition trim :: "string \<Rightarrow> string" where
  "trim v = dropWhile (\<lambda>c. c = CHR '' '') v"

definition battery_slot_exists :: "sysfs \<Rightarrow> nat \<Rightarrow> bool" where
  "battery_slot_exists sys i \<longleftrightarrow> bat_files sys i \<noteq> None"

definition read_status :: "(string \<times> string) list \<Rightarrow> battery_status" where
  \<comment> \<open>the loop over the files and the choice between charge and energy\<close>
  "read_status files =
     (let st = fold (\<lambda>(name, v). set_battery_status_attribute name (trim v)) files zero_status
      in if charge_now st \<noteq> 0 \<or> current_now st \<noteq> 0
         then st\<lparr>present_rate := current_now st, remaining_capacity := charge_now st\<rparr>
         else st\<lparr>present_rate := power_now st, remaining_capacity := energy_now st\<rparr>)"

definition update_battery_status :: "sysfs \<Rightarrow> nat \<Rightarrow> batteries \<Rightarrow> (int \<times> batteries) outcome" where
  "update_battery_status sys i b =
     (if i \<ge> num_battery_structs_allocd b then Ok (- 1, b)
      else
        (case bat_files sys i of
           None \<Rightarrow> omap (\<lambda>a. (1, b\<lparr>last_status := a\<rparr>)) (buf_set (last_status b) i zero_status)
         | Some files \<Rightarrow>
             (case reopen_error sys i of
                Some enoent \<Rightarrow>
                  if enoent then omap (\<lambda>a. (1, b\<lparr>last_status := a\<rparr>)) (buf_set (last_status b) i zero_status)
                  else Ok (0, b)
              | None \<Rightarrow>
                  omap (\<lambda>a. (1, b\<lparr>last_status := a\<rparr>)) (buf_set (last_status b) i (read_status files)))))"

abbreviation (input) BATTERY_WARNING_PERCENT :: nat where "BATTERY_WARNING_PERCENT \<equiv> 8"
abbreviation (input) BATTERY_LOW_PERCENT :: nat where "BATTERY_LOW_PERCENT \<equiv> 4"
abbreviation (input) BATTERY_CRITICAL_PERCENT :: nat where "BATTERY_CRITICAL_PERCENT \<equiv> 2"

definition read_info :: "(string \<times> string) list \<Rightarrow> battery_info" where
  \<comment> \<open>\<open>BATTERY_WARNING_PERCENT / 100\<close> is an integer division\<close>
  "read_info files =
     (let info = fold (\<lambda>(name, v). set_battery_info_attribute name (trim v)) files zero_info;
          info = (if charge_full_design info \<noteq> 0
            then info\<lparr>power_unit := mA, design_capacity := charge_full_design info, last_full_capacity := charge_full info\<rparr>
            else info\<lparr>power_unit := mW, design_capacity := energy_full_design info, last_full_capacity := energy_full info\<rparr>)
      in info\<lparr>design_capacity_warning := last_full_capacity info * of_nat (BATTERY_WARNING_PERCENT div 100),
              design_capacity_low := last_full_capacity info * of_nat (BATTERY_LOW_PERCENT div 100),
              capacity_granularity_1 := 1, capacity_granularity_2 := 1\<rparr>)"

definition update_battery_info :: "sysfs \<Rightarrow> nat \<Rightarrow> batteries \<Rightarrow> (int \<times> batteries) outcome" where
  "update_battery_info sys i b =
     (if i \<ge> num_battery_structs_allocd b then Ok (0, b)
      else
        (case bat_files sys i of
           None \<Rightarrow> omap (\<lambda>a. (0, b\<lparr>last_info := a\<rparr>)) (buf_set (last_info b) i zero_info)
         | Some files \<Rightarrow>
             (case reopen_error sys i of
                Some _ \<Rightarrow> Ok (0, b)
              | None \<Rightarrow> omap (\<lambda>a. (1, b\<lparr>last_info := a\<rparr>)) (buf_set (last_info b) i (read_info files)))))"

subsection \<open>Counting\<close>

definition is_battery_name :: "string \<Rightarrow> bool" where
  "is_battery_name n \<longleftrightarrow> take 3 n = ''BAT''"

definition get_num_batteries :: "sysfs \<Rightarrow> nat" where
  "get_num_batteries sys =
     (case supplies sys of None \<Rightarrow> 0 | Some ns \<Rightarrow> length (filter is_battery_name ns))"

definition get_max_battery_index :: "sysfs \<Rightarrow> int" where
  "get_max_battery_index sys =
     (case supplies sys of
        None \<Rightarrow> - 1
      | Some ns \<Rightarrow>
          fold (\<lambda>n m. if is_battery_name n \<and> get_terminal_number n > - 1 \<and> get_terminal_number n > m
              then get_terminal_number n else m) ns (- 1))"

definition get_num_batteries_present :: "sysfs \<Rightarrow> nat" where
  "get_num_batteries_present sys =
     (case supplies sys of
        None \<Rightarrow> 0
      | Some ns \<Rightarrow> length (filter (\<lambda>n. is_battery_name n \<and>
          (case present_line sys n of None \<Rightarrow> False | Some l \<Rightarrow> strstr l ''1'')) ns))"

subsection \<open>Charge\<close>

definition battery_is_present :: "sysfs \<Rightarrow> batteries \<Rightarrow> nat \<Rightarrow> bool outcome" where
  "battery_is_present sys b i =
     (if i \<ge> num_battery_structs_allocd b then Ok False
      else if battery_slot_exists sys i then omap present (buf_get (last_status b) i) else Ok False)"

definition full_capacity :: "battery_info \<Rightarrow> ulong" where
  "full_capacity info = (if last_full_capacity info \<noteq> 0 then last_full_capacity info else design_capacity info)"

definition capped :: "32 word \<Rightarrow> int" where
  "capped percentage = (if percentage > 100 then 100 else uint percentage)"

definition get_battery_percentage :: "sysfs \<Rightarrow> batteries \<Rightarrow> nat \<Rightarrow> int outcome" where
  "get_battery_percentage sys b i =
     (if i \<ge> num_battery_structs_allocd b then Ok 0
      else obind (battery_is_present sys b i) (\<lambda>there.
        if \<not> there then Ok 0
        else obind (buf_get (last_status b) i) (\<lambda>st.
          omap (\<lambda>info. capped (if full_capacity info = 0 then 0
              else ucast (remaining_capacity st * 100 div full_capacity info)))
            (buf_get (last_info b) i))))"

definition sum_present :: "(battery_status \<Rightarrow> battery_info \<Rightarrow> ulong) \<Rightarrow> batteries \<Rightarrow> ulong outcome" where
  \<comment> \<open>the loop of the two totals\<close>
  "sum_present f b =
     ofold (\<lambda>i total. obind (buf_get (last_status b) i) (\<lambda>st.
         if present st then omap (\<lambda>info. total + f st info) (buf_get (last_info b) i) else Ok total))
       [0..<num_battery_structs_allocd b] 0"

definition get_total_charge :: "batteries \<Rightarrow> ulong outcome" where
  \<comment> \<open>the loop does not touch \<open>last_info\<close>\<close>
  "get_total_charge b =
     ofold (\<lambda>i total. omap (\<lambda>st. if present st then total + remaining_capacity st else total) (buf_get (last_status b) i))
       [0..<num_battery_structs_allocd b] 0"

definition get_total_max_charge :: "batteries \<Rightarrow> ulong outcome" where
  "get_total_max_charge b = sum_present (\<lambda>_. full_capacity) b"

definition get_overall_battery_percentage :: "batteries \<Rightarrow> int outcome" where
  "get_overall_battery_percentage b =
     obind (get_total_charge b) (\<lambda>left.
       omap (\<lambda>total. if total = 0 then 0 else capped (ucast (100 * left div total)))
         (get_total_max_charge b))"

definition get_current_battery_level :: "batteries \<Rightarrow> battery_level outcome" where
  "get_current_battery_level b =
     omap (\<lambda>p. if p \<le> int BATTERY_CRITICAL_PERCENT then CRITICAL
         else if p \<le> int BATTERY_LOW_PERCENT then LOW
         else if p \<le> int BATTERY_WARNING_PERCENT then WARNING else NORMAL)
       (get_overall_battery_percentage b)"

definition moving :: "battery_status \<Rightarrow> bool" where
  "moving st \<longleftrightarrow> state st AND 1 \<noteq> 0 \<or> state st AND 2 \<noteq> 0"

fun first_moving :: "batteries \<Rightarrow> nat \<Rightarrow> nat list \<Rightarrow> battery_status option outcome" where
  \<comment> \<open>the loop that looks for another battery that charges or discharges\<close>
  "first_moving b i [] = Ok None"
| "first_moving b i (j # js) =
     obind (if j \<noteq> i then omap (\<lambda>st. if present st \<and> moving st then Some st else None) (buf_get (last_status b) j)
            else Ok None) (\<lambda>r.
       case r of Some st \<Rightarrow> Ok (Some st) | None \<Rightarrow> first_moving b i js)"

definition get_battery_charge_state :: "sysfs \<Rightarrow> batteries \<Rightarrow> nat \<Rightarrow> battery_state outcome" where
  "get_battery_charge_state sys b i =
     obind (buf_get (last_status b) i) (\<lambda>st.
       if state st AND 1 \<noteq> 0 then Ok BATT_DISCHARGING
       else if state st AND 2 \<noteq> 0 then
         omap (\<lambda>info. if charge_now st = design_capacity info then BATT_FULL else BATT_CHARGING) (buf_get (last_info b) i)
       else
         obind (get_battery_percentage sys b i) (\<lambda>percent.
           if percent > 90 then Ok BATT_FULL
           else if percent < 10 then Ok BATT_EMPTY
           else omap (\<lambda>r. case r of
                 Some other \<Rightarrow> if state other AND 2 \<noteq> 0 then BATT_PENDING_CHARGE
                   else if state other AND 1 \<noteq> 0 then BATT_PENDING_DISCHARGE else BATT_STATE_UNKNOWN
               | None \<Rightarrow> BATT_STATE_UNKNOWN)
             (first_moving b i [0..<num_battery_structs_allocd b])))"

definition labs :: "ulong \<Rightarrow> ulong" where
  \<comment> \<open>the argument read as a \<open>long\<close>\<close>
  "labs r = (if sint r < 0 then - r else r)"

definition get_total_charge_rate :: "sysfs \<Rightarrow> batteries \<Rightarrow> ulong outcome" where
  \<comment> \<open>a \<open>long\<close>, in two's complement\<close>
  "get_total_charge_rate sys b =
     ofold (\<lambda>i total. obind (buf_get (last_status b) i) (\<lambda>st.
         if present st
         then omap (\<lambda>cs. if cs = BATT_CHARGING then total + labs (present_rate st)
                 else if cs = BATT_DISCHARGING then total - labs (present_rate st) else total)
               (get_battery_charge_state sys b i)
         else Ok total))
       [0..<num_battery_structs_allocd b] 0"

definition get_ac_adapter_status :: "sysfs \<Rightarrow> ac_adapter" where
  "get_ac_adapter_status sys =
     (case ac_online sys of
        Inl enoent \<Rightarrow> if enoent then NO_AC else AC_UNKNOWN
      | Inr line \<Rightarrow> if strstr line ''0'' then ON_BATT else ON_AC)"

definition get_system_charge_state :: "sysfs \<Rightarrow> batteries \<Rightarrow> battery_state outcome" where
  "get_system_charge_state sys b =
     obind (get_overall_battery_percentage b) (\<lambda>percentage.
       omap (\<lambda>rate.
           if get_ac_adapter_status sys = ON_AC
           then (if percentage > 90 \<or> rate = 0 then BATT_FULL else BATT_CHARGING)
           else (if percentage < 10 then BATT_EMPTY else BATT_DISCHARGING))
         (get_total_charge_rate sys b))"

definition as_int :: "ulong \<Rightarrow> int" where
  \<comment> \<open>conversion to \<open>int\<close>\<close>
  "as_int w = sint (ucast w :: 32 word)"

definition time_to_full :: "sysfs \<Rightarrow> batteries \<Rightarrow> int outcome" where
  "time_to_full sys b =
     obind (get_total_charge_rate sys b) (\<lambda>rate.
       if sint rate \<le> 0 then Ok 0
       else obind (get_total_max_charge b) (\<lambda>max_charge.
         omap (\<lambda>current. let charge_time = as_int ((max_charge - current) * 3600 div rate)
               in if charge_time < 0 then 0 else charge_time)
           (get_total_charge b)))"

definition time_to_empty :: "sysfs \<Rightarrow> batteries \<Rightarrow> int outcome" where
  \<comment> \<open>the value returned as \<open>unsigned int\<close>\<close>
  "time_to_empty sys b =
     obind (get_total_charge_rate sys b) (\<lambda>rate.
       if sint (- rate) \<le> 0 then Ok 0
       else omap (\<lambda>current. as_int (current * 3600 div (- rate)) mod 2 ^ 32) (get_total_charge b))"

subsection \<open>Live arrays\<close>

definition bats :: "battery_status list \<Rightarrow> battery_info list \<Rightarrow> batteries" where
  \<comment> \<open>the state in which both arrays are live and have the recorded size\<close>
  "bats ss is = \<lparr>last_info = Buf is, last_status = Buf ss, num_battery_structs_allocd = length ss\<rparr>"

lemma bats_simps [simp]:
  "last_info (bats ss is) = Buf is" "last_status (bats ss is) = Buf ss"
  "num_battery_structs_allocd (bats ss is) = length ss"
  by (simp_all add: bats_def)

lemma ofold_upt:
  assumes "\<And>i t. i < n \<Longrightarrow> f i t = Ok (g (xs ! i) t)" and "n \<le> length xs"
  shows "ofold f [0..<n] t = Ok (fold g (take n xs) t)"
  using assms
proof (induction n)
  case (Suc n)
  then show ?case by (simp add: ofold_append take_Suc_conv_app_nth)
qed simp

definition total_charge :: "battery_status list \<Rightarrow> nat" where
  "total_charge ss = sum_list (map (\<lambda>st. if present st then unat (remaining_capacity st) else 0) ss)"

definition total_max :: "battery_status list \<Rightarrow> battery_info list \<Rightarrow> nat" where
  "total_max ss is = sum_list (map (\<lambda>(st, info). if present st then unat (full_capacity info) else 0) (zip ss is))"

lemma unat_sum_of_nat: "(of_nat (unat (w :: ulong) + n) :: ulong) = w + of_nat n"
  by simp

lemma get_total_charge_run: "get_total_charge (bats ss is) = Ok (of_nat (total_charge ss))"
proof -
  let ?g = "\<lambda>st t. if present st then t + remaining_capacity st else t"
  have "fold ?g ss t = t + of_nat (total_charge ss)" for t
    by (induction ss arbitrary: t) (simp_all add: total_charge_def)
  then show ?thesis
    using ofold_upt [of "length ss" _ ?g ss 0] by (simp add: get_total_charge_def)
qed

lemma get_total_max_charge_run:
  assumes "length is = length ss"
  shows "get_total_max_charge (bats ss is) = Ok (of_nat (total_max ss is))"
proof -
  let ?g = "\<lambda>(st, info) t. if present st then t + full_capacity info else t"
  have run: "fold ?g ps t = t + of_nat (sum_list (map (\<lambda>(st, info). if present st then unat (full_capacity info) else 0) ps))" for ps t
    by (induction ps arbitrary: t) (auto split: if_splits)
  show ?thesis
    using ofold_upt [of "length ss" _ ?g "zip ss is" 0] assms run [of "zip ss is" 0]
    by (simp add: get_total_max_charge_def sum_present_def total_max_def)
qed

lemma capped_range: "0 \<le> capped p \<and> capped p \<le> 100"
  by (auto simp: capped_def word_le_def word_less_def)

lemma capped_of_nat: "n < 2 ^ 32 \<Longrightarrow> capped (of_nat n) = int (min 100 n)"
  by (auto simp: capped_def word_less_nat_alt unat_of_nat uint_nat take_bit_eq_mod min_def)

lemma ucast_of_nat_down: "(ucast (of_nat n :: ulong) :: 32 word) = of_nat n"
  by (rule bit_word_eqI) (auto simp: bit_simps)

lemma unat_eq_ulong: "unat (a :: ulong) = unat b \<Longrightarrow> a = b"
  by (simp add: word_unat_eq_iff)

lemma unat_of_nat_ulong: "n < 2 ^ 64 \<Longrightarrow> unat (of_nat n :: ulong) = n"
  by (simp add: unat_of_nat take_bit_nat_eq_self)

lemma of_nat_div_ulong:
  assumes "a < 2 ^ 64" and "b < 2 ^ 64"
  shows "(of_nat a :: ulong) div of_nat b = of_nat (a div b)"
proof -
  have "a div b < 2 ^ 64" using assms(1) div_le_dividend [of a b] by linarith
  then show ?thesis
    using assms by (intro unat_eq_ulong) (simp add: unat_div_distrib unat_of_nat_ulong)
qed

text \<open>
  C23. The overall battery percentage is the exact one. As long as the charges do not overflow
  64 bits when multiplied by 100 (and the quotient fits 32), \<open>get_overall_battery_percentage\<close>
  returns the percentage of the total charge of the batteries that are present, rounded down
  and capped at 100, and 0 when there is no capacity; the warning level follows from it.
\<close>

theorem overall_percentage_exact:
  assumes "length is = length ss" and "100 * total_charge ss < 2 ^ 64" and "total_max ss is < 2 ^ 64"
    and "100 * total_charge ss div total_max ss is < 2 ^ 32"
  shows "get_overall_battery_percentage (bats ss is) =
      Ok (if total_max ss is = 0 then 0 else int (min 100 (100 * total_charge ss div total_max ss is)))"
proof -
  let ?c = "total_charge ss" and ?m = "total_max ss is"
  have zero: "((of_nat ?m :: ulong) = 0) = (?m = 0)"
    using assms(3) by (auto simp: word_of_nat_eq_0_iff dest: dvd_imp_le)
  have "(100 * of_nat ?c div of_nat ?m :: ulong) = of_nat (100 * ?c) div of_nat ?m" by simp
  also have "\<dots> = of_nat (100 * ?c div ?m)"
    using assms(2,3) by (rule of_nat_div_ulong)
  finally have "(ucast (100 * of_nat ?c div of_nat ?m :: ulong) :: 32 word) = of_nat (100 * ?c div ?m)"
    by (simp add: ucast_of_nat_down)
  then show ?thesis
    using assms capped_of_nat [of "100 * ?c div ?m"]
    by (simp add: get_overall_battery_percentage_def get_total_charge_run get_total_max_charge_run zero)
qed

theorem overall_percentage_exact_witness:
  "get_overall_battery_percentage
    (bats [zero_status\<lparr>present := True, remaining_capacity := 30\<rparr>, zero_status\<lparr>remaining_capacity := 99\<rparr>,
           zero_status\<lparr>present := True, remaining_capacity := 15\<rparr>]
          [zero_info\<lparr>last_full_capacity := 50\<rparr>, zero_info, zero_info\<lparr>design_capacity := 50\<rparr>]) = Ok 45"
  using overall_percentage_exact [of
      "[zero_info\<lparr>last_full_capacity := 50\<rparr>, zero_info, zero_info\<lparr>design_capacity := 50\<rparr>]"
      "[zero_status\<lparr>present := True, remaining_capacity := 30\<rparr>, zero_status\<lparr>remaining_capacity := 99\<rparr>,
        zero_status\<lparr>present := True, remaining_capacity := 15\<rparr>]"]
  by (simp add: total_charge_def total_max_def full_capacity_def zero_info_def zero_status_def)

lemma get_battery_percentage_returns:
  assumes "length is = length ss"
  shows "\<exists>p. get_battery_percentage sys (bats ss is) i = Ok p \<and> 0 \<le> p \<and> p \<le> 100"
  using assms capped_range
  by (auto simp: get_battery_percentage_def battery_is_present_def)

lemma first_moving_returns: "\<forall>j \<in> set js. j < length ss \<Longrightarrow> \<exists>r. first_moving (bats ss is) i js = Ok r"
  by (induction js) (auto split: option.splits)

lemma get_battery_charge_state_returns:
  assumes "length is = length ss" and "i < length ss"
  shows "\<exists>r. get_battery_charge_state sys (bats ss is) i = Ok r"
proof -
  obtain p where "get_battery_percentage sys (bats ss is) i = Ok p" using get_battery_percentage_returns [OF assms(1)] by blast
  moreover obtain r where "first_moving (bats ss is) i [0..<length ss] = Ok r"
    using first_moving_returns [of "[0..<length ss]" ss "is" i] by auto
  ultimately show ?thesis using assms by (simp add: get_battery_charge_state_def)
qed

lemma get_total_charge_rate_returns:
  assumes "length is = length ss"
  shows "\<exists>r. get_total_charge_rate sys (bats ss is) = Ok r"
proof -
  have "\<exists>t. ofold (\<lambda>i total. obind (buf_get (Buf ss) i) (\<lambda>st. if present st
      then omap (\<lambda>cs. if cs = BATT_CHARGING then total + labs (present_rate st)
              else if cs = BATT_DISCHARGING then total - labs (present_rate st) else total)
            (get_battery_charge_state sys (bats ss is) i)
      else Ok total)) [0..<length ss] 0 = Ok t \<and> True"
  proof (rule ofold_returns)
    fix i total
    assume "i \<in> set [0..<length ss]"
    then have i: "i < length ss" by simp
    then obtain r where "get_battery_charge_state sys (bats ss is) i = Ok r"
      using get_battery_charge_state_returns [OF assms] by blast
    with i show "\<exists>t. obind (buf_get (Buf ss) i) (\<lambda>st. if present st
      then omap (\<lambda>cs. if cs = BATT_CHARGING then total + labs (present_rate st)
              else if cs = BATT_DISCHARGING then total - labs (present_rate st) else total)
            (get_battery_charge_state sys (bats ss is) i)
      else Ok total) = Ok t \<and> True" by simp
  qed simp
  then show ?thesis by (simp add: get_total_charge_rate_def)
qed



lemma sint_of_nat_32: "n < 2 ^ 31 \<Longrightarrow> sint (of_nat n :: 32 word) = int n"
  by (simp add: signed_of_nat, rule signed_take_bit_int_eq_self) simp_all

lemma sint_of_nat_64: "n < 2 ^ 63 \<Longrightarrow> sint (of_nat n :: ulong) = int n"
  by (simp add: signed_of_nat, rule signed_take_bit_int_eq_self) simp_all

lemma as_int_of_nat: "n < 2 ^ 31 \<Longrightarrow> as_int (of_nat n) = int n"
  by (simp add: as_int_def ucast_of_nat_down sint_of_nat_32)

text \<open>
  C32. The time to full is the exact quotient, in seconds, when the system charges, holds at most
  its full capacity and the numbers fit: the missing charge times 3600 over the charge rate.
\<close>

theorem time_to_full_exact:
  assumes "length is = length ss" and "get_total_charge_rate sys (bats ss is) = Ok (of_nat r)" and "0 < r" and "r < 2 ^ 63"
    and "total_charge ss \<le> total_max ss is" and "(total_max ss is - total_charge ss) * 3600 < 2 ^ 64"
    and "(total_max ss is - total_charge ss) * 3600 div r < 2 ^ 31"
  shows "time_to_full sys (bats ss is) = Ok (int ((total_max ss is - total_charge ss) * 3600 div r))"
proof -
  let ?d = "total_max ss is - total_charge ss"
  have "(of_nat (total_max ss is) - of_nat (total_charge ss) :: ulong) = of_nat ?d"
    using assms(5) by (simp add: of_nat_diff)
  moreover have "(of_nat ?d * 3600 :: ulong) div of_nat r = of_nat (?d * 3600 div r)"
    using of_nat_div_ulong [OF assms(6), of r] assms(4) by simp
  moreover have "\<not> sint (of_nat r :: ulong) \<le> 0"
    using assms(3,4) by (simp add: sint_of_nat_64)
  ultimately show ?thesis
    using assms(1,2,7) as_int_of_nat [of "?d * 3600 div r"]
    by (simp add: time_to_full_def get_total_charge_run get_total_max_charge_run Let_def del: left_diff_distrib_numeral)
qed

lemma single_charging_rate:
  assumes "present st" and "state st = 2" and "charge_now st \<noteq> design_capacity info" and "0 \<le> sint (present_rate st)"
  shows "get_total_charge_rate sys (bats [st] [info]) = Ok (present_rate st)"
  using assms by (simp add: get_total_charge_rate_def get_battery_charge_state_def labs_def)

theorem time_to_full_exact_witness:
  "time_to_full \<lparr>bat_files = (\<lambda>_. Some []), reopen_error = (\<lambda>_. None), supplies = None, present_line = (\<lambda>_. None), ac_online = Inl True\<rparr>
    (bats [zero_status\<lparr>present := True, state := 2, remaining_capacity := 40, present_rate := 30\<rparr>]
       [zero_info\<lparr>design_capacity := 100\<rparr>]) = Ok 7200"
proof -
  let ?st = "zero_status\<lparr>present := True, state := 2, remaining_capacity := 40, present_rate := 30\<rparr>"
  let ?info = "zero_info\<lparr>design_capacity := 100\<rparr>"
  have tot: "total_charge [?st] = 40" "total_max [?st] [?info] = 100"
    by (simp_all add: total_charge_def total_max_def full_capacity_def zero_info_def zero_status_def)
  have "get_total_charge_rate sys (bats [?st] [?info]) = Ok (of_nat 30)" for sys
    by (subst single_charging_rate) (simp_all add: zero_info_def zero_status_def)
  from time_to_full_exact [OF _ this] tot show ?thesis by simp
qed


end
