(* ===== verification/Acpi_Module.thy ===== *)
theory Acpi_Module
  imports Condition_Modules Battery
begin

text \<open>
  The ACPI module of the policy engine (\<open>acpi-module.c\<close>): its nine events, its eighteen
  condition types, its constructor and its checkers. The checkers of the battery conditions
  read the battery arrays \<open>b\<close> and the sysfs \<open>sys\<close>.
\<close>

subsection \<open>Values of the events\<close>

datatype lid_state = LID_OPEN | LID_CLOSED | LID_UNKNOWN | NO_LID
datatype tablet_state = NORMAL_MODE | TABLET_MODE
datatype bcl_cmd = BCL_NONE | BCL_UP | BCL_DOWN | BCL_CYCLE

fun lid_code :: "lid_state \<Rightarrow> int" where
  "lid_code LID_OPEN = 0"
| "lid_code LID_CLOSED = 1"
| "lid_code LID_UNKNOWN = 2"
| "lid_code NO_LID = 3"

fun tablet_code :: "tablet_state \<Rightarrow> int" where
  "tablet_code NORMAL_MODE = 0"
| "tablet_code TABLET_MODE = 1"

fun bcl_code :: "bcl_cmd \<Rightarrow> int" where
  "bcl_code BCL_NONE = 0"
| "bcl_code BCL_UP = 1"
| "bcl_code BCL_DOWN = 2"
| "bcl_code BCL_CYCLE = 3"

fun ac_code :: "ac_adapter \<Rightarrow> int" where
  "ac_code ON_AC = 0"
| "ac_code ON_BATT = 1"
| "ac_code AC_UNKNOWN = 2"
| "ac_code NO_AC = 3"

abbreviation (input) EVENT_PWR_BTN :: nat where "EVENT_PWR_BTN \<equiv> 0"
abbreviation (input) EVENT_SLP_BTN :: nat where "EVENT_SLP_BTN \<equiv> 1"
abbreviation (input) EVENT_SUSP_BTN :: nat where "EVENT_SUSP_BTN \<equiv> 2"
abbreviation (input) EVENT_BCL :: nat where "EVENT_BCL \<equiv> 3"
abbreviation (input) EVENT_LID :: nat where "EVENT_LID \<equiv> 4"
abbreviation (input) EVENT_ON_AC :: nat where "EVENT_ON_AC \<equiv> 5"
abbreviation (input) EVENT_TABLET_MODE :: nat where "EVENT_TABLET_MODE \<equiv> 6"
abbreviation (input) EVENT_BATT_STATUS :: nat where "EVENT_BATT_STATUS \<equiv> 7"
abbreviation (input) EVENT_BATT_INFO :: nat where "EVENT_BATT_INFO \<equiv> 8"

subsection \<open>Tables\<close>

definition acpi_event_data :: "event_data_row list" where
  "acpi_event_data =
    [event_row ''event_pwr_btn'' True ARG_BOOL (Arg_Bool False) EVENT_PWR_BTN,
     event_row ''event_slp_btn'' True ARG_BOOL (Arg_Bool False) EVENT_SLP_BTN,
     event_row ''event_susp_btn'' True ARG_BOOL (Arg_Bool False) EVENT_SUSP_BTN,
     event_row ''event_bcl'' True ARG_INT (Arg_Int 0) EVENT_BCL,
     event_row ''event_lid'' False ARG_INT (Arg_Int (lid_code LID_OPEN)) EVENT_LID,
     event_row ''event_on_ac'' False ARG_INT (Arg_Int (ac_code ON_AC)) EVENT_ON_AC,
     event_row ''event_tablet_mode'' False ARG_INT (Arg_Int (tablet_code NORMAL_MODE)) EVENT_TABLET_MODE,
     event_row ''event_batt_status'' True ARG_INT (Arg_Int 0) EVENT_BATT_STATUS,
     event_row ''event_batt_info'' True ARG_INT (Arg_Int 0) EVENT_BATT_INFO]"

definition acpi_condition_data :: "cond_table_row list" where
  "acpi_condition_data =
    [cond_row ''onBacklightUpBtn'' ''bcl_up_pressed'' ''n'' ''void'' EVENT_BCL,
     cond_row ''onBacklightDownBtn'' ''bcl_down_pressed'' ''n'' ''void'' EVENT_BCL,
     cond_row ''onPowerBtn'' ''pbtn_pressed'' ''n'' ''void'' EVENT_PWR_BTN,
     cond_row ''onSleepBtn'' ''sbtn_pressed'' ''n'' ''void'' EVENT_SLP_BTN,
     cond_row ''onSuspendBtn'' ''susp_pressed'' ''n'' ''void'' EVENT_SUSP_BTN,
     cond_row ''whileLidClosed'' ''lid_closed'' ''n'' ''void'' EVENT_LID,
     cond_row ''whileLidOpen'' ''lid_open'' ''n'' ''void'' EVENT_LID,
     cond_row ''whileUsingAc'' ''on_ac'' ''n'' ''void'' EVENT_ON_AC,
     cond_row ''whileUsingBatt'' ''on_battery'' ''n'' ''void'' EVENT_ON_AC,
     cond_row ''whileInTabletMode'' ''tablet_mode'' ''n'' ''void'' EVENT_TABLET_MODE,
     cond_row ''whileNotInTabletMode'' ''non_tablet_mode'' ''n'' ''void'' EVENT_TABLET_MODE,
     cond_row ''whileBattGreaterThan'' ''battery_greater_than'' ''i, i'' ''int battNum, int percentage'' EVENT_BATT_STATUS,
     cond_row ''whileBattLessThan'' ''battery_less_than'' ''i, i'' ''int battNum, int percentage'' EVENT_BATT_STATUS,
     cond_row ''whileBattEqualTo'' ''battery_equal_to'' ''i, i'' ''int battNum, int percentage'' EVENT_BATT_STATUS,
     cond_row ''whileBattPresent'' ''battery_present'' ''i'' ''int battNum'' EVENT_BATT_INFO,
     cond_row ''whileOverallBattGreaterThan'' ''overall_battery_greater_than'' ''i'' ''int percentage'' EVENT_BATT_STATUS,
     cond_row ''whileOverallBattLessThan'' ''overall_battery_less_than'' ''i'' ''int percentage'' EVENT_BATT_STATUS,
     cond_row ''whileOverallBattEqualTo'' ''overall_battery_equal_to'' ''i'' ''int percentage'' EVENT_BATT_STATUS]"

definition acpi_init_module :: "'d xstate \<Rightarrow> nat list \<times> 'd xstate" where
  "acpi_init_module = init_module acpi_event_data acpi_condition_data"

subsection \<open>Checkers\<close>

type_synonym 'd condition_checker = "ev_wrapper \<Rightarrow> arg list \<Rightarrow> 'd xstate \<Rightarrow> (bool \<times> 'd xstate) outcome"

definition check_i :: "(int \<Rightarrow> bool) \<Rightarrow> 'd condition_checker" where
  \<comment> \<open>a test of \<open>event->value.i\<close>\<close>
  "check_i p e args s = omap (\<lambda>i. (p i, s)) (value_i (ev_value e))"

definition check_b :: "'d condition_checker" where
  "check_b e args s = omap (\<lambda>b. (b, s)) (value_b (ev_value e))"

definition bcl_up_pressed :: "'d condition_checker" where "bcl_up_pressed = check_i (\<lambda>i. i = bcl_code BCL_UP)"
definition bcl_down_pressed :: "'d condition_checker" where "bcl_down_pressed = check_i (\<lambda>i. i = bcl_code BCL_DOWN)"
definition pbtn_pressed :: "'d condition_checker" where "pbtn_pressed = check_b"
definition sbtn_pressed :: "'d condition_checker" where "sbtn_pressed = check_b"
definition susp_pressed :: "'d condition_checker" where "susp_pressed = check_b"
definition on_ac :: "'d condition_checker" where "on_ac = check_i (\<lambda>i. i = ac_code ON_AC)"
definition on_battery :: "'d condition_checker" where "on_battery = check_i (\<lambda>i. i = ac_code ON_BATT)"
definition lid_open :: "'d condition_checker" where "lid_open = check_i (\<lambda>i. i = lid_code LID_OPEN)"
definition lid_closed :: "'d condition_checker" where "lid_closed = check_i (\<lambda>i. i = lid_code LID_CLOSED)"
definition tablet_mode :: "'d condition_checker" where "tablet_mode = check_i (\<lambda>i. i = tablet_code TABLET_MODE)"
definition non_tablet_mode :: "'d condition_checker" where "non_tablet_mode = check_i (\<lambda>i. i = tablet_code NORMAL_MODE)"

definition as_index :: "int \<Rightarrow> nat" where
  \<comment> \<open>an \<open>int\<close> passed as \<open>unsigned int\<close>\<close>
  "as_index i = nat (i mod 2 ^ 32)"

definition battery_present ::
  "'d env \<Rightarrow> 'd xstate parser_ops \<Rightarrow> sysfs \<Rightarrow> batteries \<Rightarrow> 'd condition_checker" where
  "battery_present env ops sys b e args s =
     obind (read_arg env ops value_i args 0 s) (\<lambda>(i, s).
       omap (\<lambda>p. (p, s)) (battery_is_present sys b (as_index i)))"

definition battery_compare ::
  "(int \<Rightarrow> int \<Rightarrow> bool) \<Rightarrow> 'd env \<Rightarrow> 'd xstate parser_ops \<Rightarrow> sysfs \<Rightarrow> batteries \<Rightarrow> 'd condition_checker" where
  "battery_compare rel env ops sys b e args s =
     obind (read_arg env ops value_i args 0 s) (\<lambda>(percentage, s).
       obind (value_i (ev_value e)) (\<lambda>i.
         omap (\<lambda>p. (rel p percentage, s)) (get_battery_percentage sys b (as_index i))))"

definition battery_greater_than :: "'d env \<Rightarrow> 'd xstate parser_ops \<Rightarrow> sysfs \<Rightarrow> batteries \<Rightarrow> 'd condition_checker" where
  "battery_greater_than = battery_compare (>)"
definition battery_less_than :: "'d env \<Rightarrow> 'd xstate parser_ops \<Rightarrow> sysfs \<Rightarrow> batteries \<Rightarrow> 'd condition_checker" where
  "battery_less_than = battery_compare (<)"
definition battery_equal_to :: "'d env \<Rightarrow> 'd xstate parser_ops \<Rightarrow> sysfs \<Rightarrow> batteries \<Rightarrow> 'd condition_checker" where
  "battery_equal_to = battery_compare (=)"

definition overall_compare ::
  "(int \<Rightarrow> int \<Rightarrow> bool) \<Rightarrow> 'd env \<Rightarrow> 'd xstate parser_ops \<Rightarrow> batteries \<Rightarrow> 'd condition_checker" where
  "overall_compare rel env ops b e args s =
     obind (read_arg env ops value_i args 0 s) (\<lambda>(percentage, s).
       omap (\<lambda>p. (rel p percentage, s)) (get_overall_battery_percentage b))"

definition overall_battery_greater_than :: "'d env \<Rightarrow> 'd xstate parser_ops \<Rightarrow> batteries \<Rightarrow> 'd condition_checker" where
  "overall_battery_greater_than = overall_compare (>)"
definition overall_battery_less_than :: "'d env \<Rightarrow> 'd xstate parser_ops \<Rightarrow> batteries \<Rightarrow> 'd condition_checker" where
  "overall_battery_less_than = overall_compare (<)"
definition overall_battery_equal_to :: "'d env \<Rightarrow> 'd xstate parser_ops \<Rightarrow> batteries \<Rightarrow> 'd condition_checker" where
  "overall_battery_equal_to = overall_compare (=)"

definition acpi_functions ::
  "'d env \<Rightarrow> 'd xstate parser_ops \<Rightarrow> sysfs \<Rightarrow> batteries \<Rightarrow> (string \<times> 'd condition_checker) list" where
  "acpi_functions env ops sys b =
    [(''bcl_up_pressed'', bcl_up_pressed), (''bcl_down_pressed'', bcl_down_pressed),
     (''pbtn_pressed'', pbtn_pressed), (''sbtn_pressed'', sbtn_pressed), (''susp_pressed'', susp_pressed),
     (''on_ac'', on_ac), (''on_battery'', on_battery), (''lid_open'', lid_open), (''lid_closed'', lid_closed),
     (''tablet_mode'', tablet_mode), (''non_tablet_mode'', non_tablet_mode),
     (''battery_present'', battery_present env ops sys b),
     (''battery_greater_than'', battery_greater_than env ops sys b),
     (''battery_less_than'', battery_less_than env ops sys b),
     (''battery_equal_to'', battery_equal_to env ops sys b),
     (''overall_battery_greater_than'', overall_battery_greater_than env ops b),
     (''overall_battery_less_than'', overall_battery_less_than env ops b),
     (''overall_battery_equal_to'', overall_battery_equal_to env ops b)]"

definition acpi_check ::
  "'d env \<Rightarrow> 'd xstate parser_ops \<Rightarrow> sysfs \<Rightarrow> batteries \<Rightarrow> string \<Rightarrow> 'd condition_checker" where
  \<comment> \<open>the call through the function pointer\<close>
  "acpi_check env ops sys b f =
     (case map_of (acpi_functions env ops sys b) f of Some g \<Rightarrow> g | None \<Rightarrow> (\<lambda>_ _ _. Crash Null_Deref))"


subsection \<open>What the conditions mean\<close>

definition one_int :: "(int \<Rightarrow> bool) \<Rightarrow> arg list \<Rightarrow> bool" where
  "one_int p args \<longleftrightarrow> (case args of [Arg_Int n] \<Rightarrow> p n | _ \<Rightarrow> False)"

definition overall :: "batteries \<Rightarrow> (int \<Rightarrow> bool) \<Rightarrow> bool" where
  "overall b p \<longleftrightarrow> (case get_overall_battery_percentage b of Ok n \<Rightarrow> p n | Crash _ \<Rightarrow> False)"

definition acpi_meanings :: "sysfs \<Rightarrow> batteries \<Rightarrow> (string \<times> (arg \<Rightarrow> arg list \<Rightarrow> bool)) list" where
  "acpi_meanings sys b =
    [(''bcl_up_pressed'', \<lambda>v args. v = Arg_Int (bcl_code BCL_UP)),
     (''bcl_down_pressed'', \<lambda>v args. v = Arg_Int (bcl_code BCL_DOWN)),
     (''pbtn_pressed'', \<lambda>v args. v = Arg_Bool True), (''sbtn_pressed'', \<lambda>v args. v = Arg_Bool True),
     (''susp_pressed'', \<lambda>v args. v = Arg_Bool True),
     (''on_ac'', \<lambda>v args. v = Arg_Int (ac_code ON_AC)), (''on_battery'', \<lambda>v args. v = Arg_Int (ac_code ON_BATT)),
     (''lid_open'', \<lambda>v args. v = Arg_Int (lid_code LID_OPEN)),
     (''lid_closed'', \<lambda>v args. v = Arg_Int (lid_code LID_CLOSED)),
     (''tablet_mode'', \<lambda>v args. v = Arg_Int (tablet_code TABLET_MODE)),
     (''non_tablet_mode'', \<lambda>v args. v = Arg_Int (tablet_code NORMAL_MODE)),
     (''battery_present'', \<lambda>v. one_int (\<lambda>n. battery_is_present sys b (as_index n) = Ok True)),
     (''overall_battery_greater_than'', \<lambda>v. one_int (\<lambda>n. overall b (\<lambda>p. p > n))),
     (''overall_battery_less_than'', \<lambda>v. one_int (\<lambda>n. overall b (\<lambda>p. p < n))),
     (''overall_battery_equal_to'', \<lambda>v. one_int (\<lambda>n. overall b (\<lambda>p. p = n)))]"

definition acpi_meaning :: "sysfs \<Rightarrow> batteries \<Rightarrow> string \<Rightarrow> arg \<Rightarrow> arg list \<Rightarrow> bool" where
  "acpi_meaning sys b f = (case map_of (acpi_meanings sys b) f of Some m \<Rightarrow> m | None \<Rightarrow> (\<lambda>_ _. False))"

lemma acpi_check_lookup:
  "acpi_check env ops sys b ''bcl_up_pressed'' = bcl_up_pressed"
  "acpi_check env ops sys b ''bcl_down_pressed'' = bcl_down_pressed"
  "acpi_check env ops sys b ''pbtn_pressed'' = pbtn_pressed"
  "acpi_check env ops sys b ''sbtn_pressed'' = sbtn_pressed"
  "acpi_check env ops sys b ''susp_pressed'' = susp_pressed"
  "acpi_check env ops sys b ''on_ac'' = on_ac"
  "acpi_check env ops sys b ''on_battery'' = on_battery"
  "acpi_check env ops sys b ''lid_open'' = lid_open"
  "acpi_check env ops sys b ''lid_closed'' = lid_closed"
  "acpi_check env ops sys b ''tablet_mode'' = tablet_mode"
  "acpi_check env ops sys b ''non_tablet_mode'' = non_tablet_mode"
  "acpi_check env ops sys b ''battery_present'' = battery_present env ops sys b"
  "acpi_check env ops sys b ''overall_battery_greater_than'' = overall_battery_greater_than env ops b"
  "acpi_check env ops sys b ''overall_battery_less_than'' = overall_battery_less_than env ops b"
  "acpi_check env ops sys b ''overall_battery_equal_to'' = overall_battery_equal_to env ops b"
  by (simp_all add: acpi_check_def acpi_functions_def)

lemma acpi_meaning_lookup:
  "acpi_meaning sys b ''bcl_up_pressed'' = (\<lambda>v args. v = Arg_Int (bcl_code BCL_UP))"
  "acpi_meaning sys b ''bcl_down_pressed'' = (\<lambda>v args. v = Arg_Int (bcl_code BCL_DOWN))"
  "acpi_meaning sys b ''pbtn_pressed'' = (\<lambda>v args. v = Arg_Bool True)"
  "acpi_meaning sys b ''sbtn_pressed'' = (\<lambda>v args. v = Arg_Bool True)"
  "acpi_meaning sys b ''susp_pressed'' = (\<lambda>v args. v = Arg_Bool True)"
  "acpi_meaning sys b ''on_ac'' = (\<lambda>v args. v = Arg_Int (ac_code ON_AC))"
  "acpi_meaning sys b ''on_battery'' = (\<lambda>v args. v = Arg_Int (ac_code ON_BATT))"
  "acpi_meaning sys b ''lid_open'' = (\<lambda>v args. v = Arg_Int (lid_code LID_OPEN))"
  "acpi_meaning sys b ''lid_closed'' = (\<lambda>v args. v = Arg_Int (lid_code LID_CLOSED))"
  "acpi_meaning sys b ''tablet_mode'' = (\<lambda>v args. v = Arg_Int (tablet_code TABLET_MODE))"
  "acpi_meaning sys b ''non_tablet_mode'' = (\<lambda>v args. v = Arg_Int (tablet_code NORMAL_MODE))"
  "acpi_meaning sys b ''battery_present'' = (\<lambda>v. one_int (\<lambda>n. battery_is_present sys b (as_index n) = Ok True))"
  "acpi_meaning sys b ''overall_battery_greater_than'' = (\<lambda>v. one_int (\<lambda>n. overall b (\<lambda>p. p > n)))"
  "acpi_meaning sys b ''overall_battery_less_than'' = (\<lambda>v. one_int (\<lambda>n. overall b (\<lambda>p. p < n)))"
  "acpi_meaning sys b ''overall_battery_equal_to'' = (\<lambda>v. one_int (\<lambda>n. overall b (\<lambda>p. p = n)))"
  by (simp_all add: acpi_meaning_def acpi_meanings_def)

definition live_bats :: "(battery_status \<times> battery_info) list \<Rightarrow> batteries" where
  \<comment> \<open>both arrays live and of the recorded size\<close>
  "live_bats ps = bats (map fst ps) (map snd ps)"

lemma live_overall: "\<exists>p. get_overall_battery_percentage (live_bats ps) = Ok p"
  by (simp add: live_bats_def get_overall_battery_percentage_def get_total_charge_run get_total_max_charge_run)

lemma live_present: "\<exists>p. battery_is_present sys (live_bats ps) i = Ok p"
  unfolding returns_iff [symmetric] by (simp add: live_bats_def battery_is_present_def)

lemma signature_no_comma: "CHR '','' \<notin> set (signature ts)"
proof -
  have "arg_type_code t \<noteq> CHR '',''" for t by (cases t) simp_all
  then show ?thesis by (induction ts rule: signature.induct) (auto simp: eq_commute [of "CHR '',''"])
qed

lemma acpi_rows: "row \<in> set acpi_condition_data \<Longrightarrow> cr_event row < length acpi_event_data"
  by (auto simp: acpi_condition_data_def acpi_event_data_def cond_row_def)

lemma int_valued: "arg_type_of v = ARG_INT \<longleftrightarrow> (\<exists>i. v = Arg_Int i)"
  by (cases v) simp_all

lemma bool_valued: "arg_type_of v = ARG_BOOL \<longleftrightarrow> (\<exists>b. v = Arg_Bool b)"
  by (cases v) simp_all

lemma one_int_arg:
  assumes "signature (map (arg_kind s) args) = ''i''" and "all_cached (arg_vars args) s"
  obtains n a where "args = [a]" "arg_value s a = Arg_Int n" "read_arg env ops value_i args 0 s = Ok (n, s)"
proof -
  obtain a where a: "args = [a]" "arg_type_of (arg_value s a) = ARG_INT"
      "read_arg env ops value_i args 0 s = omap (\<lambda>v. (v, s)) (value_i (arg_value s a))"
    using read_arg_typed [of s args ARG_INT env ops value_i] assms by auto
  then show thesis using that by (auto simp: int_valued value_i_def)
qed

lemma acpi_check_int:
  assumes "f \<in> {''battery_present'', ''overall_battery_greater_than'', ''overall_battery_less_than'', ''overall_battery_equal_to''}"
    and "signature (map (arg_kind s) args) = ''i''" and "all_cached (arg_vars args) s"
  shows "acpi_check env ops sys (live_bats ps) f e args s =
    Ok (acpi_meaning sys (live_bats ps) f v (map (arg_value s) args), s)"
proof -
  obtain n a where a: "args = [a]" "arg_value s a = Arg_Int n" "read_arg env ops value_i [a] 0 s = Ok (n, s)"
    using one_int_arg [OF assms(2,3), of env ops] by metis
  obtain p where p: "get_overall_battery_percentage (live_bats ps) = Ok p" using live_overall by blast
  obtain q where q: "battery_is_present sys (live_bats ps) (as_index n) = Ok q" using live_present by blast
  have "one_int P (map (arg_value s) args) = P n" for P using a(1,2) by (simp add: one_int_def)
  with assms(1) a(1,3) p q show ?thesis
    unfolding insert_iff empty_iff
    by (elim disjE) (simp_all only: acpi_check_lookup acpi_meaning_lookup, simp_all add: battery_present_def
        overall_battery_greater_than_def overall_battery_less_than_def overall_battery_equal_to_def overall_compare_def overall_def)
qed

lemma acpi_check_value:
  assumes "arg_type_of (ev_value e) = ARG_INT \<and> f \<in> {''bcl_up_pressed'', ''bcl_down_pressed'', ''on_ac'', ''on_battery'',
      ''lid_open'', ''lid_closed'', ''tablet_mode'', ''non_tablet_mode''} \<or>
    arg_type_of (ev_value e) = ARG_BOOL \<and> f \<in> {''pbtn_pressed'', ''sbtn_pressed'', ''susp_pressed''}"
  shows "acpi_check env ops sys b f e args s = Ok (acpi_meaning sys b f (ev_value e) vs, s)"
  using assms unfolding insert_iff empty_iff int_valued bool_valued
  by (elim disjE conjE exE) (simp_all only: acpi_check_lookup acpi_meaning_lookup,
      simp_all add: value_i_def value_b_def check_i_def check_b_def bcl_up_pressed_def bcl_down_pressed_def on_ac_def
      on_battery_def lid_open_def lid_closed_def tablet_mode_def non_tablet_mode_def pbtn_pressed_def sbtn_pressed_def
      susp_pressed_def)

lemma acpi_row_cases:
  assumes "row \<in> set acpi_condition_data"
  obtains (value_i) "er_type (acpi_event_data ! cr_event row) = ARG_INT"
      "cr_func row \<in> {''bcl_up_pressed'', ''bcl_down_pressed'', ''on_ac'', ''on_battery'',
        ''lid_open'', ''lid_closed'', ''tablet_mode'', ''non_tablet_mode''}"
    | (value_b) "er_type (acpi_event_data ! cr_event row) = ARG_BOOL"
      "cr_func row \<in> {''pbtn_pressed'', ''sbtn_pressed'', ''susp_pressed''}"
    | (one_arg) "cr_prototype row = ''i''" "cr_func row \<in> {''battery_present'', ''overall_battery_greater_than'',
        ''overall_battery_less_than'', ''overall_battery_equal_to''}"
    | (two_args) "cr_prototype row = ''i, i''"
  using assms unfolding acpi_condition_data_def set_simps insert_iff empty_iff
  by (elim disjE) (simp_all add: acpi_event_data_def cond_row_def event_row_def)

interpretation acpi: condition_module acpi_event_data acpi_condition_data
  "acpi_check env ops sys (live_bats ps)" "acpi_meaning sys (live_bats ps)"
proof
  fix row :: cond_table_row and e :: ev_wrapper and args and s :: "'a xstate"
  assume row: "row \<in> set acpi_condition_data"
    and v: "arg_type_of (ev_value e) = er_type (acpi_event_data ! cr_event row)"
    and vars: "all_cached (arg_vars args) s" and sig: "signature (map (arg_kind s) args) = cr_prototype row"
  from row show "acpi_check env ops sys (live_bats ps) (cr_func row) e args s =
      Ok (acpi_meaning sys (live_bats ps) (cr_func row) (ev_value e) (map (arg_value s) args), s)"
  proof (cases rule: acpi_row_cases)
    case value_i
    with v show ?thesis by (intro acpi_check_value) simp
  next
    case value_b
    with v show ?thesis by (intro acpi_check_value) simp
  next
    case one_arg
    with sig vars show ?thesis by (intro acpi_check_int) simp_all
  next
    case two_args
    with sig signature_no_comma [of "map (arg_kind s) args"] show ?thesis by simp
  qed
qed (rule acpi_rows)

end
