(* ===== verification/Battery_Update.thy ===== *)
theory Battery_Update
  imports Battery
begin

text \<open>
  Refreshing the batteries (\<open>battery.c\<close>): resizing the arrays, reading the sysfs, and
  publishing status and changes in the xenstore and on the bus. What is published is a log
  of operations; \<open>XS_notify\<close> is a signal on the bus and \<open>DBUS_call\<close> a method call.
  \<open>pm_ls\<close> is what listing \<open>/pm\<close> returns after the operations so far.
\<close>

datatype xs_op = XS_write string string | XS_rm string | XS_mkdir string | XS_notify string | DBUS_call string

record pm_env =
  pm_sysfs :: sysfs
  pm_ls :: "xs_op list \<Rightarrow> string list option"
  no_batteries :: bool \<comment> \<open>\<open>PM_SPEC_NO_BATTERIES\<close>\<close>

subsection \<open>Encoding\<close>

definition hex_digit :: "nat \<Rightarrow> char" where
  "hex_digit n = (if n < 10 then char_of (48 + n) else char_of (87 + n))"

definition hex2 :: "nat \<Rightarrow> string" where
  \<comment> \<open>\<open>%02x\<close> of a byte\<close>
  "hex2 n = [hex_digit (n div 16), hex_digit (n mod 16)]"

definition write_ulong_lsb_first :: "ulong \<Rightarrow> string" where
  "write_ulong_lsb_first v =
     hex2 (unat (v AND 0xFF)) @ hex2 (unat (drop_bit 8 (v AND 0xFF00))) @
     hex2 (unat (drop_bit 16 (v AND 0xFF0000))) @ hex2 (unat (drop_bit 24 (v AND 0xFF000000)))"

definition field_str :: "string \<Rightarrow> string outcome" where
  \<comment> \<open>a 32-byte field without a null makes \<open>strlen\<close> run on\<close>
  "field_str t = (if length t < 32 then Ok t else Crash Buffer_Overflow)"

definition bif_string :: "battery_info \<Rightarrow> string outcome" where
  "bif_string info =
     obind (field_str (model_number info)) (\<lambda>model.
       obind (field_str (serial_number info)) (\<lambda>serial.
         obind (field_str (battery_type info)) (\<lambda>btype.
           omap (\<lambda>oem.
               hex2 (9 * 4 + length model + length serial + length btype + length oem + 4) @
               concat (map write_ulong_lsb_first
                 [(case power_unit info of mW \<Rightarrow> 0 | mA \<Rightarrow> 1), design_capacity info, last_full_capacity info,
                  (if rechargeable info then 1 else 0), design_voltage info, design_capacity_warning info,
                  design_capacity_low info, capacity_granularity_1 info, capacity_granularity_2 info]) @
               concat (map (\<lambda>t. hex2 (length t) @ t) [model, serial, btype, oem]))
             (field_str (oem_info info)))))"

definition bst_string :: "battery_status \<Rightarrow> string" where
  "bst_string st =
     hex2 16 @ concat (map write_ulong_lsb_first [state st, present_rate st, remaining_capacity st, present_voltage st])"

definition bat_path :: "nat \<Rightarrow> string \<Rightarrow> string" where
  "bat_path i leaf = ''/pm/bat'' @ show_nat i @ ''/'' @ leaf"

definition event_path :: "nat \<Rightarrow> string \<Rightarrow> string" where
  "event_path i leaf = ''/pm/events/bat'' @ show_nat i @ ''/'' @ leaf"

subsection \<open>Publishing\<close>

definition make_xenstore_battery_dir :: "pm_env \<Rightarrow> nat \<Rightarrow> xs_op list \<Rightarrow> xs_op list" where
  "make_xenstore_battery_dir env i log =
     (case pm_ls env log of
        None \<Rightarrow> log
      | Some entries \<Rightarrow>
          if (''/pm/bat'' @ show_nat i) \<in> set entries then log else log @ [XS_mkdir (''/pm/bat'' @ show_nat i)])"

definition cleanup_removed_battery :: "pm_env \<Rightarrow> nat \<Rightarrow> xs_op list \<Rightarrow> xs_op list" where
  "cleanup_removed_battery env i log =
     log @ [XS_rm (''/pm/bat'' @ show_nat i)] @
     (if i > 0 then [XS_rm ''/pm/bst1'', XS_rm ''/pm/bif1''] else [XS_rm ''/pm/bst'', XS_rm ''/pm/bif'']) @
     [XS_write ''/pm/battery_present'' (if get_num_batteries_present (pm_sysfs env) = 0 then ''0'' else ''1'')]"

definition write_battery_info_to_xenstore ::
  "pm_env \<Rightarrow> nat \<Rightarrow> batteries \<times> xs_op list \<Rightarrow> (batteries \<times> xs_op list) outcome" where
  "write_battery_info_to_xenstore env i = (\<lambda>(b, log).
     if \<not> battery_slot_exists (pm_sysfs env) i \<or> i \<ge> num_battery_structs_allocd b
     then Ok (b, cleanup_removed_battery env i log)
     else obind (buf_get (last_info b) i) (\<lambda>info.
       omap (\<lambda>bif. (b, make_xenstore_battery_dir env i log @
           [XS_write (bat_path i ''bif'') bif, XS_write (if i = 0 then ''/pm/bif'' else ''/pm/bif1'') bif]))
         (bif_string info)))"

definition level_num :: "battery_level \<Rightarrow> nat" where
  "level_num l = (case l of NORMAL \<Rightarrow> 0 | WARNING \<Rightarrow> 1 | LOW \<Rightarrow> 2 | CRITICAL \<Rightarrow> 3)"

definition write_battery_status_to_xenstore ::
  "pm_env \<Rightarrow> nat \<Rightarrow> batteries \<times> xs_op list \<Rightarrow> (batteries \<times> xs_op list) outcome" where
  \<comment> \<open>the clean-up of a removed slot does not return\<close>
  "write_battery_status_to_xenstore env i = (\<lambda>(b, log).
     let log = (if i \<ge> num_battery_structs_allocd b then cleanup_removed_battery env i log else log)
     in if get_num_batteries_present (pm_sysfs env) = 0 then Ok (b, log @ [XS_write ''/pm/battery_present'' ''0''])
        else
          let log = log @ [XS_write ''/pm/battery_present'' ''1'']
          in obind (buf_get (last_status b) i) (\<lambda>st.
               if \<not> present st
               then Ok (b, log @ [XS_rm (bat_path i ''bst''), XS_write (bat_path i ''present'') ''0''])
               else
                 let log = make_xenstore_battery_dir env i log @
                       [XS_write (bat_path i ''bst'') (bst_string st), XS_write (bat_path i ''present'') ''1'',
                        XS_write (if i = 0 then ''/pm/bst'' else ''/pm/bst1'') (bst_string st)]
                 in omap (\<lambda>level. (b, log @
                        (if level = NORMAL \<or> get_ac_adapter_status (pm_sysfs env) = ON_AC
                         then [XS_rm ''/pm/currentbatterylevel'']
                         else [XS_write ''/pm/currentbatterylevel'' (show_nat (level_num level)),
                               XS_notify ''battery_level_notification''])))
                      (get_current_battery_level b)))"

subsection \<open>Refreshing\<close>

fun old_copy :: "'a buf \<Rightarrow> nat \<Rightarrow> 'a \<Rightarrow> 'a list" where
  \<comment> \<open>the copy of an array of \<open>n\<close> entries taken at the start; zeros for a null pointer\<close>
  "old_copy (Buf xs) n z = take n xs"
| "old_copy _ n z = replicate n z"

fun resize_buf :: "'a buf \<Rightarrow> nat \<Rightarrow> 'a \<Rightarrow> 'a buf outcome" where
  \<comment> \<open>\<open>free\<close> for size 0, otherwise \<open>realloc\<close> and \<open>memset\<close>\<close>
  "resize_buf b 0 z = (case b of Buf_Freed \<Rightarrow> Crash Use_After_Free | Buf_Null \<Rightarrow> Ok Buf_Null | Buf _ \<Rightarrow> Ok Buf_Freed)"
| "resize_buf b (Suc n) z = (case b of Buf_Freed \<Rightarrow> Crash Use_After_Free | _ \<Rightarrow> Ok (Buf (replicate (Suc n) z)))"

definition resize_batteries :: "nat \<Rightarrow> batteries \<Rightarrow> batteries outcome" where
  "resize_batteries n b =
     (if n = num_battery_structs_allocd b then Ok b
      else obind (resize_buf (last_info b) n zero_info) (\<lambda>infos.
        omap (\<lambda>stats. \<lparr>last_info = infos, last_status = stats, num_battery_structs_allocd = n\<rparr>)
          (resize_buf (last_status b) n zero_status)))"

definition refresh_slot :: "pm_env \<Rightarrow> nat \<Rightarrow> batteries \<Rightarrow> batteries outcome" where
  "refresh_slot env i b =
     obind (update_battery_status (pm_sysfs env) i b) (\<lambda>(_, b). omap snd (update_battery_info (pm_sysfs env) i b))"

definition publish_slot ::
  "pm_env \<Rightarrow> battery_status list \<Rightarrow> battery_info list \<Rightarrow> nat \<Rightarrow> nat \<Rightarrow>
   (batteries \<times> xs_op list) \<times> bool \<Rightarrow> ((batteries \<times> xs_op list) \<times> bool) outcome" where
  \<comment> \<open>the body of the second loop; the flag is \<open>present_batteries_changed\<close>\<close>
  "publish_slot env old_status old_info new_size i = (\<lambda>((b, log), changed).
     obind (buf_get (last_status b) i) (\<lambda>st.
       obind (if present st then Ok True else omap present (buf_get (Buf old_status) i)) (\<lambda>shown.
         obind (if shown
                then obind (write_battery_status_to_xenstore env i (b, log)) (write_battery_info_to_xenstore env i)
                else Ok (b, log)) (\<lambda>(b, log).
           if i < length old_status \<and> i < new_size
           then omap (\<lambda>info.
               ((b, log @
                   (if old_info ! i \<noteq> info then [XS_write (event_path i ''info_changed'') ''1''] else []) @
                   (if old_status ! i \<noteq> st then [XS_write (event_path i ''status_changed'') ''1''] else [])),
                changed \<or> present (old_status ! i) \<noteq> present st)) (buf_get (last_info b) i)
           else Ok ((b, log @ [XS_write (event_path i ''info_changed'') ''1'', XS_write (event_path i ''status_changed'') ''1'']),
                changed \<or> (if length old_status < new_size then present st else present (old_status ! i)))))))"

definition update_batteries :: "pm_env \<Rightarrow> batteries \<times> xs_op list \<Rightarrow> (batteries \<times> xs_op list) outcome" where
  "update_batteries env = (\<lambda>(b, log).
     if no_batteries env then Ok (b, log)
     else
       let old_size = num_battery_structs_allocd b;
           old_status = old_copy (last_status b) old_size zero_status;
           old_info = old_copy (last_info b) old_size zero_info;
           new_size = nat (get_max_battery_index (pm_sysfs env) + 1)
       in obind (resize_batteries new_size b) (\<lambda>b.
            obind (ofold (refresh_slot env) [0..<max new_size old_size] b) (\<lambda>b.
              omap (\<lambda>((b, log), changed).
                  (b, log @
                   (if old_size \<noteq> new_size \<or> last_info b \<noteq> Buf old_info \<and> new_size > 0
                    then [XS_notify ''battery_info_changed''] else []) @
                   (if old_size \<noteq> new_size \<or> last_status b \<noteq> Buf old_status \<and> new_size > 0
                    then [XS_write ''/pm/events/batterystatuschanged'' ''1'', XS_notify ''battery_status_changed''] else []) @
                   (if changed then [XS_notify ''num_batteries_changed''] else [])))
                (ofold (publish_slot env old_status old_info new_size) [0..<max new_size old_size] ((b, log), False)))))"

subsection \<open>Removing slots\<close>

lemma max_index_ge: "- 1 \<le> get_max_battery_index sys"
proof -
  have "- 1 \<le> fold (\<lambda>n m. if is_battery_name n \<and> get_terminal_number n > - 1 \<and> get_terminal_number n > m
      then get_terminal_number n else m) ns m" if "- 1 \<le> m" for ns m
    using that by (induction ns arbitrary: m) auto
  then show ?thesis by (simp add: get_max_battery_index_def split: option.split)
qed

definition live :: "nat \<Rightarrow> batteries \<Rightarrow> bool" where
  "live n b \<longleftrightarrow> (\<exists>ss is. b = bats ss is \<and> length ss = n \<and> length is = n)"

lemma live_bats [simp]: "live n (bats ss is) \<longleftrightarrow> length ss = n \<and> length is = n"
  by (auto simp: live_def bats_def)

lemma update_status_live:
  "live n b \<Longrightarrow> update_battery_status sys i b = Ok (r, b') \<Longrightarrow> live n b'"
  by (auto simp: live_def update_battery_status_def bats_def split: if_splits option.splits)

lemma update_info_live:
  "live n b \<Longrightarrow> update_battery_info sys i b = Ok (r, b') \<Longrightarrow> live n b'"
  by (auto simp: live_def update_battery_info_def bats_def split: if_splits option.splits)

lemma refresh_slot_live: "live n b \<Longrightarrow> refresh_slot env i b = Ok b' \<Longrightarrow> live n b'"
  by (auto simp: refresh_slot_def outcome_simps dest: update_status_live update_info_live)

lemma write_status_same: "write_battery_status_to_xenstore env i (b, log) = Ok (b', log') \<Longrightarrow> b' = b"
  by (auto simp: write_battery_status_to_xenstore_def Let_def outcome_simps split: if_splits)

lemma write_info_same: "write_battery_info_to_xenstore env i (b, log) = Ok (b', log') \<Longrightarrow> b' = b"
  by (auto simp: write_battery_info_to_xenstore_def outcome_simps split: if_splits)

lemma publish_slot_same: "publish_slot env os oi n i ((b, log), c) = Ok ((b', log'), c') \<Longrightarrow> b' = b"
  by (auto simp: publish_slot_def outcome_simps split: if_splits dest!: write_status_same write_info_same)

lemma publish_same:
  "ofold (publish_slot env os oi n) js ((b, log), c) = Ok ((b', log'), c') \<Longrightarrow> b' = b"
proof (induction js arbitrary: log c)
  case (Cons j js)
  then obtain b1 log1 c1 where "publish_slot env os oi n j ((b, log), c) = Ok ((b1, log1), c1)"
      "ofold (publish_slot env os oi n) js ((b1, log1), c1) = Ok ((b', log'), c')"
    by (auto simp: outcome_simps)
  with Cons.IH publish_slot_same show ?case by fastforce
qed simp

lemma publish_beyond:
  assumes "\<And>x. buf_get (last_status b) j \<noteq> Ok x" and "j < m"
  shows "\<exists>k. ofold (publish_slot env os oi n) [0..<m] ((b, log), c) = Crash k"
proof -
  have split: "[0..<m] = [0..<j] @ j # [Suc j..<m]"
    using assms(2) upt_add_eq_append [of 0 j "m - j"] by (simp add: upt_conv_Cons)
  show ?thesis
  proof (cases "ofold (publish_slot env os oi n) [0..<j] ((b, log), c)")
    case (Ok r)
    obtain b1 log1 c1 where r: "r = ((b1, log1), c1)" by (metis prod.collapse)
    with Ok publish_same have "b1 = b" by blast
    moreover obtain k where "buf_get (last_status b) j = Crash k"
      using assms(1) by (cases "buf_get (last_status b) j") auto
    ultimately have "publish_slot env os oi n j r = Crash k" by (simp add: publish_slot_def r)
    with Ok split show ?thesis by (simp add: ofold_append)
  next
    case (Crash k)
    with split show ?thesis by (simp add: ofold_append)
  qed
qed

text \<open>
  C34. Removing battery slots crashes the daemon. When the highest battery number in the sysfs has
  gone down since the last refresh, \<open>update_batteries\<close> shrinks the arrays and then still
  visits the slots up to the old size: it reads beyond the new array, and when the last
  battery is gone it reads the array it has just freed.
\<close>

theorem battery_removal_crashes:
  assumes "\<not> no_batteries env" and "length is = length ss" and "get_max_battery_index (pm_sysfs env) + 1 < int (length ss)"
  shows "(\<exists>k. update_batteries env (bats ss is, log) = Crash k) \<and>
    (get_max_battery_index (pm_sysfs env) < 0 \<longrightarrow> update_batteries env (bats ss is, log) = Crash Use_After_Free)"
proof -
  define n where "n = nat (get_max_battery_index (pm_sysfs env) + 1)"
  have n: "n < length ss" using assms(3) max_index_ge [of "pm_sysfs env"] by (simp add: n_def)
  have run: "update_batteries env (bats ss is, log) = Crash k"
    if "resize_batteries n (bats ss is) = Ok b" "ofold (refresh_slot env) [0..<length ss] b = Ok b'"
      "ofold (publish_slot env ss is n) [0..<length ss] ((b', log), False) = Crash k" for b b' k
    using that n assms(1,2) by (simp add: update_batteries_def Let_def n_def [symmetric] max_def)
  show ?thesis
  proof (cases n)
    case 0
    let ?b = "\<lparr>last_info = Buf_Freed, last_status = Buf_Freed, num_battery_structs_allocd = 0\<rparr>"
    have resize: "resize_batteries n (bats ss is) = Ok ?b"
      using 0 n by (simp add: resize_batteries_def)
    have "refresh_slot env i ?b = Ok ?b" for i
      by (simp add: refresh_slot_def update_battery_status_def update_battery_info_def)
    then have refresh: "ofold (refresh_slot env) js ?b = Ok ?b" for js by (induction js) simp_all
    have "[0..<length ss] = 0 # [1..<length ss]" using n by (metis One_nat_def gr_implies_not0 neq0_conv upt_conv_Cons)
    then have "ofold (publish_slot env ss is n) [0..<length ss] ((?b, log), False) = Crash Use_After_Free"
      by (simp add: publish_slot_def)
    with run [OF resize refresh] show ?thesis by blast
  next
    case (Suc m)
    let ?b = "bats (replicate n zero_status) (replicate n zero_info)"
    have resize: "resize_batteries n (bats ss is) = Ok ?b"
      using Suc n by (simp add: resize_batteries_def bats_def)
    have nonneg: "\<not> get_max_battery_index (pm_sysfs env) < 0" using Suc by (auto simp: n_def)
    show ?thesis
    proof (cases "ofold (refresh_slot env) [0..<length ss] ?b")
      case (Ok b')
      then have "live n b'" by (rule ofold_inv [where P = "live n"]) (auto dest: refresh_slot_live)
      then have "buf_get (last_status b') n \<noteq> Ok x" for x by (auto simp: live_def)
      from publish_beyond [OF this n] run [OF resize Ok] nonneg show ?thesis by blast
    next
      case (Crash k)
      with resize n assms(1,2) nonneg show ?thesis
        by (simp add: update_batteries_def Let_def n_def [symmetric] max_def)
    qed
  qed
qed

definition empty_sysfs :: sysfs where
  "empty_sysfs = \<lparr>bat_files = (\<lambda>_. None), reopen_error = (\<lambda>_. None), supplies = Some [''AC''],
     present_line = (\<lambda>_. None), ac_online = Inr ''1''\<rparr>"

definition empty_pm :: pm_env where
  "empty_pm = \<lparr>pm_sysfs = empty_sysfs, pm_ls = (\<lambda>_. None), no_batteries = False\<rparr>"

theorem battery_removal_crashes_witness:
  "update_batteries empty_pm (bats [zero_status\<lparr>present := True\<rparr>] [zero_info], []) = Crash Use_After_Free"
  using battery_removal_crashes [of empty_pm "[zero_info]" "[zero_status\<lparr>present := True\<rparr>]" "[]"]
  by (simp add: empty_pm_def empty_sysfs_def get_max_battery_index_def is_battery_name_def)

subsection \<open>A refresh with the same slots\<close>

definition slot_status :: "sysfs \<Rightarrow> nat \<Rightarrow> battery_status" where
  "slot_status sys i = (case bat_files sys i of None \<Rightarrow> zero_status | Some files \<Rightarrow> read_status files)"

definition slot_info :: "sysfs \<Rightarrow> nat \<Rightarrow> battery_info" where
  "slot_info sys i = (case bat_files sys i of None \<Rightarrow> zero_info | Some files \<Rightarrow> read_info files)"

definition terminated :: "battery_info \<Rightarrow> bool" where
  "terminated info \<longleftrightarrow> length (model_number info) < 32 \<and> length (serial_number info) < 32 \<and>
     length (battery_type info) < 32 \<and> length (oem_info info) < 32"

lemma refresh_slot_run:
  assumes "reopen_error (pm_sysfs env) i = None" and "i < length ss" and "length is = length ss"
  shows "refresh_slot env i (bats ss is) =
    Ok (bats (ss[i := slot_status (pm_sysfs env) i]) (is[i := slot_info (pm_sysfs env) i]))"
  using assms
  by (cases "bat_files (pm_sysfs env) i")
    (auto simp: refresh_slot_def update_battery_status_def update_battery_info_def slot_status_def slot_info_def bats_def)

lemma refresh_run:
  assumes "\<forall>i. reopen_error (pm_sysfs env) i = None" and "k \<le> length ss" and "length is = length ss"
  shows "ofold (refresh_slot env) [0..<k] (bats ss is) =
    Ok (bats (map (slot_status (pm_sysfs env)) [0..<k] @ drop k ss) (map (slot_info (pm_sysfs env)) [0..<k] @ drop k is))"
  using assms(2)
proof (induction k)
  case (Suc k)
  let ?ss = "map (slot_status (pm_sysfs env)) [0..<k] @ drop k ss"
  let ?is = "map (slot_info (pm_sysfs env)) [0..<k] @ drop k is"
  have upd: "(map f [0..<k] @ drop k xs)[k := f k] = map f [0..<Suc k] @ drop (Suc k) xs" if "k < length xs"
    for f :: "nat \<Rightarrow> 'a" and xs
    using that by (simp add: list_update_append Cons_nth_drop_Suc [symmetric])
  have "refresh_slot env k (bats ?ss ?is) =
      Ok (bats (?ss[k := slot_status (pm_sysfs env) k]) (?is[k := slot_info (pm_sysfs env) k]))"
    by (rule refresh_slot_run) (use Suc.prems assms in auto)
  with Suc show ?case
    using upd [of ss "slot_status (pm_sysfs env)"] upd [of "is" "slot_info (pm_sysfs env)"] assms(3)
    by (simp add: ofold_append)
qed simp

text \<open>Operations that report no change of status or information.\<close>

definition quiet :: "xs_op \<Rightarrow> bool" where
  "quiet op \<longleftrightarrow> op \<noteq> XS_notify ''battery_status_changed'' \<and> op \<noteq> XS_notify ''battery_info_changed''"

definition extends :: "xs_op list \<Rightarrow> xs_op list \<Rightarrow> bool" where
  "extends log log' \<longleftrightarrow> (\<exists>ops. log' = log @ ops \<and> (\<forall>op \<in> set ops. quiet op))"

lemma extends_refl: "extends log log"
  by (simp add: extends_def)

lemma extends_trans: "extends a b \<Longrightarrow> extends b c \<Longrightarrow> extends a c"
  by (fastforce simp: extends_def)

lemma extends_append: "\<forall>op \<in> set ops. quiet op \<Longrightarrow> extends log (log @ ops)"
  by (auto simp: extends_def)

lemma extends_dir: "extends log (make_xenstore_battery_dir env i log)"
  by (auto simp: make_xenstore_battery_dir_def quiet_def extends_refl intro!: extends_append split: option.split)

lemma write_status_run:
  assumes "i < length ss" and "length is = length ss"
  shows "\<exists>log'. write_battery_status_to_xenstore env i (bats ss is, log) = Ok (bats ss is, log') \<and> extends log log'"
proof -
  obtain level where level: "get_current_battery_level (bats ss is) = Ok level"
    using assms(2) by (auto simp: get_current_battery_level_def get_overall_battery_percentage_def
        get_total_charge_run get_total_max_charge_run)
  let ?log = "log @ [XS_write ''/pm/battery_present'' ''1'']"
  have one: "extends log ?log" by (intro extends_append) (simp add: quiet_def)
  have "extends log (make_xenstore_battery_dir env i ?log @ ops)" if "\<forall>op \<in> set ops. quiet op" for ops
    using extends_trans [OF extends_trans [OF one extends_dir] extends_append [OF that]] .
  moreover have "extends log (log @ ops)" if "\<forall>op \<in> set ops. quiet op" for ops
    using that by (rule extends_append)
  ultimately show ?thesis
    using assms level by (auto simp: write_battery_status_to_xenstore_def Let_def quiet_def)
qed

lemma write_info_run:
  assumes "i < length ss" and "length is = length ss" and "terminated (is ! i)"
  shows "\<exists>log'. write_battery_info_to_xenstore env i (bats ss is, log) = Ok (bats ss is, log') \<and> extends log log'"
proof -
  have "extends log (make_xenstore_battery_dir env i log @ ops)" if "\<forall>op \<in> set ops. quiet op" for ops
    using extends_trans [OF extends_dir extends_append [OF that]] .
  moreover have "extends log (cleanup_removed_battery env i log)"
    by (auto simp: cleanup_removed_battery_def quiet_def intro!: extends_append)
  ultimately show ?thesis
    using assms by (auto simp: write_battery_info_to_xenstore_def bif_string_def field_str_def terminated_def quiet_def)
qed

lemma publish_slot_run:
  assumes "i < length ss" and "length is = length ss" and "terminated (is ! i)" and "length os = length ss"
  shows "\<exists>log' c'. publish_slot env os oi (length ss) i ((bats ss is, log), c) = Ok ((bats ss is, log'), c') \<and> extends log log'"
proof -
  obtain log1 where w1: "write_battery_status_to_xenstore env i (bats ss is, log) = Ok (bats ss is, log1)" "extends log log1"
    using write_status_run [OF assms(1,2)] by blast
  obtain log2 where w2: "write_battery_info_to_xenstore env i (bats ss is, log1) = Ok (bats ss is, log2)" "extends log1 log2"
    using write_info_run [OF assms(1-3)] by blast
  have e: "extends log (log2 @ ops)" "extends log (log @ ops)" if "\<forall>op \<in> set ops. quiet op" for ops
    using extends_trans [OF extends_trans [OF w1(2) w2(2)] extends_append [OF that]] extends_append [OF that] by simp_all
  show ?thesis
    using assms w1(1) w2(1) e
    by (cases "present (ss ! i) \<or> present (os ! i)") (auto simp: publish_slot_def quiet_def)
qed

lemma publish_run:
  assumes "length is = length ss" and "\<forall>i < length ss. terminated (is ! i)" and "length os = length ss"
  shows "\<exists>log' c'. ofold (publish_slot env os oi (length ss)) [0..<length ss] ((bats ss is, log), c) =
    Ok ((bats ss is, log'), c') \<and> extends log log'"
proof -
  have "\<exists>r. ofold (publish_slot env os oi (length ss)) [0..<length ss] ((bats ss is, log), c) = Ok r \<and>
      (\<lambda>((b, l), c). b = bats ss is \<and> extends log l) r"
  proof (rule ofold_returns)
    fix i and r :: "(batteries \<times> xs_op list) \<times> bool"
    assume i: "i \<in> set [0..<length ss]" and r: "(\<lambda>((b, l), c). b = bats ss is \<and> extends log l) r"
    obtain l c where rl: "r = ((bats ss is, l), c)" "extends log l" using r by auto
    obtain l' c' where "publish_slot env os oi (length ss) i r = Ok ((bats ss is, l'), c')" "extends l l'"
      using publish_slot_run [of i ss "is" os env oi l c] i assms rl(1) by auto
    with rl(2) extends_trans show "\<exists>t. publish_slot env os oi (length ss) i r = Ok t \<and>
        (\<lambda>((b, l), c). b = bats ss is \<and> extends log l) t" by fastforce
  qed (simp add: extends_refl)
  then show ?thesis by auto
qed

lemma refresh_same_slots:
  assumes "\<not> no_batteries env" and "length is = length ss" and "ss \<noteq> []"
    and "get_max_battery_index (pm_sysfs env) + 1 = int (length ss)"
    and "\<forall>i. reopen_error (pm_sysfs env) i = None" and "\<forall>i < length ss. terminated (slot_info (pm_sysfs env) i)"
  shows "\<exists>ops. update_batteries env (bats ss is, log) =
      Ok (bats (map (slot_status (pm_sysfs env)) [0..<length ss]) (map (slot_info (pm_sysfs env)) [0..<length ss]), log @ ops) \<and>
    (XS_notify ''battery_status_changed'' \<in> set ops \<longleftrightarrow> map (slot_status (pm_sysfs env)) [0..<length ss] \<noteq> ss) \<and>
    (XS_notify ''battery_info_changed'' \<in> set ops \<longleftrightarrow> map (slot_info (pm_sysfs env)) [0..<length ss] \<noteq> is)"
proof -
  let ?n = "length ss"
  let ?ss = "map (slot_status (pm_sysfs env)) [0..<?n]" and ?is = "map (slot_info (pm_sysfs env)) [0..<?n]"
  have n: "nat (get_max_battery_index (pm_sysfs env) + 1) = ?n" using assms(4) by simp
  have resize: "resize_batteries ?n (bats ss is) = Ok (bats ss is)" by (simp add: resize_batteries_def)
  have refresh: "ofold (refresh_slot env) [0..<?n] (bats ss is) = Ok (bats ?ss ?is)"
    using refresh_run [OF assms(5) order_refl assms(2)] assms(2) by simp
  obtain log' c where publish: "ofold (publish_slot env ss is ?n) [0..<?n] ((bats ?ss ?is, log), False) = Ok ((bats ?ss ?is, log'), c)"
      and "extends log log'"
    using publish_run [of ?is ?ss ss env "is" log False] assms(6) by auto
  then obtain ops where ops: "log' = log @ ops" "\<forall>op \<in> set ops. quiet op" by (auto simp: extends_def)
  then have "XS_notify ''battery_status_changed'' \<notin> set ops" "XS_notify ''battery_info_changed'' \<notin> set ops"
    by (auto simp: quiet_def)
  moreover have copy: "old_copy (Buf ss) ?n zero_status = ss" "old_copy (Buf is) ?n zero_info = is" using assms(2) by simp_all
  ultimately show ?thesis
    using assms(1,3) resize refresh publish n ops(1)
    by (simp add: update_batteries_def Let_def)
qed



end
