(* ===== verification/Acpi_Events.thy ===== *)
theory Acpi_Events
  imports Acpi_Module Battery_Update
begin

text \<open>
  ACPI events (\<open>acpi-events.c\<close>): the handlers of lid, button, brightness and adapter
  events, the messages of acpid that are dispatched to them, input events, the initial state
  and the battery events. A handler publishes in the xenstore and on the bus (the log), stores
  the value of its event and lets the policy engine handle it. \<open>chk\<close> is the call of a
  condition's checker, which may read the battery arrays; \<open>table\<close> is the module's event
  table.
\<close>

record acpi_env =
  acpi_pm :: pm_env
  lid_file :: "bool + string" \<comment> \<open>the error of opening \<open>LID/state\<close> (whether \<open>ENOENT\<close>), or its first line\<close>
  lid_file2 :: "bool + string"
  quirk_sw_assist_bcl :: bool
  quirk_hp_hotkey_input :: bool

record 'd pm_state =
  engine :: "'d xstate"
  arrays :: batteries
  xs_log :: "xs_op list"

definition log_ops :: "xs_op list \<Rightarrow> 'd pm_state \<Rightarrow> 'd pm_state" where
  "log_ops ops st = st\<lparr>xs_log := xs_log st @ ops\<rparr>"

subsection \<open>Hardware state\<close>

definition adjust_brightness :: "acpi_env \<Rightarrow> bool \<Rightarrow> bool \<Rightarrow> 'd pm_state \<Rightarrow> 'd pm_state" where
  "adjust_brightness env increase force st =
     (if force \<or> quirk_sw_assist_bcl env \<or> quirk_hp_hotkey_input env
      then log_ops [DBUS_call (if increase then ''increase_brightness'' else ''decrease_brightness'')] st
      else st)"

definition get_lid_status :: "acpi_env \<Rightarrow> lid_state" where
  "get_lid_status env =
     (case (if lid_file env = Inl True then lid_file2 env else lid_file env) of
        Inl enoent \<Rightarrow> if enoent then NO_LID else LID_UNKNOWN
      | Inr line \<Rightarrow>
          if strstr line ''open'' then LID_OPEN
          else if strstr line ''closed'' then LID_CLOSED
          else LID_UNKNOWN)"

definition get_tablet_status :: tablet_state where
  "get_tablet_status = NORMAL_MODE"

subsection \<open>Handlers\<close>

type_synonym 'd sys_checker = "batteries \<Rightarrow> 'd checker"

definition raise_event ::
  "'d env \<Rightarrow> 'd sys_checker \<Rightarrow> nat \<Rightarrow> arg \<Rightarrow> 'd pm_state \<Rightarrow> 'd pm_state outcome" where
  \<comment> \<open>the last two lines of every handler: store the value, handle the event\<close>
  "raise_event denv chk ev v st =
     obind (store_event ev v (engine st)) (\<lambda>s.
       omap (\<lambda>s. st\<lparr>engine := s\<rparr>) (handle_events denv (chk (arrays st)) ev s))"

definition handle_lid_event ::
  "acpi_env \<Rightarrow> 'd env \<Rightarrow> 'd sys_checker \<Rightarrow> nat list \<Rightarrow> lid_state \<Rightarrow> 'd pm_state \<Rightarrow> 'd pm_state outcome" where
  "handle_lid_event env denv chk table status st =
     (let lid_status = (if status = LID_UNKNOWN then get_lid_status env else status)
      in raise_event denv chk (table ! EVENT_LID) (Arg_Int (lid_code lid_status))
           (log_ops [XS_write ''/pm/lid_state'' (if lid_status = LID_CLOSED then ''0'' else ''1''),
                     XS_write ''/pm/events/lidevent'' ''1''] st))"

definition handle_power_button_event ::
  "'d env \<Rightarrow> 'd sys_checker \<Rightarrow> nat list \<Rightarrow> 'd pm_state \<Rightarrow> 'd pm_state outcome" where
  "handle_power_button_event denv chk table st =
     raise_event denv chk (table ! EVENT_PWR_BTN) (Arg_Bool True)
       (log_ops [XS_write ''/pm/events/powerbuttonpressed'' ''1'', XS_notify ''power_button_pressed''] st)"

definition handle_sleep_button_event ::
  "'d env \<Rightarrow> 'd sys_checker \<Rightarrow> nat list \<Rightarrow> 'd pm_state \<Rightarrow> 'd pm_state outcome" where
  "handle_sleep_button_event denv chk table st =
     raise_event denv chk (table ! EVENT_SLP_BTN) (Arg_Bool True)
       (log_ops [XS_write ''/pm/events/sleepbuttonpressed'' ''1'', XS_notify ''sleep_button_pressed''] st)"

definition handle_suspend_button_event ::
  "'d env \<Rightarrow> 'd sys_checker \<Rightarrow> nat list \<Rightarrow> 'd pm_state \<Rightarrow> 'd pm_state outcome" where
  "handle_suspend_button_event denv chk table st =
     raise_event denv chk (table ! EVENT_SUSP_BTN) (Arg_Bool True)
       (log_ops [XS_write ''/pm/events/suspendbuttonpressed'' ''1''] st)"

definition handle_bcl_event ::
  "acpi_env \<Rightarrow> 'd env \<Rightarrow> 'd sys_checker \<Rightarrow> nat list \<Rightarrow> bcl_cmd \<Rightarrow> 'd pm_state \<Rightarrow> 'd pm_state outcome" where
  "handle_bcl_event env denv chk table cmd st =
     raise_event denv chk (table ! EVENT_BCL) (Arg_Int (bcl_code cmd))
       (log_ops [XS_notify ''bcl_key_pressed'']
         (if cmd = BCL_UP then
            adjust_brightness env True False
              (log_ops [XS_write ''/pm/bcl_cmd'' ''1'', XS_write ''/pm/events/bclevent'' ''1''] st)
          else if cmd = BCL_DOWN then
            adjust_brightness env False False
              (log_ops [XS_write ''/pm/bcl_cmd'' ''2'', XS_write ''/pm/events/bclevent'' ''1''] st)
          else st))"

text \<open>
  \<open>e->value.b = v\<close> stores one byte of the union, 0 or 1 after the conversion to
  \<open>bool\<close>; the other bytes of \<open>e->value.i\<close> keep what they were.
\<close>

definition store_b :: "int \<Rightarrow> arg \<Rightarrow> arg" where
  "store_b v old =
     (let b = (if v \<noteq> 0 then 1 else 0)
      in case old of Arg_Int i \<Rightarrow> Arg_Int (i div 256 * 256 + b) | _ \<Rightarrow> Arg_Bool (v \<noteq> 0))"

abbreviation (input) ACPI_AC_STATUS_OFFLINE :: nat where "ACPI_AC_STATUS_OFFLINE \<equiv> 0"
abbreviation (input) ACPI_AC_STATUS_ONLINE :: nat where "ACPI_AC_STATUS_ONLINE \<equiv> 1"

definition handle_ac_adapter_event ::
  "'d env \<Rightarrow> 'd sys_checker \<Rightarrow> nat list \<Rightarrow> nat \<Rightarrow> 'd pm_state \<Rightarrow> 'd pm_state outcome" where
  \<comment> \<open>\<open>data\<close> is below \<open>2 ^ 32\<close>\<close>
  "handle_ac_adapter_event denv chk table data st =
     (let ev = table ! EVENT_ON_AC;
          status = (if data = ACPI_AC_STATUS_OFFLINE then ON_BATT
                    else if data = ACPI_AC_STATUS_ONLINE then ON_AC else AC_UNKNOWN);
          st = log_ops [XS_write ''/pm/ac_adapter'' (show_int (to_int32 (int data))),
                        XS_notify ''ac_adapter_state_changed''] st
      in if ev < length (events (engine st))
         then raise_event denv chk ev (store_b (ac_code status) (ev_value (events (engine st) ! ev))) st
         else Crash Null_Deref)"

definition handle_video_event :: "'d pm_state \<Rightarrow> 'd pm_state outcome" where
  "handle_video_event st = Ok st"

definition handle_tablet_mode_event :: "nat \<Rightarrow> 'd pm_state \<Rightarrow> 'd pm_state outcome" where
  "handle_tablet_mode_event data st = Ok st"

definition acpi_initialize_state ::
  "acpi_env \<Rightarrow> nat list \<Rightarrow> 'd pm_state \<Rightarrow> 'd pm_state outcome" where
  "acpi_initialize_state env table st =
     (let ac = get_ac_adapter_status (pm_sysfs (acpi_pm env)); lid = get_lid_status env
      in obind (store_event (table ! EVENT_ON_AC) (Arg_Int (ac_code ac)) (engine st)) (\<lambda>s.
         obind (store_event (table ! EVENT_LID) (Arg_Int (lid_code lid)) s) (\<lambda>s.
         obind (store_event (table ! EVENT_TABLET_MODE) (Arg_Int (tablet_code get_tablet_status)) s) (\<lambda>s.
           omap (\<lambda>(b, log). st\<lparr>engine := s, arrays := b, xs_log := log\<rparr>)
             (update_batteries (acpi_pm env)
                (arrays st, xs_log st @
                   [case ac of
                      ON_AC \<Rightarrow> XS_write ''/pm/ac_adapter'' ''1''
                    | ON_BATT \<Rightarrow> XS_write ''/pm/ac_adapter'' ''0''
                    | AC_UNKNOWN \<Rightarrow> XS_write ''/pm/ac_adapter'' ''0''
                    | NO_AC \<Rightarrow> XS_rm ''/pm/ac_adapter'',
                    case lid of
                      LID_CLOSED \<Rightarrow> XS_write ''/pm/lid_state'' ''0''
                    | LID_OPEN \<Rightarrow> XS_write ''/pm/lid_state'' ''1''
                    | LID_UNKNOWN \<Rightarrow> XS_write ''/pm/lid_state'' ''1''
                    | NO_LID \<Rightarrow> XS_rm ''/pm/lid_state'']))))))"

subsection \<open>Messages\<close>

text \<open>
  \<open>strsplit\<close> keeps its place in two static pointers; calling it with a string and then
  with null until it returns null yields the fields one after the other, empty ones included.
  The state is the rest of the string after the last delimiter found, \<open>None\<close> at the end.
\<close>

definition strsplit_at :: "string \<Rightarrow> char \<Rightarrow> string \<times> string option" where
  \<comment> \<open>one call: the token, and where the next search starts\<close>
  "strsplit_at search delim =
     (let r = dropWhile (\<lambda>c. c \<noteq> delim) search
      in (takeWhile (\<lambda>c. c \<noteq> delim) search, case r of [] \<Rightarrow> None | _ # t \<Rightarrow> Some t))"

definition strsplit :: "string option \<Rightarrow> char \<Rightarrow> string option \<Rightarrow> string option \<times> string option" where
  "strsplit str delim pos =
     (case (case str of Some t \<Rightarrow> Some t | None \<Rightarrow> pos) of
        None \<Rightarrow> (None, None)
      | Some search \<Rightarrow> map_prod Some id (strsplit_at search delim))"

fun split_tokens :: "nat \<Rightarrow> char \<Rightarrow> string option \<Rightarrow> string option \<Rightarrow> string option list" where
  \<comment> \<open>the loop that fills \<open>tokens\<close>\<close>
  "split_tokens 0 delim str pos = []"
| "split_tokens (Suc n) delim str pos =
     (let (tok, pos) = strsplit str delim pos in tok # split_tokens n delim None pos)"

definition hex_val :: "char \<Rightarrow> nat option" where
  "hex_val c =
     (let n = of_char c :: nat
      in if 48 \<le> n \<and> n \<le> 57 then Some (n - 48)
         else if 97 \<le> n \<and> n \<le> 102 then Some (n - 87)
         else if 65 \<le> n \<and> n \<le> 70 then Some (n - 55) else None)"

definition read_hex :: "string \<Rightarrow> nat" where
  "read_hex ds = foldl (\<lambda>n c. 16 * n + the (hex_val c)) 0 ds"

definition scan_x :: "string \<Rightarrow> nat option" where
  \<comment> \<open>\<open>sscanf\<close> with \<open>%x\<close> into a \<open>uint32_t\<close>: the clamped \<open>unsigned long\<close>, its low 32 bits\<close>
  "scan_x t =
     (let t = dropWhile is_space t;
          neg = (t \<noteq> [] \<and> hd t = CHR ''-'');
          r = (if t \<noteq> [] \<and> (hd t = CHR ''-'' \<or> hd t = CHR ''+'') then tl t else t);
          pre = (take 2 r = ''0x'' \<or> take 2 r = ''0X'');
          ds = takeWhile (\<lambda>c. hex_val c \<noteq> None) (if pre then drop 2 r else r);
          n = min (read_hex ds) (2 ^ 64 - 1)
      in if ds = [] \<and> \<not> pre then None
         else Some (nat ((if neg then - int n else int n) mod 2 ^ 32)))"

abbreviation (input) ACPI_AC_NOTIFY_STATUS :: nat where "ACPI_AC_NOTIFY_STATUS \<equiv> 0x80"

definition token :: "string option list \<Rightarrow> nat \<Rightarrow> string option" where
  "token tokens i = (if i < length tokens then tokens ! i else None)"

definition process_acpi_message ::
  "acpi_env \<Rightarrow> 'd env \<Rightarrow> 'd sys_checker \<Rightarrow> nat list \<Rightarrow> string \<Rightarrow> 'd pm_state \<Rightarrow> 'd pm_state outcome" where
  \<comment> \<open>\<open>msg\<close> is the received text up to its first null byte\<close>
  "process_acpi_message env denv chk table msg st =
     (let tokens = split_tokens 16 (CHR '' '') (Some msg) None
      in case token tokens 0 of
           None \<Rightarrow> Ok st
         | Some first \<Rightarrow>
             let (cls, pos) = strsplit (Some first) (CHR ''/'') None;
                 (sub, _) = strsplit None (CHR ''/'') pos
             in if cls = Some ''battery'' then Ok st
                else if cls = Some ''ac_adapter'' then
                  (case (token tokens 2, token tokens 3) of
                     (Some ty, Some data) \<Rightarrow>
                       (case (scan_x ty, scan_x data) of
                          (Some ty, Some data) \<Rightarrow>
                            if ty = ACPI_AC_NOTIFY_STATUS then handle_ac_adapter_event denv chk table data st else Ok st
                        | _ \<Rightarrow> Ok st)
                   | _ \<Rightarrow> Ok st)
                else if cls = Some ''button'' then
                  (case sub of
                     None \<Rightarrow> Ok st
                   | Some b \<Rightarrow>
                       if b = ''lid'' then
                         handle_lid_event env denv chk table
                           (case token tokens 2 of
                              None \<Rightarrow> LID_UNKNOWN
                            | Some t \<Rightarrow> if t = ''open'' then LID_OPEN
                                else if t = ''close'' then LID_CLOSED else LID_UNKNOWN) st
                       else if b = ''power'' then handle_power_button_event denv chk table st
                       else if b = ''sleep'' then handle_sleep_button_event denv chk table st
                       else if b = ''suspend'' then handle_suspend_button_event denv chk table st
                       else Ok st)
                else if cls = Some ''video'' then
                  (case sub of
                     None \<Rightarrow> handle_video_event st
                   | Some v \<Rightarrow>
                       if v = ''brightnessup'' then handle_bcl_event env denv chk table BCL_UP st
                       else if v = ''brightnessdown'' then handle_bcl_event env denv chk table BCL_DOWN st
                       else if v = ''brightnesscycle'' then handle_bcl_event env denv chk table BCL_CYCLE st
                       else if v = ''tabletmode'' then
                         (case Option.bind (token tokens 3) scan_x of
                            None \<Rightarrow> Ok st
                          | Some data \<Rightarrow> handle_tablet_mode_event data st)
                       else Ok st)
                else Ok st)"

definition xcpmd_process_input ::
  "acpi_env \<Rightarrow> 'd env \<Rightarrow> 'd sys_checker \<Rightarrow> nat list \<Rightarrow> int \<Rightarrow> 'd pm_state \<Rightarrow> 'd pm_state outcome" where
  "xcpmd_process_input env denv chk table input st =
     (if input = 1 then handle_sleep_button_event denv chk table st
      else if input = 2 \<or> input = 3 then
        (if quirk_hp_hotkey_input env \<or> quirk_sw_assist_bcl env
         then handle_bcl_event env denv chk table (if input = 2 then BCL_UP else BCL_DOWN) st
         else Ok st)
      else Ok st)"

definition handle_battery_events ::
  "'d env \<Rightarrow> 'd sys_checker \<Rightarrow> nat list \<Rightarrow> 'd pm_state \<Rightarrow> 'd pm_state outcome" where
  "handle_battery_events denv chk table st =
     ofold (\<lambda>i st.
         obind (store_event (table ! EVENT_BATT_INFO) (Arg_Int (to_int32 (int i))) (engine st)) (\<lambda>s.
         obind (store_event (table ! EVENT_BATT_STATUS) (Arg_Int (to_int32 (int i))) s) (\<lambda>s.
         obind (handle_events denv (chk (arrays st)) (table ! EVENT_BATT_INFO) s) (\<lambda>s.
           omap (\<lambda>s. st\<lparr>engine := s\<rparr>) (handle_events denv (chk (arrays st)) (table ! EVENT_BATT_STATUS) s)))))
       [0..<num_battery_structs_allocd (arrays st)] st"

definition acpi_events_read ::
  "acpi_env \<Rightarrow> 'd env \<Rightarrow> 'd sys_checker \<Rightarrow> nat list \<Rightarrow> string list \<Rightarrow> 'd pm_state \<Rightarrow> 'd pm_state outcome" where
  \<comment> \<open>the non-empty results of \<open>recv\<close>, of at most 1024 bytes each, up to the end or the first error\<close>
  "acpi_events_read env denv chk table chunks st =
     ofold (\<lambda>bytes. process_acpi_message env denv chk table (takeWhile (\<lambda>c. c \<noteq> CHR 0x00) bytes)) chunks st"


end
