(* ===== verification/Vm_Utils.thy ===== *)
theory Vm_Utils
  imports Prelude
begin

text \<open>
  The table of virtual machines (\<open>vm-utils.c\<close>): the cached UUIDs, names and paths of the
  machines xenmgr knows, and the searches in it. Xenmgr is a D-Bus service outside this
  repository; its answers are the record \<open>xenmgr\<close>. \<open>list_vms\<close> is \<open>None\<close> when the
  call fails, which leaves the list the code goes on to read unset. Allocation does not fail.
\<close>

record xenmgr =
  list_vms :: "string list option"
  vm_name_of :: "string \<Rightarrow> string option"
  vm_state_of :: "string \<Rightarrow> string"
  vm_type_of :: "string \<Rightarrow> string"
  vm_deps_of :: "string \<Rightarrow> string list"

record vm_identifier_table_row =
  vm_uuid :: string
  vm_name :: string
  vm_path :: string

text \<open>A row that was cloned: an empty member is a null pointer.\<close>

record vmid =
  vmid_uuid :: "string option"
  vmid_name :: "string option"
  vmid_path :: "string option"

abbreviation (input) VM_PATH_LEN :: nat where "VM_PATH_LEN \<equiv> 40"
abbreviation (input) VM_PATH_UUID_PREFIX_LEN :: nat where "VM_PATH_UUID_PREFIX_LEN \<equiv> 4"

definition uuid_of_path :: "string \<Rightarrow> string" where
  \<comment> \<open>\<open>strncpy\<close> of the rest of the path into 37 bytes, then the four hyphens\<close>
  "uuid_of_path vm =
     (let n = VM_PATH_LEN - VM_PATH_UUID_PREFIX_LEN + 1;
          buf = take n (drop VM_PATH_UUID_PREFIX_LEN vm @ replicate n (CHR 0x00))
      in takeWhile (\<lambda>c. c \<noteq> CHR 0x00) (buf[8 := CHR ''-'', 13 := CHR ''-'', 18 := CHR ''-'', 23 := CHR ''-'']))"

definition table_row :: "xenmgr \<Rightarrow> string \<Rightarrow> vm_identifier_table_row option outcome" where
  \<comment> \<open>the body of the loop; a path of more than 40 characters is copied without its
     terminator, one of less than 4 is read past its end\<close>
  "table_row svc vm =
     (case vm_name_of svc vm of
        None \<Rightarrow> Ok None
      | Some name \<Rightarrow>
          if length vm > VM_PATH_LEN \<or> length vm < VM_PATH_UUID_PREFIX_LEN then Crash Buffer_Overflow
          else Ok (Some \<lparr>vm_uuid = uuid_of_path vm, vm_name = name, vm_path = vm\<rparr>))"

fun table_rows :: "xenmgr \<Rightarrow> string list \<Rightarrow> vm_identifier_table_row list option outcome" where
  "table_rows svc [] = Ok (Some [])"
| "table_rows svc (vm # vms) =
     obind (table_row svc vm) (\<lambda>r.
       case r of
         None \<Rightarrow> Ok None
       | Some row \<Rightarrow> omap (map_option (Cons row)) (table_rows svc vms))"

definition new_vm_identifier_table ::
  "xenmgr \<Rightarrow> string list option \<Rightarrow> vm_identifier_table_row list option outcome" where
  "new_vm_identifier_table svc vm_list =
     (case vm_list of None \<Rightarrow> Ok None | Some vms \<Rightarrow> table_rows svc vms)"

definition populate_vm_identifier_table :: "xenmgr \<Rightarrow> vm_identifier_table_row list option outcome" where
  "populate_vm_identifier_table svc =
     (case list_vms svc of
        None \<Rightarrow> Crash Indeterminate_Value
      | Some vms \<Rightarrow> new_vm_identifier_table svc (Some vms))"

definition non_empty :: "string \<Rightarrow> string option" where
  "non_empty t = (if t = [] then None else Some t)"

definition clone_vmid_table_row :: "vm_identifier_table_row \<Rightarrow> vmid" where
  "clone_vmid_table_row r =
     \<lparr>vmid_uuid = non_empty (vm_uuid r), vmid_name = non_empty (vm_name r), vmid_path = non_empty (vm_path r)\<rparr>"

definition search_table ::
  "(vm_identifier_table_row \<Rightarrow> string) \<Rightarrow> xenmgr \<Rightarrow> string \<Rightarrow> vm_identifier_table_row list option \<Rightarrow>
   (vmid option \<times> vm_identifier_table_row list option) outcome" where
  \<comment> \<open>the common body of the three searches, by the member compared\<close>
  "search_table key svc k tab =
     omap (\<lambda>tab. (case tab of
         None \<Rightarrow> None
       | Some rows \<Rightarrow> map_option clone_vmid_table_row (find_first (\<lambda>r. key r = k) rows), tab))
       (if tab = None then populate_vm_identifier_table svc else Ok tab)"

definition new_vmid_search_result_by_name ::
  "xenmgr \<Rightarrow> string \<Rightarrow> vm_identifier_table_row list option \<Rightarrow>
   (vmid option \<times> vm_identifier_table_row list option) outcome" where
  "new_vmid_search_result_by_name = search_table vm_name"

definition new_vmid_search_result_by_uuid ::
  "xenmgr \<Rightarrow> string \<Rightarrow> vm_identifier_table_row list option \<Rightarrow>
   (vmid option \<times> vm_identifier_table_row list option) outcome" where
  "new_vmid_search_result_by_uuid = search_table vm_uuid"

definition new_vmid_search_result_by_path ::
  "xenmgr \<Rightarrow> string \<Rightarrow> vm_identifier_table_row list option \<Rightarrow>
   (vmid option \<times> vm_identifier_table_row list option) outcome" where
  "new_vmid_search_result_by_path = search_table vm_path"

subsection \<open>Properties\<close>

text \<open>The paths xenmgr hands out: \<open>/vm/\<close> and a UUID written with underscores.\<close>

definition hyphenate :: "string \<Rightarrow> string" where
  "hyphenate u = u[8 := CHR ''-'', 13 := CHR ''-'', 18 := CHR ''-'', 23 := CHR ''-'']"

definition vm_path_ok :: "string \<Rightarrow> bool" where
  "vm_path_ok p \<longleftrightarrow> length p = VM_PATH_LEN \<and> CHR 0x00 \<notin> set p"

lemma uuid_of_vm_path:
  assumes "vm_path_ok p"
  shows "uuid_of_path p = hyphenate (drop 4 p)"
proof -
  let ?u = "drop 4 p" and ?z = "[CHR 0x00] :: string"
  have len: "length ?u = 36" using assms by (simp add: vm_path_ok_def)
  have "take 37 (?u @ replicate 37 (CHR 0x00)) = ?u @ ?z" using len by (simp add: numeral_eq_Suc)
  then have "uuid_of_path p = takeWhile (\<lambda>c. c \<noteq> CHR 0x00) (hyphenate ?u @ ?z)"
    using len by (simp add: uuid_of_path_def hyphenate_def list_update_append)
  moreover have "CHR 0x00 \<notin> set (hyphenate ?u)"
  proof -
    have "CHR 0x00 \<notin> set ?u" using assms by (auto simp: vm_path_ok_def dest: in_set_dropD)
    then show ?thesis by (auto simp: hyphenate_def dest!: subsetD [OF set_update_subset_insert])
  qed
  ultimately show ?thesis by (auto simp: takeWhile_append)
qed

lemma table_rows_run:
  assumes "\<forall>p \<in> set vms. vm_path_ok p \<and> vm_name_of svc p \<noteq> None"
  shows "table_rows svc vms = Ok (Some (map (\<lambda>p.
    \<lparr>vm_uuid = hyphenate (drop 4 p), vm_name = the (vm_name_of svc p), vm_path = p\<rparr>) vms))"
  using assms
proof (induction vms)
  case (Cons p vms)
  then have "table_row svc p = Ok (Some \<lparr>vm_uuid = hyphenate (drop 4 p), vm_name = the (vm_name_of svc p), vm_path = p\<rparr>)"
    by (auto simp: table_row_def uuid_of_vm_path) (auto simp: vm_path_ok_def)
  with Cons show ?case by simp
qed simp

end
