(* ===== verification/Vm_Events.thy ===== *)
theory Vm_Events
  imports Condition_Modules Vm_Utils
begin

text \<open>
  The module of virtual machine events (\<open>vm-events-module.c\<close>): six stateless events with
  the path of the machine as value, eighteen condition types, the checkers, and the handler of
  xenmgr's \<open>vm_state_changed\<close> signal. A search that finds no table fetches one; the
  fetched table is the module's own state, which the engine does not see, so the checkers
  below take the table that is there when the event is handled.
\<close>

subsection \<open>Tables\<close>

abbreviation (input) EVENT_VM_CREATING :: nat where "EVENT_VM_CREATING \<equiv> 0"
abbreviation (input) EVENT_VM_STOPPING :: nat where "EVENT_VM_STOPPING \<equiv> 1"
abbreviation (input) EVENT_VM_REBOOTING :: nat where "EVENT_VM_REBOOTING \<equiv> 2"
abbreviation (input) EVENT_VM_RUNNING :: nat where "EVENT_VM_RUNNING \<equiv> 3"
abbreviation (input) EVENT_VM_STOPPED :: nat where "EVENT_VM_STOPPED \<equiv> 4"
abbreviation (input) EVENT_VM_PAUSED :: nat where "EVENT_VM_PAUSED \<equiv> 5"

definition vm_event_data :: "event_data_row list" where
  "vm_event_data =
    [event_row ''event_vm_creating'' True ARG_STR (Arg_Str []) EVENT_VM_CREATING,
     event_row ''event_vm_stopping'' True ARG_STR (Arg_Str []) EVENT_VM_STOPPING,
     event_row ''event_vm_rebooting'' True ARG_STR (Arg_Str []) EVENT_VM_REBOOTING,
     event_row ''event_vm_running'' True ARG_STR (Arg_Str []) EVENT_VM_RUNNING,
     event_row ''event_vm_stopped'' True ARG_STR (Arg_Str []) EVENT_VM_STOPPED,
     event_row ''event_vm_paused'' True ARG_STR (Arg_Str []) EVENT_VM_PAUSED]"

definition vm_condition_data :: "cond_table_row list" where
  "vm_condition_data =
    [cond_row ''whenAnyVmCreating'' ''any_vm_creating'' ''n'' ''void'' EVENT_VM_CREATING,
     cond_row ''whenAnyVmStopping'' ''any_vm_stopping'' ''n'' ''void'' EVENT_VM_STOPPING,
     cond_row ''whenAnyVmRebooting'' ''any_vm_rebooting'' ''n'' ''void'' EVENT_VM_REBOOTING,
     cond_row ''whenAnyVmRunning'' ''any_vm_running'' ''n'' ''void'' EVENT_VM_RUNNING,
     cond_row ''whenAnyVmStopped'' ''any_vm_stopped'' ''n'' ''void'' EVENT_VM_STOPPED,
     cond_row ''whenAnyVmPaused'' ''any_vm_paused'' ''n'' ''void'' EVENT_VM_PAUSED,
     cond_row ''whenVmUuidCreating'' ''vm_with_uuid_creating'' ''s'' ''string uuid'' EVENT_VM_CREATING,
     cond_row ''whenVmUuidStopping'' ''vm_with_uuid_stopping'' ''s'' ''string uuid'' EVENT_VM_STOPPING,
     cond_row ''whenVmUuidRebooting'' ''vm_with_uuid_rebooting'' ''s'' ''string uuid'' EVENT_VM_REBOOTING,
     cond_row ''whenVmUuidRunning'' ''vm_with_uuid_running'' ''s'' ''string uuid'' EVENT_VM_RUNNING,
     cond_row ''whenVmUuidStopped'' ''vm_with_uuid_stopped'' ''s'' ''string uuid'' EVENT_VM_STOPPED,
     cond_row ''whenVmUuidPaused'' ''vm_with_uuid_paused'' ''s'' ''string uuid'' EVENT_VM_PAUSED,
     cond_row ''whenVmCreating'' ''vm_with_name_creating'' ''s'' ''string name'' EVENT_VM_CREATING,
     cond_row ''whenVmStopping'' ''vm_with_name_stopping'' ''s'' ''string name'' EVENT_VM_STOPPING,
     cond_row ''whenVmRebooting'' ''vm_with_name_rebooting'' ''s'' ''string name'' EVENT_VM_REBOOTING,
     cond_row ''whenVmRunning'' ''vm_with_name_running'' ''s'' ''string name'' EVENT_VM_RUNNING,
     cond_row ''whenVmStopped'' ''vm_with_name_stopped'' ''s'' ''string name'' EVENT_VM_STOPPED,
     cond_row ''whenVmPaused'' ''vm_with_name_paused'' ''s'' ''string name'' EVENT_VM_PAUSED]"

definition vm_init_module :: "'d xstate \<Rightarrow> nat list \<times> 'd xstate" where
  \<comment> \<open>the filter for the signal is registered with the bus afterwards\<close>
  "vm_init_module = init_module vm_event_data vm_condition_data"

subsection \<open>Checkers\<close>

type_synonym vm_table = "vm_identifier_table_row list option"
type_synonym 'd vm_checker = "ev_wrapper \<Rightarrow> arg list \<Rightarrow> 'd xstate \<Rightarrow> (bool \<times> 'd xstate) outcome"

definition any_vm :: "'d vm_checker" where
  "any_vm e args s = Ok (True, s)"

definition any_vm_creating :: "'d vm_checker" where "any_vm_creating = any_vm"
definition any_vm_stopping :: "'d vm_checker" where "any_vm_stopping = any_vm"
definition any_vm_rebooting :: "'d vm_checker" where "any_vm_rebooting = any_vm"
definition any_vm_running :: "'d vm_checker" where "any_vm_running = any_vm"
definition any_vm_stopped :: "'d vm_checker" where "any_vm_stopped = any_vm"
definition any_vm_paused :: "'d vm_checker" where "any_vm_paused = any_vm"

definition vm_with ::
  "(xenmgr \<Rightarrow> string \<Rightarrow> vm_table \<Rightarrow> (vmid option \<times> vm_table) outcome) \<Rightarrow>
   'd env \<Rightarrow> 'd xstate parser_ops \<Rightarrow> xenmgr \<Rightarrow> vm_table \<Rightarrow> 'd vm_checker" where
  \<comment> \<open>the common body of the twelve other checkers, by the search used\<close>
  "vm_with search env ops svc tab e args s =
     obind (read_arg env ops value_str args 0 s) (\<lambda>(k, s).
       obind (search svc k tab) (\<lambda>(vmid, _).
         case vmid of
           None \<Rightarrow> Ok (False, s)
         | Some v \<Rightarrow>
             (case vmid_path v of
                None \<Rightarrow> Ok (False, s)
              | Some p \<Rightarrow> omap (\<lambda>t. (t = p, s)) (value_str (ev_value e)))))"

definition vm_with_uuid_creating :: "'d env \<Rightarrow> 'd xstate parser_ops \<Rightarrow> xenmgr \<Rightarrow> vm_table \<Rightarrow> 'd vm_checker" where
  "vm_with_uuid_creating = vm_with new_vmid_search_result_by_uuid"
definition vm_with_uuid_stopping :: "'d env \<Rightarrow> 'd xstate parser_ops \<Rightarrow> xenmgr \<Rightarrow> vm_table \<Rightarrow> 'd vm_checker" where
  "vm_with_uuid_stopping = vm_with new_vmid_search_result_by_uuid"
definition vm_with_uuid_rebooting :: "'d env \<Rightarrow> 'd xstate parser_ops \<Rightarrow> xenmgr \<Rightarrow> vm_table \<Rightarrow> 'd vm_checker" where
  "vm_with_uuid_rebooting = vm_with new_vmid_search_result_by_uuid"
definition vm_with_uuid_running :: "'d env \<Rightarrow> 'd xstate parser_ops \<Rightarrow> xenmgr \<Rightarrow> vm_table \<Rightarrow> 'd vm_checker" where
  "vm_with_uuid_running = vm_with new_vmid_search_result_by_uuid"
definition vm_with_uuid_stopped :: "'d env \<Rightarrow> 'd xstate parser_ops \<Rightarrow> xenmgr \<Rightarrow> vm_table \<Rightarrow> 'd vm_checker" where
  "vm_with_uuid_stopped = vm_with new_vmid_search_result_by_uuid"
definition vm_with_uuid_paused :: "'d env \<Rightarrow> 'd xstate parser_ops \<Rightarrow> xenmgr \<Rightarrow> vm_table \<Rightarrow> 'd vm_checker" where
  "vm_with_uuid_paused = vm_with new_vmid_search_result_by_uuid"
definition vm_with_name_creating :: "'d env \<Rightarrow> 'd xstate parser_ops \<Rightarrow> xenmgr \<Rightarrow> vm_table \<Rightarrow> 'd vm_checker" where
  "vm_with_name_creating = vm_with new_vmid_search_result_by_name"
definition vm_with_name_stopping :: "'d env \<Rightarrow> 'd xstate parser_ops \<Rightarrow> xenmgr \<Rightarrow> vm_table \<Rightarrow> 'd vm_checker" where
  "vm_with_name_stopping = vm_with new_vmid_search_result_by_name"
definition vm_with_name_rebooting :: "'d env \<Rightarrow> 'd xstate parser_ops \<Rightarrow> xenmgr \<Rightarrow> vm_table \<Rightarrow> 'd vm_checker" where
  "vm_with_name_rebooting = vm_with new_vmid_search_result_by_name"
definition vm_with_name_running :: "'d env \<Rightarrow> 'd xstate parser_ops \<Rightarrow> xenmgr \<Rightarrow> vm_table \<Rightarrow> 'd vm_checker" where
  "vm_with_name_running = vm_with new_vmid_search_result_by_name"
definition vm_with_name_stopped :: "'d env \<Rightarrow> 'd xstate parser_ops \<Rightarrow> xenmgr \<Rightarrow> vm_table \<Rightarrow> 'd vm_checker" where
  "vm_with_name_stopped = vm_with new_vmid_search_result_by_name"
definition vm_with_name_paused :: "'d env \<Rightarrow> 'd xstate parser_ops \<Rightarrow> xenmgr \<Rightarrow> vm_table \<Rightarrow> 'd vm_checker" where
  "vm_with_name_paused = vm_with new_vmid_search_result_by_name"

definition vm_functions ::
  "'d env \<Rightarrow> 'd xstate parser_ops \<Rightarrow> xenmgr \<Rightarrow> vm_table \<Rightarrow> (string \<times> 'd vm_checker) list" where
  "vm_functions env ops svc tab =
    [(''any_vm_creating'', any_vm_creating),
     (''any_vm_stopping'', any_vm_stopping),
     (''any_vm_rebooting'', any_vm_rebooting),
     (''any_vm_running'', any_vm_running),
     (''any_vm_stopped'', any_vm_stopped),
     (''any_vm_paused'', any_vm_paused),
     (''vm_with_uuid_creating'', vm_with_uuid_creating env ops svc tab),
     (''vm_with_uuid_stopping'', vm_with_uuid_stopping env ops svc tab),
     (''vm_with_uuid_rebooting'', vm_with_uuid_rebooting env ops svc tab),
     (''vm_with_uuid_running'', vm_with_uuid_running env ops svc tab),
     (''vm_with_uuid_stopped'', vm_with_uuid_stopped env ops svc tab),
     (''vm_with_uuid_paused'', vm_with_uuid_paused env ops svc tab),
     (''vm_with_name_creating'', vm_with_name_creating env ops svc tab),
     (''vm_with_name_stopping'', vm_with_name_stopping env ops svc tab),
     (''vm_with_name_rebooting'', vm_with_name_rebooting env ops svc tab),
     (''vm_with_name_running'', vm_with_name_running env ops svc tab),
     (''vm_with_name_stopped'', vm_with_name_stopped env ops svc tab),
     (''vm_with_name_paused'', vm_with_name_paused env ops svc tab)]"

definition vm_check ::
  "'d env \<Rightarrow> 'd xstate parser_ops \<Rightarrow> xenmgr \<Rightarrow> vm_table \<Rightarrow> string \<Rightarrow> 'd vm_checker" where
  "vm_check env ops svc tab f =
     (case map_of (vm_functions env ops svc tab) f of Some g \<Rightarrow> g | None \<Rightarrow> (\<lambda>_ _ _. Crash Null_Deref))"

subsection \<open>The signal\<close>

definition vm_event_of :: "string \<Rightarrow> int \<Rightarrow> nat option" where
  \<comment> \<open>the event a reported state stands for\<close>
  "vm_event_of vm_state acpi_state =
     (if vm_state = ''creating'' \<and> acpi_state = 5 then Some EVENT_VM_CREATING
      else if vm_state = ''stopping'' \<and> acpi_state = 0 then Some EVENT_VM_STOPPING
      else if vm_state = ''rebooting'' then Some EVENT_VM_REBOOTING
      else if vm_state = ''running'' then Some EVENT_VM_RUNNING
      else if vm_state = ''stopped'' then Some EVENT_VM_STOPPED
      else if vm_state = ''paused'' then Some EVENT_VM_PAUSED
      else None)"

definition vm_state_changed ::
  "'d env \<Rightarrow> (vm_table \<Rightarrow> 'd checker) \<Rightarrow> xenmgr \<Rightarrow> nat list \<Rightarrow> (string \<times> string \<times> int) option \<Rightarrow>
   vm_table \<times> 'd xstate \<Rightarrow> (vm_table \<times> 'd xstate) outcome" where
  \<comment> \<open>\<open>None\<close> is a message whose arguments do not decode; a decoded UUID is never null\<close>
  "vm_state_changed env chk svc events_tab msg = (\<lambda>(tab, s).
     case msg of
       None \<Rightarrow> Ok (tab, s)
     | Some (uuid, vm_state, acpi_state) \<Rightarrow>
         (case vm_event_of vm_state acpi_state of
            None \<Rightarrow> Ok (tab, s)
          | Some k \<Rightarrow>
              obind (new_vmid_search_result_by_uuid svc uuid tab) (\<lambda>(vmid, tab).
                case Option.bind vmid vmid_path of
                  None \<Rightarrow> Ok (tab, s)
                | Some path \<Rightarrow>
                    obind (store_event (events_tab ! k) (Arg_Str path) s) (\<lambda>s.
                      omap (\<lambda>s. (tab, s)) (handle_events env (chk tab) (events_tab ! k) s)))))"

subsection \<open>What the conditions mean\<close>

definition found_at :: "(vm_identifier_table_row \<Rightarrow> string) \<Rightarrow> vm_identifier_table_row list \<Rightarrow> arg \<Rightarrow> arg list \<Rightarrow> bool" where
  \<comment> \<open>the event's value is the path of the first row whose member is the argument\<close>
  "found_at key rows v args \<longleftrightarrow>
     (case args of
        [Arg_Str k] \<Rightarrow>
          (case find_first (\<lambda>r. key r = k) rows of
             None \<Rightarrow> False
           | Some r \<Rightarrow> vm_path r \<noteq> [] \<and> v = Arg_Str (vm_path r))
      | _ \<Rightarrow> False)"

definition vm_meaning :: "vm_identifier_table_row list \<Rightarrow> string \<Rightarrow> arg \<Rightarrow> arg list \<Rightarrow> bool" where
  "vm_meaning rows f =
     (if take 6 f = ''any_vm'' then (\<lambda>_ _. True)
      else if take 12 f = ''vm_with_uuid'' then found_at vm_uuid rows
      else found_at vm_name rows)"

lemma str_valued: "arg_type_of v = ARG_STR \<longleftrightarrow> (\<exists>t. v = Arg_Str t)"
  by (cases v) simp_all

lemma vm_row_cases:
  assumes "row \<in> set vm_condition_data"
  obtains (any) "vm_check env ops svc tab (cr_func row) = any_vm" "vm_meaning rows (cr_func row) = (\<lambda>_ _. True)"
    | (uuid) "vm_check env ops svc tab (cr_func row) = vm_with (search_table vm_uuid) env ops svc tab"
        "vm_meaning rows (cr_func row) = found_at vm_uuid rows" "cr_prototype row = ''s''"
    | (name) "vm_check env ops svc tab (cr_func row) = vm_with (search_table vm_name) env ops svc tab"
        "vm_meaning rows (cr_func row) = found_at vm_name rows" "cr_prototype row = ''s''"
  using assms unfolding vm_condition_data_def set_simps insert_iff empty_iff
  by (elim disjE)
    (simp_all add: cond_row_def vm_check_def vm_functions_def vm_meaning_def any_vm_creating_def any_vm_stopping_def
      any_vm_rebooting_def any_vm_running_def any_vm_stopped_def any_vm_paused_def vm_with_uuid_creating_def
      vm_with_uuid_stopping_def vm_with_uuid_rebooting_def vm_with_uuid_running_def vm_with_uuid_stopped_def
      vm_with_uuid_paused_def vm_with_name_creating_def vm_with_name_stopping_def vm_with_name_rebooting_def
      vm_with_name_running_def vm_with_name_stopped_def vm_with_name_paused_def new_vmid_search_result_by_uuid_def
      new_vmid_search_result_by_name_def)

lemma vm_row_event:
  "row \<in> set vm_condition_data \<Longrightarrow> cr_event row < length vm_event_data \<and> er_type (vm_event_data ! cr_event row) = ARG_STR"
  unfolding vm_condition_data_def set_simps insert_iff empty_iff
  by (elim disjE) (simp_all add: cond_row_def vm_event_data_def event_row_def)

lemma vm_with_run:
  assumes "signature (map (arg_kind s) args) = ''s''" and "all_cached (arg_vars args) s" and "arg_type_of (ev_value e) = ARG_STR"
  shows "vm_with (search_table key) env ops svc (Some rows) e args s =
    Ok (found_at key rows (ev_value e) (map (arg_value s) args), s)"
proof -
  obtain a where a: "args = [a]" "arg_type_of (arg_value s a) = ARG_STR"
      "read_arg env ops value_str args 0 s = omap (\<lambda>v. (v, s)) (value_str (arg_value s a))"
    using read_arg_typed [of s args ARG_STR env ops value_str] assms(1,2) by auto
  then obtain k where k: "arg_value s a = Arg_Str k" by (auto simp: str_valued)
  obtain t where "ev_value e = Arg_Str t" using assms(3) by (auto simp: str_valued)
  with a k show ?thesis
    by (auto simp: vm_with_def search_table_def found_at_def value_str_def clone_vmid_table_row_def non_empty_def
        split: option.split)
qed

interpretation vm: condition_module vm_event_data vm_condition_data
  "vm_check env ops svc (Some rows)" "vm_meaning rows"
proof
  fix row :: cond_table_row and e :: ev_wrapper and args and s :: "'a xstate"
  assume row: "row \<in> set vm_condition_data"
    and v: "arg_type_of (ev_value e) = er_type (vm_event_data ! cr_event row)"
    and vars: "all_cached (arg_vars args) s" and sig: "signature (map (arg_kind s) args) = cr_prototype row"
  have str: "arg_type_of (ev_value e) = ARG_STR" using v vm_row_event [OF row] by simp
  from row show "vm_check env ops svc (Some rows) (cr_func row) e args s =
      Ok (vm_meaning rows (cr_func row) (ev_value e) (map (arg_value s) args), s)"
    by (cases rule: vm_row_cases [of row env ops svc "Some rows" rows])
      (use sig vars str vm_with_run in \<open>simp_all add: any_vm_def\<close>)
qed (use vm_row_event in blast)

end
