(* ===== verification/Event_System.thy ===== *)
theory Event_System
  imports Acpi_Events Vm_Events Parser_System
begin

text \<open>
  The policy engine with its modules and event sources: calls of checkers through the
  registered function pointers, the invariant of the running daemon, and that every message,
  key and signal is handled without undefined behaviour and keeps it.
\<close>

subsection \<open>Calling a checker\<close>

definition module_check ::
  "'d env \<Rightarrow> 'd xstate parser_ops \<Rightarrow> sysfs \<Rightarrow> xenmgr \<Rightarrow> vm_table \<Rightarrow> 'd sys_checker" where
  \<comment> \<open>\<open>type->check(event, args)\<close> with the two modules that provide conditions loaded\<close>
  "module_check env ops sys svc tab b f ev args s =
     (if ev < length (events s) then
        (if map_of (acpi_functions env ops sys b) f \<noteq> None
         then acpi_check env ops sys b f (events s ! ev) args s
         else vm_check env ops svc tab f (events s ! ev) args s)
      else Crash Null_Deref)"

lemma acpi_row_function:
  "row \<in> set acpi_condition_data \<Longrightarrow> map_of (acpi_functions env ops sys b) (cr_func row) \<noteq> None"
  unfolding acpi_condition_data_def set_simps insert_iff empty_iff
  by (elim disjE) (simp_all add: cond_row_def acpi_functions_def)

lemma vm_row_no_acpi_function:
  "row \<in> set vm_condition_data \<Longrightarrow> map_of (acpi_functions env ops sys b) (cr_func row) = None"
  unfolding vm_condition_data_def set_simps insert_iff empty_iff
  by (elim disjE) (simp_all add: cond_row_def acpi_functions_def)

subsection \<open>The invariant\<close>

definition registered :: "nat list \<Rightarrow> nat list \<Rightarrow> 'd xstate \<Rightarrow> bool" where
  \<comment> \<open>both modules are loaded: their events are distinct, all condition types are theirs\<close>
  "registered tabA tabV s \<longleftrightarrow>
     set (condition_types s) \<subseteq> of_row tabA ` set acpi_condition_data \<union> of_row tabV ` set vm_condition_data \<and>
     events_typed acpi_event_data tabA s \<and> events_typed vm_event_data tabV s \<and> distinct (tabA @ tabV)"

definition engine_inv :: "'d env \<Rightarrow> nat list \<Rightarrow> nat list \<Rightarrow> 'd xstate \<Rightarrow> bool" where
  "engine_inv env tabA tabV s \<longleftrightarrow> policy_ok env (registry s) s \<and> registered tabA tabV s"

lemma engine_invD:
  assumes "engine_inv env tabA tabV s"
  shows "engine_ok s" "well_typed s" "all_settled env s" "at_rest s" "db_laws env" "registered tabA tabV s"
    "vars_distinct s"
  using assms by (auto simp: engine_inv_def policy_ok_def)

lemma engine_invI:
  "engine_ok s \<Longrightarrow> well_typed s \<Longrightarrow> all_settled env s \<Longrightarrow> at_rest s \<Longrightarrow> db_laws env \<Longrightarrow> registered tabA tabV s \<Longrightarrow>
   vars_distinct s \<Longrightarrow> engine_inv env tabA tabV s"
  by (simp add: engine_inv_def policy_ok_def)

lemma events_typed_nth:
  assumes "events_typed evs table s" and "i < length evs"
  shows "table ! i < length (events s)"
    "arg_type_of (ev_value (events s ! (table ! i))) = er_type (evs ! i)" "table ! i \<in> set table"
    "arg_type_of (reset_value (events s ! (table ! i))) = er_type (evs ! i)"
  using assms by (simp_all add: events_typed_def)

lemma registered_condition:
  assumes reg: "registered tabA tabV s" and typed: "well_typed s" and x: "cond_heap s c = Some x"
  shows "ct_event (c_type x) \<in> set tabA \<Longrightarrow> \<exists>row \<in> set acpi_condition_data. c_type x = of_row tabA row"
    and "ct_event (c_type x) \<in> set tabV \<Longrightarrow> \<exists>row \<in> set vm_condition_data. c_type x = of_row tabV row"
proof -
  have "c_type x \<in> set (condition_types s)" using typed x by (auto simp: well_typed_def typed_condition_def)
  then have row: "c_type x \<in> of_row tabA ` set acpi_condition_data \<union> of_row tabV ` set vm_condition_data"
    using reg by (auto simp: registered_def)
  have len: "length tabA = length acpi_event_data" "length tabV = length vm_event_data" "set tabA \<inter> set tabV = {}"
    using reg by (auto simp: registered_def events_typed_def)
  have "ct_event (of_row tabA row) \<in> set tabA" if "row \<in> set acpi_condition_data" for row
    using acpi.row_event [OF that] len by (simp add: of_row_def)
  moreover have "ct_event (of_row tabV row) \<in> set tabV" if "row \<in> set vm_condition_data" for row
    using vm.row_event [OF that] len by (simp add: of_row_def)
  ultimately show "ct_event (c_type x) \<in> set tabA \<Longrightarrow> \<exists>row \<in> set acpi_condition_data. c_type x = of_row tabA row"
    "ct_event (c_type x) \<in> set tabV \<Longrightarrow> \<exists>row \<in> set vm_condition_data. c_type x = of_row tabV row"
    using row len(3) by (metis (no_types, lifting) Un_iff imageE disjoint_iff)+
qed

text \<open>The checkers that the conditions of an event can reach are pure.\<close>

definition meaning_in :: "'d xstate \<Rightarrow> (string \<Rightarrow> arg \<Rightarrow> arg list \<Rightarrow> bool) \<Rightarrow> string \<Rightarrow> arg \<Rightarrow> arg list \<Rightarrow> bool" where
  "meaning_in s m f v args = m f v (map (arg_value s) args)"

lemma acpi_pure:
  assumes ok: "engine_ok s" "well_typed s" "registered tabA tabV s" and ev: "ev \<in> set tabA"
  shows "pure_checker (module_check env ops sys svc tab (live_bats ps)) (meaning_in s (acpi_meaning sys (live_bats ps))) ev s"
  unfolding pure_checker_def
proof (intro allI impI, elim conjE)
  fix c x and t :: "'a xstate"
  assume x: "cond_heap s c = Some x" and x_ev: "ct_event (c_type x) = ev" and same: "events t = events s" "db_vars t = db_vars s"
  obtain row where row: "row \<in> set acpi_condition_data" "c_type x = of_row tabA row"
    using registered_condition(1) [OF ok(3,2) x] x_ev ev by blast
  have evt: "events_typed acpi_event_data tabA s" using ok(3) by (simp add: registered_def)
  have "ev < length (events t)"
    using ev evt same(1) by (auto simp: in_set_conv_nth events_typed_def)
  moreover have "map_of (acpi_functions env ops sys (live_bats ps)) (ct_check (c_type x)) \<noteq> None"
    using acpi_row_function [OF row(1)] row(2) by (simp add: of_row_def)
  ultimately show "module_check env ops sys svc tab (live_bats ps) (ct_check (c_type x)) ev (c_args x) t =
      Ok (meaning_in s (acpi_meaning sys (live_bats ps)) (ct_check (c_type x)) (ev_value (events s ! ev)) (c_args x), t)"
    using acpi.check_condition_of_row [OF row evt ok(1,2) x same] x_ev
    by (simp add: module_check_def meaning_in_def)
qed

lemma vm_pure:
  assumes ok: "engine_ok s" "well_typed s" "registered tabA tabV s" and ev: "ev \<in> set tabV"
  shows "pure_checker (module_check env ops sys svc (Some rows) b) (meaning_in s (vm_meaning rows)) ev s"
  unfolding pure_checker_def
proof (intro allI impI, elim conjE)
  fix c x and t :: "'a xstate"
  assume x: "cond_heap s c = Some x" and x_ev: "ct_event (c_type x) = ev" and same: "events t = events s" "db_vars t = db_vars s"
  obtain row where row: "row \<in> set vm_condition_data" "c_type x = of_row tabV row"
    using registered_condition(2) [OF ok(3,2) x] x_ev ev by blast
  have evt: "events_typed vm_event_data tabV s" using ok(3) by (simp add: registered_def)
  have "ev < length (events t)"
    using ev evt same(1) by (auto simp: in_set_conv_nth events_typed_def)
  moreover have "map_of (acpi_functions env ops sys b) (ct_check (c_type x)) = None"
    using vm_row_no_acpi_function [OF row(1)] row(2) by (simp add: of_row_def)
  ultimately show "module_check env ops sys svc (Some rows) b (ct_check (c_type x)) ev (c_args x) t =
      Ok (meaning_in s (vm_meaning rows) (ct_check (c_type x)) (ev_value (events s ! ev)) (c_args x), t)"
    using vm.check_condition_of_row [OF row evt ok(1,2) x same] x_ev
    by (simp add: module_check_def meaning_in_def)
qed


subsection \<open>What keeps the invariant\<close>

lemma same_shape_well_typed:
  assumes "same_shape s t" and "well_typed s" and "engine_ok s"
  shows "well_typed t"
proof (rule well_typed_step [OF assms(2,3)])
  fix c x
  assume "cond_heap t c = Some x"
  then show "(\<exists>y. cond_heap s c = Some y \<and> c_type x = c_type y \<and> c_args x = c_args y) \<or> typed_condition t x"
    by (metis same_shape_cond [OF assms(1)])
next
  fix r x a
  assume "rule_heap t r = Some x" "a \<in> set (actions x @ undos x)"
  then show "(\<exists>y. rule_heap s r = Some y \<and> a \<in> set (actions y @ undos y)) \<or> typed_action t a"
    by (metis same_shape_rule [OF assms(1)])
qed (use assms(1) in \<open>simp_all add: same_shape_def var_type_def cached_var_def\<close>)

lemma same_shape_settled: "same_shape s t \<Longrightarrow> all_settled env t = all_settled env s"
  by (intro all_settled_frame) (simp_all add: same_shape_def)

lemma shape_store:
  assumes "ev < length (events s)"
  shows "same_shape s (s\<lparr>events := (events s)[ev := (events s ! ev)\<lparr>ev_value := v\<rparr>]\<rparr>)"
  using assms by (simp add: same_shape_def map_update list_update_same_conv)

lemma events_typed_step:
  assumes "events_typed evs table s" and "length (events t) = length (events s)"
    and "\<And>i. i < length (events s) \<Longrightarrow> is_stateless (events t ! i) = is_stateless (events s ! i) \<and>
      arg_type_of (ev_value (events t ! i)) = arg_type_of (ev_value (events s ! i)) \<and>
      reset_value (events t ! i) = reset_value (events s ! i)"
  shows "events_typed evs table t"
  using assms by (simp add: events_typed_def)

lemma registered_step:
  assumes "registered tabA tabV s" and "condition_types t = condition_types s"
    and "length (events t) = length (events s)"
    and "\<And>i. i < length (events s) \<Longrightarrow> is_stateless (events t ! i) = is_stateless (events s ! i) \<and>
      arg_type_of (ev_value (events t ! i)) = arg_type_of (ev_value (events s ! i)) \<and>
      reset_value (events t ! i) = reset_value (events s ! i)"
  shows "registered tabA tabV t"
  using assms(1,2) events_typed_step [OF _ assms(3,4)] by (simp add: registered_def)

lemma store_event_inv:
  assumes inv: "engine_inv env tabA tabV s" and ev: "ev < length (events s)"
    and v: "arg_type_of v = arg_type_of (ev_value (events s ! ev))"
  shows "\<exists>s'. store_event ev v s = Ok s' \<and> engine_inv env tabA tabV s' \<and> same_shape s s' \<and>
    events s' = (events s)[ev := (events s ! ev)\<lparr>ev_value := v\<rparr>] \<and> effects s' = effects s \<and>
    cond_heap s' = cond_heap s \<and> rule_heap s' = rule_heap s \<and> rules s' = rules s"
proof -
  let ?s = "s\<lparr>events := (events s)[ev := (events s ! ev)\<lparr>ev_value := v\<rparr>]\<rparr>"
  note ok = engine_invD [OF inv]
  note sh = shape_store [OF ev, of v]
  have "is_stateless (events ?s ! i) = is_stateless (events s ! i)" for i
    using ev by (cases "i = ev") simp_all
  then have "at_rest ?s" using ok(4) by (simp add: at_rest_def active_def all_true_def)
  moreover have "registered tabA tabV ?s"
    using ok(6) by (rule registered_step) (use v ev in \<open>auto simp: nth_list_update\<close>)
  ultimately have "engine_inv env tabA tabV ?s"
    using ok same_shape_engine_ok [OF sh] same_shape_well_typed [OF sh] same_shape_settled [OF sh] by (intro engine_invI) (simp_all add: vars_distinct_def)
  then show ?thesis using ev sh by (simp add: store_event_def)
qed

lemma events_typed_reset_kind:
  assumes "registered tabA tabV s" and "ev \<in> set (tabA @ tabV)"
  shows "ev < length (events s)" and "arg_type_of (reset_value (events s ! ev)) = arg_type_of (ev_value (events s ! ev))"
  using assms by (auto simp: registered_def events_typed_def in_set_conv_nth)

lemma handle_events_inv:
  assumes inv: "engine_inv env tabA tabV s" and ev: "ev \<in> set (tabA @ tabV)" and chk: "pure_checker chk g ev s"
  shows "\<exists>s'. handle_events denv chk ev s = Ok s' \<and> engine_inv env tabA tabV s'"
proof -
  note ok = engine_invD [OF inv]
  note ev' = events_typed_reset_kind [OF ok(6) ev]
  obtain s' where s': "handle_events denv chk ev s = Ok s'" "engine_ok s'" "at_rest s'" "same_shape s s'"
      "events s' = (if is_stateless (events s ! ev) then events (reset_value_of ev s) else events s)"
    using handle_events_ok [OF ok(1,4) chk ev'(1), of denv] by auto
  have "registered tabA tabV s'"
    using ok(6)
  proof (rule registered_step)
    show "condition_types s' = condition_types s" using s'(4) by (simp add: same_shape_def)
  qed (use s'(5) ev' in \<open>auto simp: reset_value_of_def nth_list_update\<close>)
  moreover have "vars_distinct s'" using ok(7) s'(4) by (simp add: vars_distinct_def same_shape_def)
  ultimately show ?thesis
    using s' ok same_shape_well_typed [OF s'(4)] same_shape_settled [OF s'(4)] engine_invI by metis
qed


subsection \<open>The handlers of ACPI events\<close>

definition pm_inv :: "'d env \<Rightarrow> nat list \<Rightarrow> nat list \<Rightarrow> 'd pm_state \<Rightarrow> bool" where
  "pm_inv env tabA tabV st \<longleftrightarrow> engine_inv env tabA tabV (engine st) \<and> (\<exists>ps. arrays st = live_bats ps)"

definition fine :: "('s \<Rightarrow> bool) \<Rightarrow> 's outcome \<Rightarrow> bool" where
  "fine P x \<longleftrightarrow> (\<exists>st. x = Ok st \<and> P st)"

definition keeps :: "('s \<Rightarrow> bool) \<Rightarrow> ('s \<Rightarrow> 's outcome) \<Rightarrow> bool" where
  \<comment> \<open>the operation returns and keeps the invariant\<close>
  "keeps P f \<longleftrightarrow> (\<forall>st. P st \<longrightarrow> fine P (f st))"

lemma keepsD: "keeps P f \<Longrightarrow> P st \<Longrightarrow> fine P (f st)"
  by (simp add: keeps_def)

lemma fine_Ok [simp]: "fine P (Ok st) = P st"
  by (simp add: fine_def)

lemma fine_if: "(c \<Longrightarrow> fine P x) \<Longrightarrow> (\<not> c \<Longrightarrow> fine P y) \<Longrightarrow> fine P (if c then x else y)"
  by simp

lemma fine_option: "(x = None \<Longrightarrow> fine P a) \<Longrightarrow> (\<And>y. x = Some y \<Longrightarrow> fine P (f y)) \<Longrightarrow> fine P (case x of None \<Rightarrow> a | Some y \<Rightarrow> f y)"
  by (cases x) simp_all

lemma fine_prod: "(\<And>a b. x = (a, b) \<Longrightarrow> fine P (f a b)) \<Longrightarrow> fine P (case x of (a, b) \<Rightarrow> f a b)"
  by (cases x) simp

lemmas fine_cases = fine_if fine_option fine_prod

lemma keeps_ofold:
  assumes "\<And>x. x \<in> set xs \<Longrightarrow> keeps P (f x)"
  shows "keeps P (ofold f xs)"
  using assms
proof (induction xs)
  case (Cons x xs)
  then have "keeps P (f x)" "keeps P (ofold f xs)" by auto
  then show ?case unfolding keeps_def fine_def by fastforce
qed (simp add: keeps_def)

lemma pm_inv_log [simp]: "pm_inv env tabA tabV (log_ops ops st) = pm_inv env tabA tabV st"
  by (simp add: pm_inv_def log_ops_def)

lemma pm_inv_brightness [simp]: "pm_inv env tabA tabV (adjust_brightness aenv up force st) = pm_inv env tabA tabV st"
  by (simp add: adjust_brightness_def)

lemma acpi_table:
  assumes "registered tabA tabV s" and "i < length acpi_event_data"
  shows "tabA ! i \<in> set tabA" "tabA ! i < length (events s)"
    "arg_type_of (ev_value (events s ! (tabA ! i))) = er_type (acpi_event_data ! i)"
    "is_stateless (events s ! (tabA ! i)) = er_stateless (acpi_event_data ! i)"
  using assms by (simp_all add: registered_def events_typed_def)

lemma acpi_handled:
  assumes inv: "engine_inv env tabA tabV s" and i: "i < length acpi_event_data"
  shows "\<exists>s'. handle_events env (module_check env ops sys svc tab (live_bats ps)) (tabA ! i) s = Ok s' \<and> engine_inv env tabA tabV s'"
proof -
  note ok = engine_invD [OF inv]
  show ?thesis
    using handle_events_inv [OF inv _ acpi_pure [OF ok(1,2,6) acpi_table(1) [OF ok(6) i]]] acpi_table(1) [OF ok(6) i] by simp
qed

lemma raise_event_keeps:
  assumes "i < length acpi_event_data" and "arg_type_of v = er_type (acpi_event_data ! i)"
  shows "keeps (pm_inv env tabA tabV) (raise_event env (module_check env ops sys svc tab) (tabA ! i) v)"
  unfolding keeps_def
proof (intro allI impI)
  fix st
  assume inv: "pm_inv env tabA tabV st"
  then obtain ps where ps: "arrays st = live_bats ps" by (auto simp: pm_inv_def)
  have e: "engine_inv env tabA tabV (engine st)" using inv by (simp add: pm_inv_def)
  note tab = acpi_table [OF engine_invD(6) [OF e] assms(1)]
  obtain s where s: "store_event (tabA ! i) v (engine st) = Ok s" "engine_inv env tabA tabV s"
    using store_event_inv [OF e tab(2), of v] assms(2) tab(3) by auto
  obtain s' where "handle_events env (module_check env ops sys svc tab (live_bats ps)) (tabA ! i) s = Ok s'"
      "engine_inv env tabA tabV s'"
    using acpi_handled [OF s(2) assms(1)] by blast
  with s ps show "fine (pm_inv env tabA tabV) (raise_event env (module_check env ops sys svc tab) (tabA ! i) v st)"
    by (auto simp: raise_event_def pm_inv_def)
qed

lemma raise_event_returns:
  "pm_inv env tabA tabV st \<Longrightarrow> i < length acpi_event_data \<Longrightarrow> arg_type_of v = er_type (acpi_event_data ! i) \<Longrightarrow>
   fine (pm_inv env tabA tabV) (raise_event env (module_check env ops sys svc tab) (tabA ! i) v st)"
  by (rule keepsD [OF raise_event_keeps])

lemma acpi_event_length: "length acpi_event_data = 9"
  by (simp add: acpi_event_data_def)

lemma acpi_event_types:
  "er_type (acpi_event_data ! EVENT_PWR_BTN) = ARG_BOOL" "er_type (acpi_event_data ! EVENT_SLP_BTN) = ARG_BOOL"
  "er_type (acpi_event_data ! EVENT_SUSP_BTN) = ARG_BOOL" "er_type (acpi_event_data ! EVENT_BCL) = ARG_INT"
  "er_type (acpi_event_data ! EVENT_LID) = ARG_INT" "er_type (acpi_event_data ! EVENT_ON_AC) = ARG_INT"
  "er_type (acpi_event_data ! EVENT_TABLET_MODE) = ARG_INT" "er_type (acpi_event_data ! EVENT_BATT_STATUS) = ARG_INT"
  "er_type (acpi_event_data ! EVENT_BATT_INFO) = ARG_INT"
  by (simp_all add: acpi_event_data_def event_row_def)

lemmas acpi_event_facts = acpi_event_length acpi_event_types acpi_event_types [unfolded One_nat_def]

lemma handlers_keep:
  "keeps (pm_inv env tabA tabV) (handle_lid_event aenv env (module_check env ops sys svc tab) tabA status)"
  "keeps (pm_inv env tabA tabV) (handle_power_button_event env (module_check env ops sys svc tab) tabA)"
  "keeps (pm_inv env tabA tabV) (handle_sleep_button_event env (module_check env ops sys svc tab) tabA)"
  "keeps (pm_inv env tabA tabV) (handle_suspend_button_event env (module_check env ops sys svc tab) tabA)"
  "keeps (pm_inv env tabA tabV) (handle_bcl_event aenv env (module_check env ops sys svc tab) tabA cmd)"
  unfolding keeps_def handle_lid_event_def handle_power_button_event_def handle_sleep_button_event_def
    handle_suspend_button_event_def handle_bcl_event_def Let_def
  by (intro allI impI raise_event_returns; simp add: acpi_event_facts)+

lemma ac_handler_keeps:
  "keeps (pm_inv env tabA tabV) (handle_ac_adapter_event env (module_check env ops sys svc tab) tabA data)"
  unfolding keeps_def
proof (intro allI impI)
  fix st
  assume inv: "pm_inv env tabA tabV st"
  have reg: "registered tabA tabV (engine st)" using inv engine_invD(6) by (auto simp: pm_inv_def)
  have "tabA ! EVENT_ON_AC < length (events (engine (log_ops l st)))"
    "arg_type_of (store_b c (ev_value (events (engine (log_ops l st)) ! (tabA ! EVENT_ON_AC)))) = ARG_INT" for l c
    using acpi_table [OF reg, of EVENT_ON_AC] by (auto simp: acpi_event_facts log_ops_def store_b_def int_valued)
  then show "fine (pm_inv env tabA tabV) (handle_ac_adapter_event env (module_check env ops sys svc tab) tabA data st)"
    unfolding handle_ac_adapter_event_def Let_def if_P
    using raise_event_returns [OF _ _, of env tabA tabV _ EVENT_ON_AC] inv by (simp add: acpi_event_facts)
qed


lemma message_keeps:
  "keeps (pm_inv env tabA tabV) (process_acpi_message aenv env (module_check env ops sys svc tab) tabA msg)"
  unfolding keeps_def
proof (intro allI impI)
  fix st
  assume inv: "pm_inv env tabA tabV st"
  note H = handlers_keep [THEN keepsD, OF inv] ac_handler_keeps [THEN keepsD, OF inv]
  show "fine (pm_inv env tabA tabV) (process_acpi_message aenv env (module_check env ops sys svc tab) tabA msg st)"
    unfolding process_acpi_message_def Let_def handle_video_event_def handle_tablet_mode_event_def
    by (intro fine_cases H fine_Ok [THEN iffD2] inv)
qed

lemma input_keeps:
  "keeps (pm_inv env tabA tabV) (xcpmd_process_input aenv env (module_check env ops sys svc tab) tabA key)"
  unfolding keeps_def xcpmd_process_input_def
  by (intro allI impI fine_cases handlers_keep(3,5) [THEN keepsD] fine_Ok [THEN iffD2])

lemma battery_events_keep:
  "keeps (pm_inv env tabA tabV) (handle_battery_events env (module_check env ops sys svc tab) tabA)"
proof -
  let ?chk = "module_check env ops sys svc tab"
  have "keeps (pm_inv env tabA tabV) (\<lambda>st.
      obind (store_event (tabA ! EVENT_BATT_INFO) (Arg_Int (to_int32 (int i))) (engine st)) (\<lambda>s.
      obind (store_event (tabA ! EVENT_BATT_STATUS) (Arg_Int (to_int32 (int i))) s) (\<lambda>s.
      obind (handle_events env (?chk (arrays st)) (tabA ! EVENT_BATT_INFO) s) (\<lambda>s.
        omap (\<lambda>s. st\<lparr>engine := s\<rparr>) (handle_events env (?chk (arrays st)) (tabA ! EVENT_BATT_STATUS) s)))))" for i
    unfolding keeps_def
  proof (intro allI impI)
    fix st
    let ?v = "Arg_Int (to_int32 (int i))"
    assume inv: "pm_inv env tabA tabV st"
    then obtain ps where ps: "arrays st = live_bats ps" and e: "engine_inv env tabA tabV (engine st)"
      by (auto simp: pm_inv_def)
    have len: "EVENT_BATT_INFO < length acpi_event_data" "EVENT_BATT_STATUS < length acpi_event_data"
      by (simp_all add: acpi_event_facts)
    obtain s1 where s1: "store_event (tabA ! EVENT_BATT_INFO) ?v (engine st) = Ok s1" "engine_inv env tabA tabV s1"
      using store_event_inv [OF e acpi_table(2) [OF engine_invD(6) [OF e] len(1)], of ?v]
        acpi_table(3) [OF engine_invD(6) [OF e] len(1)] by (auto simp: acpi_event_facts)
    obtain s2 where s2: "store_event (tabA ! EVENT_BATT_STATUS) ?v s1 = Ok s2" "engine_inv env tabA tabV s2"
      using store_event_inv [OF s1(2) acpi_table(2) [OF engine_invD(6) [OF s1(2)] len(2)], of ?v]
        acpi_table(3) [OF engine_invD(6) [OF s1(2)] len(2)] by (auto simp: acpi_event_facts)
    obtain s3 where s3: "handle_events env (?chk (live_bats ps)) (tabA ! EVENT_BATT_INFO) s2 = Ok s3" "engine_inv env tabA tabV s3"
      using acpi_handled [OF s2(2) len(1)] by blast
    obtain s4 where s4: "handle_events env (?chk (live_bats ps)) (tabA ! EVENT_BATT_STATUS) s3 = Ok s4" "engine_inv env tabA tabV s4"
      using acpi_handled [OF s3(2) len(2)] by blast
    from s1 s2 s3 s4 ps show "fine (pm_inv env tabA tabV) (obind (store_event (tabA ! EVENT_BATT_INFO) ?v (engine st)) (\<lambda>s.
        obind (store_event (tabA ! EVENT_BATT_STATUS) ?v s) (\<lambda>s.
        obind (handle_events env (?chk (arrays st)) (tabA ! EVENT_BATT_INFO) s) (\<lambda>s.
          omap (\<lambda>s. st\<lparr>engine := s\<rparr>) (handle_events env (?chk (arrays st)) (tabA ! EVENT_BATT_STATUS) s)))))"
      by (auto simp: pm_inv_def)
  qed
  then show ?thesis
    unfolding keeps_def handle_battery_events_def by (intro allI impI keepsD [OF keeps_ofold]) (simp_all add: keeps_def)
qed

lemma vm_event_index: "vm_event_of st acpi = Some k \<Longrightarrow> k < length vm_event_data \<and> er_type (vm_event_data ! k) = ARG_STR"
  by (auto simp: vm_event_of_def vm_event_data_def event_row_def split: if_splits)

definition xenmgr_ok :: "xenmgr \<Rightarrow> bool" where
  \<comment> \<open>xenmgr answers, with paths \<open>/vm/\<close> and a UUID\<close>
  "xenmgr_ok svc \<longleftrightarrow> (\<exists>vms. list_vms svc = Some vms \<and> (\<forall>p \<in> set vms. vm_path_ok p))"

lemma table_rows_returns: "\<forall>p \<in> set vms. vm_path_ok p \<Longrightarrow> \<exists>rows. table_rows svc vms = Ok rows"
proof (induction vms)
  case (Cons p vms)
  then obtain rows where "table_rows svc vms = Ok rows" by auto
  with Cons.prems show ?case by (auto simp: table_row_def vm_path_ok_def split: option.split)
qed simp

lemma search_returns:
  assumes "xenmgr_ok svc"
  obtains (absent) tab' where "search_table key svc k tab = Ok (None, tab')"
    | (found) r rows where "search_table key svc k tab = Ok (Some (clone_vmid_table_row r), Some rows)"
        "r \<in> set rows" "key r = k" "find_first (\<lambda>r. key r = k) rows = Some r"
proof -
  obtain vms where vms: "list_vms svc = Some vms" "\<forall>p \<in> set vms. vm_path_ok p" using assms by (auto simp: xenmgr_ok_def)
  obtain rows where "table_rows svc vms = Ok rows" using table_rows_returns [OF vms(2)] by blast
  with vms(1) have "\<exists>tab'. (if tab = None then populate_vm_identifier_table svc else Ok tab) = Ok tab'"
    by (simp add: populate_vm_identifier_table_def new_vm_identifier_table_def)
  then obtain tab' where "(if tab = None then populate_vm_identifier_table svc else Ok tab) = Ok tab'" by blast
  then have run: "search_table key svc k tab = Ok (case tab' of None \<Rightarrow> None
       | Some rows \<Rightarrow> map_option clone_vmid_table_row (find_first (\<lambda>r. key r = k) rows), tab')"
    by (simp add: search_table_def)
  show thesis
  proof (cases "\<exists>rows r. tab' = Some rows \<and> find_first (\<lambda>r. key r = k) rows = Some r")
    case True
    then obtain rows r where r: "tab' = Some rows" "find_first (\<lambda>r. key r = k) rows = Some r" by blast
    with run find_first_Some_in [OF r(2)] show thesis by (intro found [of r rows]) simp_all
  next
    case False
    with run absent show thesis by (cases tab') auto
  qed
qed

lemma vm_signal_keeps:
  assumes "xenmgr_ok svc"
  shows "keeps (\<lambda>(tab, s). engine_inv env tabA tabV s) (vm_state_changed env (\<lambda>tab. module_check env ops sys svc tab b) svc tabV msg)"
  unfolding keeps_def
proof (intro allI impI, clarify)
  fix tab s
  assume inv: "engine_inv env tabA tabV s"
  have reg: "registered tabA tabV s" using engine_invD(6) [OF inv] .
  let ?P = "\<lambda>(tab, s). engine_inv env tabA tabV s"
  have raise: "fine ?P (obind (store_event (tabV ! k) (Arg_Str path) s) (\<lambda>s.
      omap (\<lambda>s. (Some rows, s)) (handle_events env (module_check env ops sys svc (Some rows) b) (tabV ! k) s)))"
    if k: "vm_event_of vst ast = Some k" for k path rows vst ast
  proof -
    have tab: "tabV ! k \<in> set tabV" "tabV ! k < length (events s)" "arg_type_of (ev_value (events s ! (tabV ! k))) = ARG_STR"
      using reg vm_event_index [OF k] by (auto simp: registered_def events_typed_def)
    obtain s1 where s1: "store_event (tabV ! k) (Arg_Str path) s = Ok s1" "engine_inv env tabA tabV s1"
      using store_event_inv [OF inv tab(2), of "Arg_Str path"] tab(3) by auto
    note ok = engine_invD [OF s1(2)]
    obtain s2 where "handle_events env (module_check env ops sys svc (Some rows) b) (tabV ! k) s1 = Ok s2" "engine_inv env tabA tabV s2"
      using handle_events_inv [OF s1(2) _ vm_pure [OF ok(1,2,6) tab(1), of env ops sys svc rows b], of env] tab(1) by auto
    with s1 show ?thesis by simp
  qed
  show "fine ?P (vm_state_changed env (\<lambda>tab. module_check env ops sys svc tab b) svc tabV msg (tab, s))"
  proof (cases msg)
    case (Some m)
    obtain uuid vst ast where m: "m = (uuid, vst, ast)" by (cases m)
    show ?thesis
    proof (cases "vm_event_of vst ast")
      case (Some k)
      show ?thesis
        by (cases rule: search_returns [OF assms, of vm_uuid uuid tab])
          (use \<open>msg = Some m\<close> m Some inv raise [OF Some] in
            \<open>auto simp: vm_state_changed_def new_vmid_search_result_by_uuid_def split: option.split\<close>)
    qed (use Some m inv in \<open>simp add: vm_state_changed_def\<close>)
  qed (use inv in \<open>simp add: vm_state_changed_def\<close>)
qed

subsection \<open>Loading the modules\<close>

definition fresh_engine :: "'d env \<Rightarrow> 'd xstate \<Rightarrow> bool" where
  \<comment> \<open>no condition, event or rule yet; actions may be registered\<close>
  "fresh_engine env s \<longleftrightarrow> events s = [] \<and> condition_types s = [] \<and> cond_heap s = Map.empty \<and>
     rule_heap s = Map.empty \<and> rules s = [] \<and> db_vars s = [] \<and> db_laws env \<and> (\<forall>n. svc_read env (var_path n) (database s) = None)"

lemma fresh_ok:
  assumes "rules s = []" "cond_heap s = Map.empty" "rule_heap s = Map.empty" "db_vars s = []"
    and "\<forall>e \<in> set (events s). listeners e = []" and "\<forall>t \<in> set (condition_types s). ct_event t < length (events s)"
  shows "engine_ok s" "well_typed s" "at_rest s"
proof -
  show "engine_ok s"
    using assms by (auto simp: engine_ok_def wf_parts complete_def refs_ok_def ref_of_def cached_var_def)
  show "well_typed s" using assms by (simp add: well_typed_def)
  show "at_rest s" using assms by (simp add: at_rest_def)
qed


lemma reset_types:
  "i < 9 \<Longrightarrow> arg_type_of (er_reset (acpi_event_data ! i)) = er_type (acpi_event_data ! i)"
  "i < 6 \<Longrightarrow> arg_type_of (er_reset (vm_event_data ! i)) = er_type (vm_event_data ! i)"
proof -
  have "\<forall>row \<in> set acpi_event_data. arg_type_of (er_reset row) = er_type row"
    "\<forall>row \<in> set vm_event_data. arg_type_of (er_reset row) = er_type row"
    by (simp_all add: acpi_event_data_def vm_event_data_def event_row_def)
  moreover have "length acpi_event_data = 9" "length vm_event_data = 6"
    by (simp_all add: acpi_event_data_def vm_event_data_def)
  ultimately show "i < 9 \<Longrightarrow> arg_type_of (er_reset (acpi_event_data ! i)) = er_type (acpi_event_data ! i)"
    "i < 6 \<Longrightarrow> arg_type_of (er_reset (vm_event_data ! i)) = er_type (vm_event_data ! i)" by simp_all
qed

lemma modules_registered:
  assumes fresh: "fresh_engine env s" and load: "acpi_init_module s = (tabA, s1)" "vm_init_module s1 = (tabV, s2)"
  shows "engine_inv env tabA tabV s2" "tabA = [0..<9]" "tabV = [9..<15]"
proof -
  have A: "map er_index acpi_event_data = [0..<length acpi_event_data]" "length acpi_event_data = 9"
    by (simp_all add: acpi_event_data_def event_row_def upt_conv_Cons)
  have V: "map er_index vm_event_data = [0..<length vm_event_data]" "length vm_event_data = 6"
    by (simp_all add: vm_event_data_def event_row_def upt_conv_Cons)
  have empty: "events s = []" "condition_types s = []" using fresh by (simp_all add: fresh_engine_def)
  have s1: "tabA = [0..<9]" "s1 = s\<lparr>events := map new_event acpi_event_data, condition_types := map (of_row [0..<9]) acpi_condition_data\<rparr>"
    using load(1) empty A(2)
    by (auto simp: acpi_init_module_def init_module_def register_events_run [OF A(1)] register_conditions_run)
  have s2: "tabV = [9..<15]" "s2 = s\<lparr>events := map new_event acpi_event_data @ map new_event vm_event_data,
      condition_types := map (of_row [0..<9]) acpi_condition_data @ map (of_row [9..<15]) vm_condition_data\<rparr>"
    using load(2) A(2) V(2)
    by (auto simp: s1 vm_init_module_def init_module_def register_events_run [OF V(1)] register_conditions_run)
  show "tabA = [0..<9]" "tabV = [9..<15]" by (fact s1 s2)+
  have types: "\<forall>t \<in> set (condition_types s2). ct_event t < length (events s2)"
  proof -
    have "ct_event (of_row [0..<9] row) < 9" if "row \<in> set acpi_condition_data" for row
      using acpi.row_event [OF that] A(2) by (simp add: of_row_def del: upt_rec_numeral)
    moreover have "ct_event (of_row [9..<15] row) < 15" if "row \<in> set vm_condition_data" for row
      using vm.row_event [OF that] V(2) by (simp add: of_row_def del: upt_rec_numeral)
    ultimately show ?thesis unfolding s2(2) using A(2) V(2) by fastforce
  qed
  have "registered tabA tabV s2"
    unfolding registered_def s1(1) s2
    by (auto simp: events_typed_def A(2) V(2) nth_append new_event_def reset_types simp del: upt_rec_numeral)
  moreover have "engine_ok s2" "well_typed s2" "at_rest s2"
    using fresh by (intro fresh_ok types; auto simp: s2(2) fresh_engine_def new_event_def)+
  moreover have "all_settled env s2" "db_laws env" "vars_distinct s2"
    using fresh by (simp_all add: all_settled_def settled_def fresh_engine_def vars_distinct_def s2(2))
  ultimately show "engine_inv env tabA tabV s2" by (intro engine_invI)
qed


subsection \<open>What events do to the policy\<close>

definition acpi_event_of :: "string \<Rightarrow> nat option" where
  \<comment> \<open>the event a checker of the ACPI module is registered for\<close>
  "acpi_event_of f = map_of (map (\<lambda>row. (cr_func row, cr_event row)) acpi_condition_data) f"

lemma acpi_event_of_simps [simp]:
  "acpi_event_of ''lid_closed'' = Some EVENT_LID" "acpi_event_of ''lid_open'' = Some EVENT_LID"
  "acpi_event_of ''on_ac'' = Some EVENT_ON_AC" "acpi_event_of ''on_battery'' = Some EVENT_ON_AC"
  "acpi_event_of ''pbtn_pressed'' = Some EVENT_PWR_BTN"
  by (simp_all add: acpi_event_of_def acpi_condition_data_def cond_row_def)

lemma acpi_functions_distinct: "distinct (map cr_func acpi_condition_data)"
  by (simp add: acpi_condition_data_def cond_row_def)

lemma acpi_event_of_row: "row \<in> set acpi_condition_data \<Longrightarrow> acpi_event_of (cr_func row) = Some (cr_event row)"
  unfolding acpi_event_of_def using acpi_functions_distinct
  by (intro map_of_is_SomeI) (auto simp: comp_def)

lemma vm_event_of_row: "row \<in> set vm_condition_data \<Longrightarrow> acpi_event_of (cr_func row) = None"
  unfolding vm_condition_data_def set_simps insert_iff empty_iff
  by (elim disjE) (simp_all add: acpi_event_of_def acpi_condition_data_def cond_row_def)

lemma condition_event:
  assumes inv: "engine_inv env tabA tabV s" and x: "cond_heap s c = Some x" and f: "acpi_event_of (ct_check (c_type x)) = Some i"
  shows "ct_event (c_type x) = tabA ! i"
proof -
  have "c_type x \<in> set (condition_types s)" using engine_invD(2) [OF inv] x by (auto simp: well_typed_def typed_condition_def)
  then have "c_type x \<in> of_row tabA ` set acpi_condition_data \<union> of_row tabV ` set vm_condition_data"
    using engine_invD(6) [OF inv] by (auto simp: registered_def)
  then consider row where "row \<in> set acpi_condition_data" "c_type x = of_row tabA row"
    | row where "row \<in> set vm_condition_data" "c_type x = of_row tabV row" by blast
  then show ?thesis
    using f by cases (simp_all add: of_row_def acpi_event_of_row vm_event_of_row)
qed

lemma raise_stateful:
  assumes inv: "pm_inv env tabA tabV st" and i: "i < length acpi_event_data" "\<not> er_stateless (acpi_event_data ! i)"
    and v: "arg_type_of v = er_type (acpi_event_data ! i)"
  shows "\<exists>st'. raise_event env (module_check env ops sys svc tab) (tabA ! i) v st = Ok st' \<and> pm_inv env tabA tabV st' \<and>
    xs_log st' = xs_log st \<and>
    (\<forall>c x. cond_heap (engine st') c = Some x \<and> acpi_event_of (ct_check (c_type x)) = Some i \<longrightarrow>
       is_true x = acpi_meaning sys (arrays st) (ct_check (c_type x)) v (map (arg_value (engine st)) (c_args x)))"
proof -
  obtain ps where ps: "arrays st = live_bats ps" and e: "engine_inv env tabA tabV (engine st)"
    using inv by (auto simp: pm_inv_def)
  note tab = acpi_table [OF engine_invD(6) [OF e] i(1)]
  obtain s where s: "store_event (tabA ! i) v (engine st) = Ok s" "engine_inv env tabA tabV s" "same_shape (engine st) s"
      "events s = (events (engine st))[tabA ! i := (events (engine st) ! (tabA ! i))\<lparr>ev_value := v\<rparr>]"
    using store_event_inv [OF e tab(2), of v] v tab(3) by auto
  note ok = engine_invD [OF s(2)]
  note tab' = acpi_table [OF ok(6) i(1)]
  let ?g = "meaning_in s (acpi_meaning sys (live_bats ps))"
  have chk: "pure_checker (module_check env ops sys svc tab (live_bats ps)) ?g (tabA ! i) s"
    by (rule acpi_pure [OF ok(1,2,6) tab'(1)])
  obtain s' where s': "handle_events env (module_check env ops sys svc tab (live_bats ps)) (tabA ! i) s = Ok s'"
      "engine_inv env tabA tabV s'"
    using acpi_handled [OF s(2) i(1)] by blast
  have wf: "wf_engine s" using ok(1) by (simp add: engine_ok_def)
  have val: "ev_value (events s ! (tabA ! i)) = v" using s(4) tab(2) by simp
  have vars: "arg_value s = arg_value (engine st)" using s(3) by (intro arg_value_cong) (simp add: same_shape_def)
  have "is_true x = acpi_meaning sys (live_bats ps) (ct_check (c_type x)) v (map (arg_value (engine st)) (c_args x))"
    if x: "cond_heap s' c = Some x" "acpi_event_of (ct_check (c_type x)) = Some i" for c x
    using stateful_truth [OF wf chk tab'(2) _ s'(1) x(1) condition_event [OF s'(2) x]] tab'(4) i(2)
    by (simp add: val meaning_in_def vars)
  with s s' ps show ?thesis by (auto simp: raise_event_def pm_inv_def)
qed


text \<open>How a lid message is cut into tokens.\<close>

lemma strsplit_field:
  assumes "d \<notin> set a"
  shows "strsplit (Some (a @ d # r)) d pos = (Some a, Some r)" and "strsplit (Some a) d pos = (Some a, None)"
    and "strsplit None d (Some (a @ d # r)) = (Some a, Some r)" and "strsplit None d (Some a) = (Some a, None)"
proof -
  have "takeWhile (\<lambda>c. c \<noteq> d) (a @ d # r) = a" "dropWhile (\<lambda>c. c \<noteq> d) (a @ d # r) = d # r"
    "takeWhile (\<lambda>c. c \<noteq> d) a = a" "dropWhile (\<lambda>c. c \<noteq> d) a = []"
    using assms by (induction a) auto
  then show "strsplit (Some (a @ d # r)) d pos = (Some a, Some r)" "strsplit (Some a) d pos = (Some a, None)"
    "strsplit None d (Some (a @ d # r)) = (Some a, Some r)" "strsplit None d (Some a) = (Some a, None)"
    by (simp_all add: strsplit_def strsplit_at_def del: dropWhile_eq_Nil_conv takeWhile_eq_all_conv)
qed

lemma lid_tokens:
  assumes "CHR '' '' \<notin> set t"
  shows "token (split_tokens 16 (CHR '' '') (Some (''button/lid LID '' @ t)) None) 0 = Some ''button/lid''"
    and "token (split_tokens 16 (CHR '' '') (Some (''button/lid LID '' @ t)) None) 2 = Some t"
proof -
  have "strsplit (Some (''button/lid LID '' @ t)) (CHR '' '') None = (Some ''button/lid'', Some (''LID '' @ t))"
    "strsplit None (CHR '' '') (Some (''LID '' @ t)) = (Some ''LID'', Some t)"
    using strsplit_field(1) [of "CHR '' ''" "''button/lid''" "''LID '' @ t"] strsplit_field(3) [of "CHR '' ''" "''LID''" t] by simp_all
  then have "split_tokens (Suc (Suc (Suc n))) (CHR '' '') (Some (''button/lid LID '' @ t)) None =
      Some ''button/lid'' # Some ''LID'' # Some t # split_tokens n (CHR '' '') None None" for n
    using strsplit_field(4) [OF assms] by (simp del: append_Cons)
  from this [of 13] have "split_tokens 16 (CHR '' '') (Some (''button/lid LID '' @ t)) None =
      Some ''button/lid'' # Some ''LID'' # Some t # split_tokens 13 (CHR '' '') None None"
    by (simp only: numeral_eq_Suc pred_numeral_simps arith_simps One_nat_def BitM.simps)
  then show "token (split_tokens 16 (CHR '' '') (Some (''button/lid LID '' @ t)) None) 0 = Some ''button/lid''"
    "token (split_tokens 16 (CHR '' '') (Some (''button/lid LID '' @ t)) None) 2 = Some t"
    by (simp_all add: token_def del: append_Cons)
qed

lemma lid_message_dispatch:
  assumes "CHR '' '' \<notin> set t"
  shows "process_acpi_message aenv env chk table (''button/lid LID '' @ t) st =
    handle_lid_event aenv env chk table
      (if t = ''open'' then LID_OPEN else if t = ''close'' then LID_CLOSED else LID_UNKNOWN) st"
proof -
  have "strsplit (Some ''button/lid'') (CHR ''/'') None = (Some ''button'', Some ''lid'')"
    "strsplit None (CHR ''/'') (Some ''lid'') = (Some ''lid'', None)"
    by (simp_all add: strsplit_def strsplit_at_def)
  with lid_tokens [OF assms] show ?thesis
    unfolding process_acpi_message_def Let_def by (simp del: append_Cons)
qed

text \<open>
  C12. The lid, from acpid's message to the policy: on a message \<open>button/lid LID t\<close> the lid
  counts as open or closed as \<open>t\<close> says, and as the kernel's state file says for any other
  \<open>t\<close> (also when a line end is attached). Afterwards every loaded \<open>whileLidClosed\<close> and
  \<open>whileLidOpen\<close> condition is true exactly in that state, a rule is active exactly when its
  conditions are true, and the xenstore shows the state.
\<close>

theorem lid_message_updates_policy:
  assumes inv: "pm_inv env tabA tabV st" and t: "CHR '' '' \<notin> set t"
    and lid: "lid = (if t = ''open'' then LID_OPEN else if t = ''close'' then LID_CLOSED else get_lid_status aenv)"
  shows "\<exists>st'. process_acpi_message aenv env (module_check env ops sys svc tab) tabA (''button/lid LID '' @ t) st = Ok st' \<and>
    pm_inv env tabA tabV st' \<and>
    (\<forall>c x. cond_heap (engine st') c = Some x \<longrightarrow>
       (ct_check (c_type x) = ''lid_closed'' \<longrightarrow> is_true x = (lid = LID_CLOSED)) \<and>
       (ct_check (c_type x) = ''lid_open'' \<longrightarrow> is_true x = (lid = LID_OPEN))) \<and>
    (\<forall>r \<in> set (rules (engine st')). active (engine st') r = all_true (engine st') r) \<and>
    xs_log st' = xs_log st @ [XS_write ''/pm/lid_state'' (if lid = LID_CLOSED then ''0'' else ''1''),
                              XS_write ''/pm/events/lidevent'' ''1'']"
proof -
  let ?log = "[XS_write ''/pm/lid_state'' (if lid = LID_CLOSED then ''0'' else ''1''), XS_write ''/pm/events/lidevent'' ''1'']"
  let ?status = "if t = ''open'' then LID_OPEN else if t = ''close'' then LID_CLOSED else LID_UNKNOWN"
  have status: "(if ?status = LID_UNKNOWN then get_lid_status aenv else ?status) = lid"
    using lid by auto
  have run: "process_acpi_message aenv env (module_check env ops sys svc tab) tabA (''button/lid LID '' @ t) st =
      raise_event env (module_check env ops sys svc tab) (tabA ! EVENT_LID) (Arg_Int (lid_code lid)) (log_ops ?log st)"
    unfolding lid_message_dispatch [OF t] handle_lid_event_def status Let_def by (rule refl)
  have code: "lid_code lid = 1 \<longleftrightarrow> lid = LID_CLOSED" "lid_code lid = 0 \<longleftrightarrow> lid = LID_OPEN" by (cases lid; simp)+
  have "EVENT_LID < length acpi_event_data" "\<not> er_stateless (acpi_event_data ! EVENT_LID)"
      "arg_type_of (Arg_Int (lid_code lid)) = er_type (acpi_event_data ! EVENT_LID)" "pm_inv env tabA tabV (log_ops ?log st)"
    using inv by (simp_all add: acpi_event_data_def event_row_def)
  from raise_stateful [OF this(4,1,2,3), of ops sys svc tab] obtain st' where
    st': "raise_event env (module_check env ops sys svc tab) (tabA ! EVENT_LID) (Arg_Int (lid_code lid)) (log_ops ?log st) = Ok st'"
      "pm_inv env tabA tabV st'" "xs_log st' = xs_log (log_ops ?log st)"
    and truth: "\<And>c x. cond_heap (engine st') c = Some x \<Longrightarrow> acpi_event_of (ct_check (c_type x)) = Some EVENT_LID \<Longrightarrow>
       is_true x = acpi_meaning sys (arrays (log_ops ?log st)) (ct_check (c_type x)) (Arg_Int (lid_code lid))
         (map (arg_value (engine (log_ops ?log st))) (c_args x))"
    by blast
  have "is_true x = (lid = LID_CLOSED)" if "cond_heap (engine st') c = Some x" "ct_check (c_type x) = ''lid_closed''" for c x
    using truth [OF that(1)] that(2) code(1) by (simp add: acpi_meaning_lookup(9))
  moreover have "is_true x = (lid = LID_OPEN)" if "cond_heap (engine st') c = Some x" "ct_check (c_type x) = ''lid_open''" for c x
    using truth [OF that(1)] that(2) code(2) by (simp add: acpi_meaning_lookup(8))
  moreover have "at_rest (engine st')" using st'(2) engine_invD(4) by (auto simp: pm_inv_def)
  ultimately show ?thesis
    using st' run by (intro exI [of _ st']) (simp add: at_rest_def log_ops_def del: append_Cons)
qed


text \<open>
  C19. The power supply, from the adapter event to the policy: every \<open>whileUsingAc\<close>
  condition is true exactly when the event reports status 1, and every \<open>whileUsingBatt\<close>
  condition is true for any other status, also for one the code itself calls unknown: the
  unknown status is stored through the \<open>bool\<close> member of the value, which turns it into
  the code of battery power.
\<close>

theorem ac_event_updates_policy:
  assumes inv: "pm_inv env tabA tabV st"
    and old: "ev_value (events (engine st) ! (tabA ! EVENT_ON_AC)) = Arg_Int v" "0 \<le> v" "v < 256"
  shows "\<exists>st'. handle_ac_adapter_event env (module_check env ops sys svc tab) tabA data st = Ok st' \<and>
    pm_inv env tabA tabV st' \<and>
    (\<forall>c x. cond_heap (engine st') c = Some x \<longrightarrow>
       (ct_check (c_type x) = ''on_ac'' \<longrightarrow> is_true x = (data = ACPI_AC_STATUS_ONLINE)) \<and>
       (ct_check (c_type x) = ''on_battery'' \<longrightarrow> is_true x = (data \<noteq> ACPI_AC_STATUS_ONLINE)))"
proof -
  let ?log = "[XS_write ''/pm/ac_adapter'' (show_int (to_int32 (int data))), XS_notify ''ac_adapter_state_changed'']"
  let ?st = "log_ops ?log st" and ?b = "if data = ACPI_AC_STATUS_ONLINE then 0 else 1 :: int"
  have len: "EVENT_ON_AC < length acpi_event_data" by (simp add: acpi_event_facts)
  have reg: "registered tabA tabV (engine st)" using inv engine_invD(6) by (auto simp: pm_inv_def)
  have ev: "tabA ! EVENT_ON_AC < length (events (engine ?st))" using acpi_table(2) [OF reg len] by (simp add: log_ops_def)
  have val: "store_b (ac_code (if data = ACPI_AC_STATUS_OFFLINE then ON_BATT else if data = ACPI_AC_STATUS_ONLINE then ON_AC
      else AC_UNKNOWN)) (ev_value (events (engine ?st) ! (tabA ! EVENT_ON_AC))) = Arg_Int ?b"
    using old by (simp add: store_b_def log_ops_def Let_def)
  have run: "handle_ac_adapter_event env (module_check env ops sys svc tab) tabA data st =
      raise_event env (module_check env ops sys svc tab) (tabA ! EVENT_ON_AC) (Arg_Int ?b) ?st"
    unfolding handle_ac_adapter_event_def Let_def if_P [OF ev] val by (rule refl)
  have "\<not> er_stateless (acpi_event_data ! EVENT_ON_AC)" "arg_type_of (Arg_Int ?b) = er_type (acpi_event_data ! EVENT_ON_AC)"
      "pm_inv env tabA tabV ?st"
    using inv by (simp_all add: acpi_event_data_def event_row_def)
  from raise_stateful [OF this(3) len this(1,2), of ops sys svc tab] obtain st' where
    st': "raise_event env (module_check env ops sys svc tab) (tabA ! EVENT_ON_AC) (Arg_Int ?b) ?st = Ok st'" "pm_inv env tabA tabV st'"
    and truth: "\<And>c x. cond_heap (engine st') c = Some x \<Longrightarrow> acpi_event_of (ct_check (c_type x)) = Some EVENT_ON_AC \<Longrightarrow>
       is_true x = acpi_meaning sys (arrays ?st) (ct_check (c_type x)) (Arg_Int ?b) (map (arg_value (engine ?st)) (c_args x))"
    by blast
  have "is_true x = (data = ACPI_AC_STATUS_ONLINE)" if "cond_heap (engine st') c = Some x" "ct_check (c_type x) = ''on_ac''" for c x
    using truth [OF that(1)] that(2) by (simp add: acpi_meaning_lookup(6))
  moreover have "is_true x = (data \<noteq> ACPI_AC_STATUS_ONLINE)"
    if "cond_heap (engine st') c = Some x" "ct_check (c_type x) = ''on_battery''" for c x
    using truth [OF that(1)] that(2) by (simp add: acpi_meaning_lookup(7))
  ultimately show ?thesis using st' run by (intro exI [of _ st']) simp
qed

lemma stateless_triggers:
  assumes rest: "at_rest s" and i: "is_stateless (events s ! i)" and rule: "rule_heap s r = Some rule"
    and now: "\<And>c x. cond_heap s c = Some x \<Longrightarrow> P x \<Longrightarrow> ct_event (c_type x) = i \<and> holds_now g i s x"
    and conds: "\<forall>c \<in> set (conditions rule). \<exists>x. cond_heap s c = Some x \<and> (P x \<or> is_true x)"
    and one: "\<exists>c \<in> set (conditions rule). \<exists>x. cond_heap s c = Some x \<and> P x"
  shows "triggered g i s r"
  unfolding triggered_def
proof (intro exI [of _ rule] conjI ballI)
  show "rule_heap s r = Some rule" by (rule rule)
  show "\<exists>c \<in> set (conditions rule). \<exists>x. cond_heap s c = Some x \<and> ct_event (c_type x) = i" using one now by metis
  fix c
  assume "c \<in> set (conditions rule)"
  then obtain x where x: "cond_heap s c = Some x" "P x \<or> is_true x" using conds by metis
  have "\<not> is_true x" if "ct_event (c_type x) = i" using stateless_condition_false [OF rest x(1)] that i by simp
  with x now show "\<exists>x. cond_heap s c = Some x \<and> (if ct_event (c_type x) = i then holds_now g i s x else is_true x)" by auto
qed

text \<open>
  C13. Pressing the power button gets an answer: every loaded rule whose conditions are power
  button conditions, or conditions that are true at the time, and that has at least one power
  button condition, has its actions run, in order, before the handler returns; afterwards the
  conditions and rules are as before, ready for the next press.
\<close>

theorem power_button_runs_actions:
  assumes inv: "pm_inv env tabA tabV st" and r: "r \<in> set (rules (engine st))" "rule_heap (engine st) r = Some rule"
    and conds: "\<forall>c \<in> set (conditions rule). \<exists>x. cond_heap (engine st) c = Some x \<and>
      (ct_check (c_type x) = ''pbtn_pressed'' \<or> is_true x)"
    and one: "\<exists>c \<in> set (conditions rule). \<exists>x. cond_heap (engine st) c = Some x \<and> ct_check (c_type x) = ''pbtn_pressed''"
  shows "\<exists>st' pre post. handle_power_button_event env (module_check env ops sys svc tab) tabA st = Ok st' \<and>
    pm_inv env tabA tabV st' \<and>
    effects (engine st') = effects (engine st) @ pre @ rule_actions (engine st) r @ post \<and>
    cond_heap (engine st') = cond_heap (engine st) \<and> rule_heap (engine st') = rule_heap (engine st)"
proof -
  let ?log = "[XS_write ''/pm/events/powerbuttonpressed'' ''1'', XS_notify ''power_button_pressed'']"
  let ?i = "EVENT_PWR_BTN" and ?chk = "module_check env ops sys svc tab"
  obtain ps where ps: "arrays st = live_bats ps" and e: "engine_inv env tabA tabV (engine st)"
    using inv by (auto simp: pm_inv_def)
  have i: "?i < length acpi_event_data" "er_stateless (acpi_event_data ! ?i)" "er_type (acpi_event_data ! ?i) = ARG_BOOL"
    by (simp_all add: acpi_event_data_def event_row_def)
  note tab = acpi_table [OF engine_invD(6) [OF e] i(1)]
  obtain s where s: "store_event (tabA ! ?i) (Arg_Bool True) (engine st) = Ok s" "engine_inv env tabA tabV s"
      "events s = (events (engine st))[tabA ! ?i := (events (engine st) ! (tabA ! ?i))\<lparr>ev_value := Arg_Bool True\<rparr>]"
      "effects s = effects (engine st)" "cond_heap s = cond_heap (engine st)" "rule_heap s = rule_heap (engine st)"
      "rules s = rules (engine st)"
    using store_event_inv [OF e tab(2), of "Arg_Bool True"] tab(3) i(3) by auto
  note ok = engine_invD [OF s(2)]
  note tab' = acpi_table [OF ok(6) i(1)]
  let ?g = "meaning_in s (acpi_meaning sys (live_bats ps))"
  have chk: "pure_checker (?chk (live_bats ps)) ?g (tabA ! ?i) s" by (rule acpi_pure [OF ok(1,2,6) tab'(1)])
  have stateless: "is_stateless (events s ! (tabA ! ?i))" using tab'(4) i(2) by simp
  obtain come where come: "handle_events env (?chk (live_bats ps)) (tabA ! ?i) s =
        Ok (emit (concat (map (rule_actions s) come)) (reset_value_of (tabA ! ?i) s))"
      "set come = {r \<in> set (rules s). triggered ?g (tabA ! ?i) s r}"
    using stateless_event_effects [OF ok(1,4) chk tab'(2) stateless, of env] by blast
  have val: "ev_value (events s ! (tabA ! ?i)) = Arg_Bool True" using s(3) tab(2) by simp
  have cond: "ct_event (c_type x) = tabA ! ?i \<and> holds_now ?g (tabA ! ?i) s x"
    if x: "cond_heap s c = Some x" "ct_check (c_type x) = ''pbtn_pressed''" for c x
    using condition_event [OF s(2) x(1), of ?i] x(2) val
    by (simp add: holds_now_def meaning_in_def acpi_meaning_lookup(3))
  have "triggered ?g (tabA ! ?i) s r"
    by (rule stateless_triggers [OF ok(4) stateless, of r rule "\<lambda>x. ct_check (c_type x) = ''pbtn_pressed''"])
      (use r(2) s(5,6) cond conds one in auto)
  with come(2) r(1) s(7) have "r \<in> set come" by simp
  then obtain pre post where "come = pre @ r # post" by (auto simp: in_set_conv_decomp)
  moreover have "rule_actions s = rule_actions (engine st)" using s(6) by (simp add: rule_actions_def fun_eq_iff)
  moreover obtain st' where st': "handle_power_button_event env ?chk tabA st = Ok st'" "pm_inv env tabA tabV st'"
    using handlers_keep(2) [THEN keepsD, OF inv] unfolding fine_def by blast
  moreover have "engine st' = emit (concat (map (rule_actions s) come)) (reset_value_of (tabA ! ?i) s)"
    using st'(1) s(1) come(1) ps by (simp add: handle_power_button_event_def raise_event_def log_ops_def) auto
  ultimately show ?thesis
    using s(4-6) by (intro exI [of _ st'] exI [of _ "concat (map (rule_actions s) pre)"] exI [of _ "concat (map (rule_actions s) post)"])
      (simp add: reset_value_of_def)
qed

lemma registered_registry:
  assumes "registry t = registry s" and "registered tabA tabV s"
  shows "registered tabA tabV t"
  using assms(2)
proof (rule registered_step)
  show "condition_types t = condition_types s" using assms(1) by (simp add: registry_def)
qed (use registry_events [OF assms(1)] in simp_all)

lemma policy_kept_inv:
  "engine_inv env tabA tabV s \<Longrightarrow> policy_ok env (registry s) t \<Longrightarrow> engine_inv env tabA tabV t"
  using registered_registry by (auto simp: engine_inv_def policy_ok_def)

subsection \<open>A daemon with one rule\<close>

definition demo_boot :: "(string \<Rightarrow> string option) xstate" where
  "demo_boot = snd (vm_init_module (snd (acpi_init_module (empty_state\<lparr>action_types := [demo_action]\<rparr>))))"

definition demo_off :: "fn list \<times> fn list" where
  "demo_off = ([\<lparr>fn_name = ''onPowerBtn'', fn_args = [], fn_undo = True\<rparr>],
    [\<lparr>fn_name = ''logString'', fn_args = [FA_Str ''off''], fn_undo = True\<rparr>])"

definition demo_engine :: "(string \<Rightarrow> string option) xstate" where
  \<comment> \<open>after \<open>apply_rule\<close> with the rule \<open>off: onPowerBtn() | logString("off")\<close>\<close>
  "demo_engine = (case apply_rule map_env no_ops (Some ''off'') (fst demo_off) (snd demo_off) [] None demo_boot of
     Ok (_, _, s) \<Rightarrow> s | Crash _ \<Rightarrow> demo_boot)"

definition demo_pm :: "(string \<Rightarrow> string option) pm_state" where
  "demo_pm = \<lparr>engine = demo_engine, arrays = live_bats [], xs_log = []\<rparr>"

lemma demo_boot_inv: "engine_inv map_env [0..<9] [9..<15] demo_boot"
proof -
  let ?s = "empty_state\<lparr>action_types := [demo_action]\<rparr> :: (string \<Rightarrow> string option) xstate"
  have "fresh_engine map_env ?s" using map_env_laws by (simp add: fresh_engine_def empty_state_def map_env_def)
  moreover obtain tabA s1 tabV s2 where load: "acpi_init_module ?s = (tabA, s1)" "vm_init_module s1 = (tabV, s2)"
    by (metis surj_pair)
  ultimately have "engine_inv map_env tabA tabV s2" "tabA = [0..<9]" "tabV = [9..<15]" using modules_registered by blast+
  moreover have "demo_boot = s2" by (simp add: demo_boot_def load)
  ultimately show ?thesis by (simp only:)
qed

lemma demo_boot_types:
  "lookup_condition_type ''onPowerBtn'' demo_boot = Some (of_row [0..<9] (cond_row ''onPowerBtn'' ''pbtn_pressed'' ''n'' ''void'' EVENT_PWR_BTN))"
  "lookup_action_type ''logString'' demo_boot = Some demo_action" "rules demo_boot = []" "effects demo_boot = []"
  "next_addr demo_boot = 0" "db_vars demo_boot = []" "events demo_boot ! 5 = new_event (acpi_event_data ! 5)" "5 < length (events demo_boot)"
proof -
  have A: "map er_index acpi_event_data = [0..<length acpi_event_data]" "length acpi_event_data = 9"
    by (simp_all add: acpi_event_data_def event_row_def upt_conv_Cons)
  have V: "map er_index vm_event_data = [0..<length vm_event_data]"
    by (simp add: vm_event_data_def event_row_def upt_conv_Cons)
  have boot: "\<exists>evs cts. demo_boot = empty_state\<lparr>action_types := [demo_action], events := map new_event acpi_event_data @ evs,
      condition_types := map (of_row [0..<9]) acpi_condition_data @ cts\<rparr>"
    unfolding demo_boot_def vm_init_module_def acpi_init_module_def init_module_def
    by (simp add: register_events_run [OF A(1)] register_events_run [OF V] register_conditions_run A(2) empty_state_def
        del: upt_rec_numeral)
  then obtain evs cts where b: "demo_boot = empty_state\<lparr>action_types := [demo_action], events := map new_event acpi_event_data @ evs,
      condition_types := map (of_row [0..<9]) acpi_condition_data @ cts\<rparr>" by blast
  show "lookup_condition_type ''onPowerBtn'' demo_boot = Some (of_row [0..<9] (cond_row ''onPowerBtn'' ''pbtn_pressed'' ''n'' ''void'' EVENT_PWR_BTN))"
    by (simp add: b lookup_condition_type_def acpi_condition_data_def of_row_def cond_row_def)
  show "lookup_action_type ''logString'' demo_boot = Some demo_action" by (simp add: b lookup_action_type_def demo_action_def)
  show "rules demo_boot = []" "effects demo_boot = []" "next_addr demo_boot = 0" "db_vars demo_boot = []"
    by (simp_all add: b empty_state_def)
  show "events demo_boot ! 5 = new_event (acpi_event_data ! 5)" "5 < length (events demo_boot)"
    using A(2) by (simp_all add: b nth_append)
qed

lemma demo_engine_linked:
  "engine_inv map_env [0..<9] [9..<15] demo_engine" "linked_rule demo_boot 0 ''off'' (fst demo_off) (snd demo_off) [] demo_engine"
  "effects demo_engine = []" "registry demo_engine = registry demo_boot"
proof -
  note ok = engine_invD [OF demo_boot_inv]
  have cached: "all_cached (fn_vars (fst demo_off @ snd demo_off @ [])) demo_boot"
    by (simp add: demo_off_def fn_vars_def all_cached_def)
  obtain code err s where s: "apply_rule map_env no_ops (Some ''off'') (fst demo_off) (snd demo_off) [] None demo_boot = Ok (code, err, s)"
      "engine_ok s" "well_typed s" "all_settled map_env s" "registry s = registry demo_boot" "at_rest s" "vars_distinct s"
    using apply_rule_settled [OF ok(1,2,3), of no_ops "''off''" "fst demo_off" "snd demo_off" "[]" None] ok(4,7)
    unfolding vars_distinct_def by metis
  then have engine: "demo_engine = s" by (simp add: demo_engine_def)
  show "registry demo_engine = registry demo_boot" using s(5) engine by simp
  show "engine_inv map_env [0..<9] [9..<15] demo_engine"
    unfolding engine by (rule policy_kept_inv [OF demo_boot_inv]) (use s ok(5) in \<open>simp add: policy_ok_def\<close>)
  have "verdict demo_boot ''off'' (fst demo_off) (snd demo_off) [] = RULE_VALID"
    by (simp add: verdict_def demo_boot_types demo_off_def fn_kinds_def arg_kind_def of_row_def cond_row_def demo_action_def)
  moreover have "filter (known_condition demo_boot) (fst demo_off) = fst demo_off" "filter (known_action demo_boot) (snd demo_off) = snd demo_off"
    by (simp_all add: demo_off_def known_condition_def known_action_def demo_boot_types)
  ultimately show "linked_rule demo_boot 0 ''off'' (fst demo_off) (snd demo_off) [] demo_engine" "effects demo_engine = []"
    using apply_rule_run [OF ok(1) cached, of map_env no_ops "''off''" None] s(1) engine demo_boot_types(4,5) by auto
qed

lemma demo_pm_inv: "pm_inv map_env [0..<9] [9..<15] demo_pm"
  using demo_engine_linked(1) by (auto simp: pm_inv_def demo_pm_def)

lemma demo_off_rule:
  obtains c where "rule_heap demo_engine 0 = Some \<lparr>rule_id = Some ''off'', conditions = [c], actions = map (mk_action demo_boot) (snd demo_off), undos = [], is_active = False, linked = True\<rparr>"
    "cond_heap demo_engine c = Some (mk_condition demo_boot 0 (hd (fst demo_off)))" "rules demo_engine = [0]"
  using demo_engine_linked(2) by (auto simp: linked_rule_def demo_boot_types demo_off_def)

definition demo_sysfs :: sysfs where
  "demo_sysfs = \<lparr>bat_files = (\<lambda>_. None), reopen_error = (\<lambda>_. None), supplies = None, present_line = (\<lambda>_. None), ac_online = Inl True\<rparr>"

definition demo_machines :: xenmgr where
  "demo_machines = \<lparr>list_vms = Some [], vm_name_of = (\<lambda>_. None), vm_state_of = (\<lambda>_. ''running''), vm_type_of = (\<lambda>_. ''svm''),
     vm_deps_of = (\<lambda>_. [])\<rparr>"

definition demo_acpi :: acpi_env where
  "demo_acpi = \<lparr>acpi_pm = \<lparr>pm_sysfs = demo_sysfs, pm_ls = (\<lambda>_. None), no_batteries = True\<rparr>,
     lid_file = Inr ''state: open'', lid_file2 = Inl True, quirk_sw_assist_bcl = False, quirk_hp_hotkey_input = False\<rparr>"

theorem lid_message_updates_policy_witness:
  "\<exists>st'. process_acpi_message demo_acpi map_env (module_check map_env no_ops demo_sysfs demo_machines None) [0..<9]
       ''button/lid LID close'' demo_pm = Ok st' \<and>
     (\<forall>r \<in> set (rules (engine st')). active (engine st') r = all_true (engine st') r) \<and>
     xs_log st' = [XS_write ''/pm/lid_state'' ''0'', XS_write ''/pm/events/lidevent'' ''1'']"
  using lid_message_updates_policy [OF demo_pm_inv, of "''close''" LID_CLOSED demo_acpi no_ops demo_sysfs demo_machines None]
  by (auto simp: demo_pm_def simp del: upt_rec_numeral)

theorem ac_event_updates_policy_witness:
  "\<exists>st'. handle_ac_adapter_event map_env (module_check map_env no_ops demo_sysfs demo_machines None) [0..<9] 7 demo_pm = Ok st' \<and>
     pm_inv map_env [0..<9] [9..<15] st'"
proof -
  have "ev_value (events (engine demo_pm) ! ([0..<9] ! EVENT_ON_AC)) = Arg_Int 0"
    using registry_events(2) [OF demo_engine_linked(4) demo_boot_types(8)] demo_boot_types(7)
    by (simp add: demo_pm_def new_event_def acpi_event_data_def event_row_def)
  from ac_event_updates_policy [OF demo_pm_inv this, of no_ops demo_sysfs demo_machines None 7] show ?thesis by auto
qed

theorem power_button_runs_actions_witness:
  "\<exists>st' post. handle_power_button_event map_env (module_check map_env no_ops demo_sysfs demo_machines None) [0..<9] demo_pm = Ok st' \<and>
     (\<exists>pre. effects (engine st') = pre @ rule_actions demo_engine 0 @ post)"
proof -
  obtain c where c: "rule_heap demo_engine 0 = Some \<lparr>rule_id = Some ''off'', conditions = [c],
        actions = map (mk_action demo_boot) (snd demo_off), undos = [], is_active = False, linked = True\<rparr>" (is "_ = Some ?rule")
      "cond_heap demo_engine c = Some (mk_condition demo_boot 0 (hd (fst demo_off)))" "rules demo_engine = [0]"
    by (rule demo_off_rule)
  have "ct_check (c_type (mk_condition demo_boot 0 (hd (fst demo_off)))) = ''pbtn_pressed''"
    by (simp add: mk_condition_def demo_off_def demo_boot_types of_row_def cond_row_def)
  with c have rule: "0 \<in> set (rules (engine demo_pm))" "rule_heap (engine demo_pm) 0 = Some ?rule"
    "\<forall>c \<in> set (conditions ?rule). \<exists>x. cond_heap (engine demo_pm) c = Some x \<and> (ct_check (c_type x) = ''pbtn_pressed'' \<or> is_true x)"
    "\<exists>c \<in> set (conditions ?rule). \<exists>x. cond_heap (engine demo_pm) c = Some x \<and> ct_check (c_type x) = ''pbtn_pressed''"
    by (simp_all add: demo_pm_def)
  show ?thesis
    using power_button_runs_actions [OF demo_pm_inv rule, of no_ops demo_sysfs demo_machines None] demo_engine_linked(3)
    by (auto simp: demo_pm_def simp del: upt_rec_numeral)
qed

end
