(* ===== verification/Dbus_Server.thy ===== *)
theory Dbus_Server
  imports Policy_File Event_System
begin

text \<open>
  The methods of the daemon on the bus (\<open>xcpmd-dbus-server.c\<close>). A reply is the message of
  the error that is set, or the answer. A \<open>guint\<close> is a 32-bit word; a value of type
  \<open>int\<close> or \<open>unsigned int\<close> is converted to it. \<open>xenstore_read\<close> is a parameter: what the
  store holds at a path.
\<close>

type_synonym 'a reply = "string + 'a"
type_synonym guint = "32 word"

abbreviation (input) as_guint :: "int \<Rightarrow> guint" where "as_guint \<equiv> word_of_int"

subsection \<open>Rules and variables\<close>

definition xcpmd_add_rule ::
  "yajl \<Rightarrow> 'd env \<Rightarrow> 'd xstate parser_ops \<Rightarrow> string \<Rightarrow> string \<Rightarrow> string \<Rightarrow> string \<Rightarrow> 'd xstate \<Rightarrow> (unit reply \<times> 'd xstate) outcome" where
  "xcpmd_add_rule Y env ops name C A U s =
     omap (\<lambda>(ok, err, s). (if ok then Inr () else Inl (print_str err), s))
       (parse_rule Y env ops name (Some C) (Some A) (Some U) None s)"

definition xcpmd_remove_rule ::
  "'d env \<Rightarrow> 'd xstate parser_ops \<Rightarrow> string \<Rightarrow> 'd xstate \<Rightarrow> (unit reply \<times> 'd xstate) outcome" where
  "xcpmd_remove_rule env ops name s =
     obind (lookup_rule name s) (\<lambda>found.
       case found of
         None \<Rightarrow> Ok (Inl (''No rule named '' @ name), s)
       | Some r \<Rightarrow> omap (\<lambda>s. (Inr (), delete_db_rule env name s)) (delete_rule env ops r s))"

definition xcpmd_load_policy_from_file ::
  "yajl \<Rightarrow> 'd env \<Rightarrow> 'd xstate parser_ops \<Rightarrow> string option \<Rightarrow> 'd xstate \<Rightarrow> (unit reply \<times> 'd xstate) outcome option" where
  \<comment> \<open>the contents of the file, if it can be opened; \<open>None\<close> when the reader does not end\<close>
  "xcpmd_load_policy_from_file Y env ops contents s =
     map_option (\<lambda>res. obind res (\<lambda>(ret, s).
         omap (\<lambda>s. (if ret \<noteq> 0 then Inl ''Error parsing config file--check dom0 syslog'' else Inr (), s))
           (write_db_rules Y env s)))
       (parse_config_from_file ops contents s)"

definition xcpmd_load_policy_from_db ::
  "yajl \<Rightarrow> 'd env \<Rightarrow> 'd xstate parser_ops \<Rightarrow> 'd xstate \<Rightarrow> (unit reply \<times> 'd xstate) outcome" where
  "xcpmd_load_policy_from_db Y env ops s =
     obind (delete_rules env ops s) (\<lambda>s.
       omap (\<lambda>(ret, s). (if ret \<noteq> 0 then Inl ''Error parsing DB policy--check dom0 syslog'' else Inr (), s))
         (parse_config_from_db Y env ops s))"

definition xcpmd_clear_policy :: "'d env \<Rightarrow> 'd xstate parser_ops \<Rightarrow> 'd xstate \<Rightarrow> (unit reply \<times> 'd xstate) outcome" where
  "xcpmd_clear_policy env ops s =
     omap (\<lambda>s. (Inr (), delete_vars env (delete_db_rules env s))) (delete_rules env ops s)"

definition xcpmd_clear_rules :: "'d env \<Rightarrow> 'd xstate parser_ops \<Rightarrow> 'd xstate \<Rightarrow> (unit reply \<times> 'd xstate) outcome" where
  "xcpmd_clear_rules env ops s = omap (\<lambda>s. (Inr (), delete_db_rules env s)) (delete_rules env ops s)"

definition xcpmd_clear_vars :: "'d env \<Rightarrow> 'd xstate \<Rightarrow> (unit reply \<times> 'd xstate) outcome" where
  "xcpmd_clear_vars env s = Ok (Inr (), delete_vars env s)"

definition xcpmd_add_var ::
  "'d xstate parser_ops \<Rightarrow> string \<Rightarrow> string \<Rightarrow> 'd xstate \<Rightarrow> (unit reply \<times> 'd xstate) outcome" where
  "xcpmd_add_var ops name v s =
     omap (\<lambda>(ok, err, s). (if ok then Inr () else Inl (print_str err), s))
       (parse_var ops (name @ ''('' @ v @ '')'') None s)"

definition xcpmd_remove_var :: "'d env \<Rightarrow> string \<Rightarrow> 'd xstate \<Rightarrow> (unit reply \<times> 'd xstate) outcome" where
  "xcpmd_remove_var env name s =
     (let (ok, s') = delete_var env name s
      in Ok (if ok then Inr () else Inl ''Variable still referenced by at least one rule'', s'))"

subsection \<open>Listings\<close>

definition null_terminated :: "'a list \<Rightarrow> 'a option list outcome" where
  \<comment> \<open>\<open>memcpy\<close> of one pointer more than the source array holds, and a null pointer at the end\<close>
  "null_terminated xs =
     omap (\<lambda>ys. (map Some ys)[length xs := None])
       (ofold (\<lambda>i ys. if i < length xs then Ok (ys @ [xs ! i]) else Crash Buffer_Overflow) [0..<length xs + 1] [])"

definition xcpmd_get_conditions :: "'d xstate \<Rightarrow> string option list reply outcome" where
  "xcpmd_get_conditions s = omap Inr (null_terminated (get_registered_condition_types s))"

definition xcpmd_get_actions :: "'d xstate \<Rightarrow> string option list reply outcome" where
  "xcpmd_get_actions s = omap Inr (null_terminated (get_registered_action_types s))"

definition xcpmd_get_rules :: "'d env \<Rightarrow> 'd xstate \<Rightarrow> string option list reply outcome" where
  \<comment> \<open>\<open>rule_to_string\<close> returns no null pointer, as \<open>malloc\<close> does not fail\<close>
  "xcpmd_get_rules env s =
     omap (\<lambda>strs. Inr (map Some strs @ [None]))
       (ofold (\<lambda>r strs. omap (\<lambda>t. strs @ [t]) (rule_to_string env r s)) (rules s) [])"

definition xcpmd_get_vars ::
  "'d env \<Rightarrow> 'd xstate parser_ops \<Rightarrow> 'd xstate \<Rightarrow> (string option list reply \<times> 'd xstate) outcome" where
  "xcpmd_get_vars env ops s =
     omap (\<lambda>(strs, s). (Inr (map Some strs @ [None]), s))
       (ofold (\<lambda>v (strs, s).
           obind (resolve_var env ops (dv_name v) s) (\<lambda>(arg, s).
             omap (\<lambda>arg. (strs @ [dv_name v @ ''('' @ arg_to_string (show_ptr env) arg @ '')''], s)) (deref arg)))
         (db_vars s) ([], s))"

subsection \<open>Batteries\<close>

definition xcpmd_batteries_present :: "batteries \<Rightarrow> nat list outcome" where
  "xcpmd_batteries_present b =
     ofold (\<lambda>i found. omap (\<lambda>st. if present st then found @ [i] else found) (buf_get (last_status b) i))
       [0..<num_battery_structs_allocd b] []"

definition no_slot :: "guint \<Rightarrow> string" where
  \<comment> \<open>the number is printed with \<open>%d\<close>\<close>
  "no_slot n = ''No such battery slot: '' @ show_int (sint n)"

definition int_fits :: "int \<Rightarrow> bool" where
  "int_fits i \<longleftrightarrow> - (2 ^ 31) \<le> i \<and> i < 2 ^ 31"

definition c_div :: "int \<Rightarrow> int \<Rightarrow> int" where
  \<comment> \<open>the division of C, which rounds towards zero\<close>
  "c_div a b = sgn a * sgn b * (\<bar>a\<bar> div \<bar>b\<bar>)"

definition seconds :: "int \<Rightarrow> int \<Rightarrow> guint outcome" where
  \<comment> \<open>\<open>juice * 3600 / rate\<close> in \<open>int\<close>, where overflow is undefined\<close>
  "seconds juice rate =
     (if int_fits juice \<and> int_fits (juice * 3600) \<and> int_fits (c_div (juice * 3600) rate)
      then Ok (as_guint (c_div (juice * 3600) rate)) else Crash Signed_Overflow)"

definition xcpmd_battery_time_to_empty :: "batteries \<Rightarrow> guint \<Rightarrow> guint reply outcome" where
  "xcpmd_battery_time_to_empty b n =
     (if unat n \<ge> num_battery_structs_allocd b then Ok (Inl (no_slot n))
      else obind (buf_get (last_status b) (unat n)) (\<lambda>st.
        if \<not> present st then Ok (Inr 0)
        else if state st AND 1 = 0 then Ok (Inr 0)
        else if as_int (present_rate st) = 0 then Ok (Inr 0)
        else omap Inr (seconds (as_int (remaining_capacity st)) (as_int (present_rate st)))))"

definition xcpmd_battery_time_to_full :: "batteries \<Rightarrow> guint \<Rightarrow> guint reply outcome" where
  "xcpmd_battery_time_to_full b n =
     (if unat n \<ge> num_battery_structs_allocd b then Ok (Inl (no_slot n))
      else obind (buf_get (last_status b) (unat n)) (\<lambda>st.
        if \<not> present st then Ok (Inr 0)
        else if state st AND 2 = 0 then Ok (Inr 0)
        else obind (buf_get (last_info b) (unat n)) (\<lambda>info.
          let full = (if as_int (last_full_capacity info) = 0 then as_int (design_capacity info) else as_int (last_full_capacity info))
          in if as_int (present_rate st) = 0 then Ok (Inr 0)
             else omap Inr (seconds (full - as_int (remaining_capacity st)) (as_int (present_rate st))))))"

definition xcpmd_battery_percentage :: "sysfs \<Rightarrow> batteries \<Rightarrow> guint \<Rightarrow> guint reply outcome" where
  "xcpmd_battery_percentage sys b n =
     (if \<not> battery_slot_exists sys (unat n) then Ok (Inl (no_slot n))
      else obind (buf_get (last_status b) (unat n)) (\<lambda>st.
        if \<not> present st then Ok (Inl (''No battery in slot: '' @ show_int (sint n)))
        else omap (\<lambda>p. Inr (as_guint p)) (get_battery_percentage sys b (unat n))))"

definition xcpmd_battery_is_present :: "sysfs \<Rightarrow> batteries \<Rightarrow> guint \<Rightarrow> bool reply outcome" where
  "xcpmd_battery_is_present sys b n =
     (if \<not> battery_slot_exists sys (unat n) then Ok (Inl (no_slot n))
      else omap (\<lambda>st. Inr (present st)) (buf_get (last_status b) (unat n)))"

definition state_code :: "battery_state \<Rightarrow> guint" where
  "state_code st =
     (case st of BATT_STATE_UNKNOWN \<Rightarrow> 0 | BATT_CHARGING \<Rightarrow> 1 | BATT_DISCHARGING \<Rightarrow> 2 | BATT_EMPTY \<Rightarrow> 3
      | BATT_FULL \<Rightarrow> 4 | BATT_PENDING_CHARGE \<Rightarrow> 5 | BATT_PENDING_DISCHARGE \<Rightarrow> 6)"

definition xcpmd_battery_state :: "sysfs \<Rightarrow> batteries \<Rightarrow> guint \<Rightarrow> guint reply outcome" where
  "xcpmd_battery_state sys b n =
     (if \<not> battery_slot_exists sys (unat n) then Ok (Inl (no_slot n))
      else omap (\<lambda>st. Inr (state_code st)) (get_battery_charge_state sys b (unat n)))"

definition aggregate :: "sysfs \<Rightarrow> guint outcome \<Rightarrow> guint reply outcome" where
  \<comment> \<open>the check all four methods below begin with\<close>
  "aggregate sys x =
     (if get_num_batteries_present sys = 0 then Ok (Inl ''No batteries in the system'') else omap Inr x)"

definition xcpmd_aggregate_battery_percentage :: "sysfs \<Rightarrow> batteries \<Rightarrow> guint reply outcome" where
  "xcpmd_aggregate_battery_percentage sys b = aggregate sys (omap as_guint (get_overall_battery_percentage b))"

definition xcpmd_aggregate_battery_state :: "sysfs \<Rightarrow> batteries \<Rightarrow> guint reply outcome" where
  "xcpmd_aggregate_battery_state sys b = aggregate sys (omap state_code (get_system_charge_state sys b))"

definition xcpmd_aggregate_battery_time_to_full :: "sysfs \<Rightarrow> batteries \<Rightarrow> guint reply outcome" where
  "xcpmd_aggregate_battery_time_to_full sys b = aggregate sys (omap as_guint (time_to_full sys b))"

definition xcpmd_aggregate_battery_time_to_empty :: "sysfs \<Rightarrow> batteries \<Rightarrow> guint reply outcome" where
  "xcpmd_aggregate_battery_time_to_empty sys b = aggregate sys (omap as_guint (time_to_empty sys b))"

subsection \<open>Values in the xenstore, and input\<close>

definition atoi :: "string \<Rightarrow> int" where
  \<comment> \<open>the low 32 bits of what \<open>strtol\<close> returns\<close>
  "atoi v =
     (let t = dropWhile is_space v;
          neg = (t \<noteq> [] \<and> hd t = CHR ''-'');
          r = (if t \<noteq> [] \<and> (hd t = CHR ''-'' \<or> hd t = CHR ''+'') then tl t else t);
          n = int (read_nat (takeWhile is_digit r))
      in to_int32 (clamp_long (if neg then - n else n)))"

definition xenstore_read_uint :: "(string \<Rightarrow> string option) \<Rightarrow> string \<Rightarrow> guint" where
  "xenstore_read_uint xs path = (case xs path of None \<Rightarrow> 0 | Some v \<Rightarrow> as_guint (atoi v))"

definition xcpmd_get_ac_adapter_state :: "(string \<Rightarrow> string option) \<Rightarrow> guint reply" where
  "xcpmd_get_ac_adapter_state xs = Inr (xenstore_read_uint xs ''/pm/ac_adapter'')"

definition xcpmd_get_current_battery_level :: "(string \<Rightarrow> string option) \<Rightarrow> guint reply" where
  "xcpmd_get_current_battery_level xs = Inr (xenstore_read_uint xs ''/pm/currentbatterylevel'')"

definition xcpmd_get_current_temperature :: "(string \<Rightarrow> string option) \<Rightarrow> guint reply" where
  "xcpmd_get_current_temperature xs = Inr (xenstore_read_uint xs ''/pm/current_temperature'')"

definition xcpmd_get_critical_temperature :: "(string \<Rightarrow> string option) \<Rightarrow> guint reply" where
  "xcpmd_get_critical_temperature xs = Inr (xenstore_read_uint xs ''/pm/critical_temperature'')"

definition xcpmd_get_bif :: "(string \<Rightarrow> string option) \<Rightarrow> string option reply" where
  "xcpmd_get_bif xs = Inr (xs ''/pm/bif'')"

definition xcpmd_get_bst :: "(string \<Rightarrow> string option) \<Rightarrow> string option reply" where
  "xcpmd_get_bst xs = Inr (xs ''/pm/bst'')"

definition xcpmd_indicate_input ::
  "acpi_env \<Rightarrow> 'd env \<Rightarrow> 'd sys_checker \<Rightarrow> nat list \<Rightarrow> int \<Rightarrow> 'd pm_state \<Rightarrow> (unit reply \<times> 'd pm_state) outcome" where
  \<comment> \<open>\<open>xcpmd_process_input\<close> always returns 0\<close>
  "xcpmd_indicate_input env denv chk table input st =
     omap (\<lambda>st. (Inr (), st)) (xcpmd_process_input env denv chk table input st)"

definition xcpmd_hotkey_switch :: "bool \<Rightarrow> unit reply" where
  "xcpmd_hotkey_switch reset = Inr ()"

end
