(* ===== verification/Var_Text.thy ===== *)
theory Var_Text
  imports Rule_Db
begin

text \<open>
  The written form of a variable definition, \<open>name(value)\<close>, and what the parser makes of it.
\<close>

lemma init_var_simps:
  "error_code (init_parse_data n v c a u k d) = 0" "finished (init_parse_data n v c a u k d) = False"
  "message (init_parse_data n v c a u k d) = None" "pargs (init_parse_data n v c a u k d) = []"
  "pstate (init_parse_data n v c a u k d) = S_start" "var_map (init_parse_data n v c a u k d) = var_map d"
  "parsing (init_parse_data n v c a u TYPE_VAR_MAP d) = TYPE_VAR_MAP"
  by (simp_all add: init_parse_data_def cleanup_parse_data_def)

lemma name_open_run:
  assumes "name_ok n" and "\<not> finished d" and "accum_sz d = 256" and "accum_name d = []"
  shows "parse_loop ops (d\<lparr>pstate := S_start, parse_rest := n @ CHR ''('' # r\<rparr>) s =
    parse_loop ops (d\<lparr>pstate := S_beginAccumArg, parse_rest := r, accum_name := n\<rparr>) s"
proof -
  obtain c cs where n: "n = c # cs" using assms(1) by (cases n) (auto simp: name_ok_def)
  have ok: "condition_isAlphanumeric_us c" "\<forall>x \<in> set cs. condition_isAlphanumeric_us x" "length n < 256"
    using assms(1) n by (auto simp: name_ok_def)
  have "parse_loop ops (d\<lparr>pstate := S_start, parse_rest := c # cs @ CHR ''('' # r\<rparr>) s =
        parse_loop ops (d\<lparr>pstate := S_accumName, parse_rest := cs @ CHR ''('' # r, accum_name := [c]\<rparr>) s"
    using assms ok(1) alnum_neq [of c]
    by (intro parse_loop_next)
      (simp_all add: step_simps condition_isNewline_def condition_isNull_def condition_isSpace_def condition_isExclaimation_def)
  also have "\<dots> = parse_loop ops (d\<lparr>pstate := S_accumName, parse_rest := CHR ''('' # r, accum_name := [c] @ cs\<rparr>) s"
    by (rule name_run) (use ok assms n in simp_all)
  also have "\<dots> = parse_loop ops (d\<lparr>pstate := S_beginAccumArg, parse_rest := r, accum_name := n\<rparr>) s"
    using assms n by (intro parse_loop_next) (simp_all add: step_simps condition_isOpenParen_def)
  finally show ?thesis by (simp add: n)
qed

lemma parse_loop_crash:
  "\<not> finished d \<Longrightarrow> fsm_next ops d s = Some (Crash k) \<Longrightarrow> parse_loop ops d s = Crash k"
  by (subst parse_loop.simps) (auto simp: fsm_next_def)

definition var_done :: "bool \<Rightarrow> var_map \<Rightarrow> string option \<Rightarrow> parsed_type \<Rightarrow> parse_data \<Rightarrow> parse_data" where
  \<comment> \<open>the parser's data after it has read one definition\<close>
  "var_done err vm msg t d = d\<lparr>error_code := of_bool err, var_map := vm, message := msg, pargs := [], accum_name := [],
     accum_arg := [], undo := True, cur_arg_type := t, parse_rest := [], parsing := TYPE_UNDETERMINED,
     finished := True, pstate := S_start\<rparr>"

lemma acceptFn_definition:
  assumes "arg_ok a" and "\<forall>v. a \<noteq> FA_Var v" and "accum_sz d = 256" and "accum_arg d = arg_accum a"
    and "cur_arg_type d = parsed_type_of a" and "pargs d = []" and "name_ok (accum_name d)" and "parsing d = TYPE_VAR_MAP"
  shows "action_acceptFn ops d s = omap (\<lambda>(err, vm, msg, s').
      (end_fn ((push_arg a d)\<lparr>error_code := of_bool err, var_map := vm, message := msg\<rparr>), s'))
      (add_to_var_map_as_arg ops (var_map d) (accum_name d) a (message d) s)"
proof -
  have "resolves ops s a" using assms(2) by (simp add: resolves_def)
  then have "action_acceptArg ops d s = Ok (push_arg a d, s)" using assms by (intro acceptArg_value)
  moreover have "accum_name d \<noteq> []" "length (accum_name d) < 256" using assms(7) by (simp_all add: name_ok_def)
  moreover have "message (push_arg a d) = message d" by (simp add: push_arg_def)
  ultimately show ?thesis
    using assms by (cases a) (simp_all add: action_acceptFn_def accept_var_map_entry_def)
qed

lemma definition_end:
  assumes "parsing d = TYPE_VAR_MAP" and "\<not> finished d" and "accum_sz d = 256" and "accum_name d = []" and "accum_arg d = []"
  shows "parse_loop ops (d\<lparr>pstate := S_acceptFn, parse_rest := []\<rparr>) s =
    Ok (error_code d = 0, d\<lparr>parse_rest := [], parsing := TYPE_UNDETERMINED, finished := True, pstate := S_start\<rparr>, s)"
  using assms
  by (subst parse_loop.simps)
    (simp add: get_parse_char_def end_transition fsm_step_def adv_parse_ptr_def action_acceptFns_def action_acceptFn_def
      action_acceptArg_def final_state_iff)

lemma var_text_run:
  fixes n :: string and d :: parse_data
  assumes n: "name_ok n" and a: "arg_ok a" "\<forall>v. a \<noteq> FA_Var v"
  defines "d0 \<equiv> (load_parse_string (Some []) (init_parse_data None (Some (n @ ''('' @ fn_arg_text a @ '')'')) None None None TYPE_VAR_MAP d))"
  shows "parse_var_persistent ops (n @ ''('' @ fn_arg_text a @ '')'') d s =
    omap (\<lambda>(err, vm, msg, s'). (\<not> err, var_done err vm msg (parsed_type_of a) d0, s')) (add_to_var_map_as_arg ops (var_map d) n a None s)"
proof -
  let ?text = "n @ ''('' @ fn_arg_text a @ '')''"
  have d0: "\<not> finished d0" "accum_sz d0 = 256" "accum_name d0 = []" "accum_arg d0 = []" "pargs d0 = []" "parsing d0 = TYPE_VAR_MAP"
      "message d0 = None" "var_map d0 = var_map d" "error_code d0 = 0" "undo d0" "pstate d0 = S_start"
    by (simp_all add: d0_def load_parse_string_def init_parse_data_def cleanup_parse_data_def)
  have "parse_var_persistent ops ?text d s = parse_loop ops (d0\<lparr>pstate := S_start, parse_rest := n @ CHR ''('' # fn_arg_text a @ '')''\<rparr>) s"
    unfolding parse_var_persistent_def parse_def
    by (rule parse_loop_cong) (simp add: d0_def load_parse_string_def init_parse_data_def cleanup_parse_data_def)
  also have "\<dots> = parse_loop ops (d0\<lparr>pstate := S_beginAccumArg, parse_rest := fn_arg_text a @ '')'', accum_name := n\<rparr>) s"
    by (rule name_open_run) (use n d0 in simp_all)
  also have "\<dots> = parse_loop ops ((d0\<lparr>accum_name := n\<rparr>)\<lparr>pstate := S_beginAccumArg, parse_rest := fn_arg_text a @ '')'', accum_arg := []\<rparr>) s"
    by (rule parse_loop_cong) (simp add: d0)
  also have "\<dots> = parse_loop ops ((d0\<lparr>accum_name := n\<rparr>)\<lparr>pstate := arg_end_state a, parse_rest := '')'', accum_arg := arg_accum a,
      cur_arg_type := parsed_type_of a\<rparr>) s"
    by (rule arg_text_run) (use a d0 in simp_all)
  finally have run: "parse_var_persistent ops ?text d s = parse_loop ops (d0\<lparr>accum_name := n, pstate := arg_end_state a,
      parse_rest := '')'', accum_arg := arg_accum a, cur_arg_type := parsed_type_of a\<rparr>) s" by simp
  let ?e = "d0\<lparr>accum_name := n, pstate := arg_end_state a, parse_rest := '')'', accum_arg := arg_accum a, cur_arg_type := parsed_type_of a\<rparr>"
  have acc: "action_acceptFn ops (adv_parse_ptr ?e) s = omap (\<lambda>(err, vm, msg, s').
      (end_fn ((push_arg a (adv_parse_ptr ?e))\<lparr>error_code := of_bool err, var_map := vm, message := msg\<rparr>), s'))
      (add_to_var_map_as_arg ops (var_map d) n a None s)"
    using acceptFn_definition [of a "adv_parse_ptr ?e" ops s] a n d0 by (simp add: adv_parse_ptr_def)
  have tr: "take_transition (arg_end_state a) (CHR '')'') =
      Some \<lparr>tcond = condition_isClosedParen, taction = Some A_acceptFn, tdest = S_acceptFn\<rparr>"
    by (rule close_transition [OF arg_end_closes])
  show ?thesis
  proof (cases "add_to_var_map_as_arg ops (var_map d) n a None s")
    case (Crash k)
    then have "parse_loop ops ?e s = Crash k"
      by (intro parse_loop_crash) (use d0(1) in \<open>simp_all add: fsm_next_def tr fsm_step_def acc get_parse_char_def\<close>)
    with Crash show ?thesis unfolding run by simp
  next
    case (Ok x)
    obtain err vm msg s' where x: "x = (err, vm, msg, s')" by (cases x)
    let ?f = "(end_fn ((push_arg a (adv_parse_ptr ?e))\<lparr>error_code := of_bool err, var_map := vm, message := msg\<rparr>))"
    have "parse_loop ops ?e s = parse_loop ops (?f\<lparr>pstate := S_acceptFn\<rparr>) s'"
      by (rule parse_loop_next) (use d0(1) Ok x in \<open>simp_all add: fsm_next_def tr fsm_step_def acc get_parse_char_def\<close>)
    also have "\<dots> = parse_loop ops (?f\<lparr>pstate := S_acceptFn, parse_rest := []\<rparr>) s'"
      by (rule parse_loop_cong) (simp add: end_fn_def push_arg_def adv_parse_ptr_def)
    also have "\<dots> = Ok (error_code ?f = 0, ?f\<lparr>parse_rest := [], parsing := TYPE_UNDETERMINED, finished := True, pstate := S_start\<rparr>, s')"
      by (rule definition_end) (use d0 in \<open>simp_all add: end_fn_def push_arg_def adv_parse_ptr_def\<close>)
    finally show ?thesis
      unfolding run Ok x by (simp add: var_done_def end_fn_def push_arg_def adv_parse_ptr_def)
  qed
qed

lemma definition_step:
  assumes n: "name_ok n" and a: "arg_ok a" "\<forall>v. a \<noteq> FA_Var v"
    and d: "\<not> finished d" "accum_sz d = 256" "accum_name d = []" "accum_arg d = []" "pargs d = []" "parsing d = TYPE_VAR_MAP"
    and add: "add_to_var_map_as_arg ops (var_map d) n a (message d) s = Ok (err, vm, msg, s')"
  shows "parse_loop ops (d\<lparr>pstate := S_start, parse_rest := n @ CHR ''('' # fn_arg_text a @ CHR '')'' # r\<rparr>) s =
    parse_loop ops (d\<lparr>error_code := of_bool err, var_map := vm, message := msg, undo := True, cur_arg_type := parsed_type_of a,
      pstate := S_acceptFn, parse_rest := r\<rparr>) s'"
proof -
  have "parse_loop ops (d\<lparr>pstate := S_start, parse_rest := n @ CHR ''('' # fn_arg_text a @ CHR '')'' # r\<rparr>) s =
      parse_loop ops (d\<lparr>pstate := S_beginAccumArg, parse_rest := fn_arg_text a @ CHR '')'' # r, accum_name := n\<rparr>) s"
    by (rule name_open_run) (use n d in simp_all)
  also have "\<dots> = parse_loop ops ((d\<lparr>accum_name := n\<rparr>)\<lparr>pstate := S_beginAccumArg, parse_rest := fn_arg_text a @ CHR '')'' # r, accum_arg := []\<rparr>) s"
    by (rule parse_loop_cong) (simp add: d)
  also have "\<dots> = parse_loop ops ((d\<lparr>accum_name := n\<rparr>)\<lparr>pstate := arg_end_state a, parse_rest := CHR '')'' # r, accum_arg := arg_accum a,
      cur_arg_type := parsed_type_of a\<rparr>) s"
    by (rule arg_text_run) (use a d in simp_all)
  also have "\<dots> = parse_loop ops (d\<lparr>error_code := of_bool err, var_map := vm, message := msg, undo := True,
      cur_arg_type := parsed_type_of a, pstate := S_acceptFn, parse_rest := r\<rparr>) s'"
  proof (rule parse_loop_next)
    let ?e = "(d\<lparr>accum_name := n\<rparr>)\<lparr>pstate := arg_end_state a, parse_rest := CHR '')'' # r, accum_arg := arg_accum a, cur_arg_type := parsed_type_of a\<rparr>"
    have "action_acceptFn ops (adv_parse_ptr ?e) s =
        Ok (end_fn ((push_arg a (adv_parse_ptr ?e))\<lparr>error_code := of_bool err, var_map := vm, message := msg\<rparr>), s')"
      using acceptFn_definition [of a "adv_parse_ptr ?e" ops s] a n d add by (simp add: adv_parse_ptr_def)
    then show "fsm_next ops ?e s = Some (Ok (d\<lparr>error_code := of_bool err, var_map := vm, message := msg, undo := True,
      cur_arg_type := parsed_type_of a, pstate := S_acceptFn, parse_rest := r\<rparr>, s'))"
      using d by (simp add: fsm_next_def close_transition [OF arg_end_closes] fsm_step_def get_parse_char_def end_fn_def push_arg_def adv_parse_ptr_def)
  qed (use d in simp_all)
  finally show ?thesis .
qed

end
