(* ===== verification/Rule_Outcome.thy ===== *)
theory Rule_Outcome
  imports Parser_System Var_Text
begin

text \<open>
  How parsing a rule ends. Whatever the text, the error that is left can be extracted, and a
  result that is not an error means that the rule has been linked.
\<close>

definition refused :: "parse_data \<Rightarrow> bool" where
  "refused d \<longleftrightarrow> error_code d \<notin> {NO_PARSE_ERROR, RECOVERABLE_ERROR} \<and>
     (error_code d = RULE_INVALID \<or> message d \<noteq> None) \<and> error_code d AND PARSE_ERROR_MASK = error_code d"

lemma refused_fail: "k \<in> {FSM_ERROR, BOOL_ERROR, VAR_MISSING} \<Longrightarrow> refused (fail k m d)"
  by (auto simp: refused_def fail_def perror_def)

locale rule_env = parser_env ops I for ops :: "'s parser_ops" and I :: "'s \<Rightarrow> bool" +
  fixes loaded_one :: "'s \<Rightarrow> bool"
  assumes apply_reports: "I s \<Longrightarrow> op_apply_rule ops (Some n) C A U m s = Ok (e, m', s') \<Longrightarrow>
    fst (rule_result e) = RULE_INVALID \<or> fst (rule_result e) \<in> {NO_PARSE_ERROR, RECOVERABLE_ERROR} \<and> loaded_one s'"
begin

definition ends_well :: "parse_data \<Rightarrow> 's \<Rightarrow> bool" where
  "ends_well d s \<longleftrightarrow> refused d \<or> error_code d \<in> {NO_PARSE_ERROR, RECOVERABLE_ERROR} \<and> loaded_one s"

definition going :: "parse_data \<Rightarrow> 's \<Rightarrow> bool" where
  "going d s \<longleftrightarrow> (if finished d then ends_well d s else strings_left (parsing d) > 0)"

lemma going_acceptArg:
  assumes "action_acceptArg ops d s = Ok (d', s')" and "\<not> finished d" and "strings_left (parsing d) > 0"
  shows "(if finished d' then refused d' else True) \<and> parsing d' = parsing d"
  using assms refused_fail unfolding action_acceptArg_def
  by (cases "cur_arg_type d") (auto simp: outcome_simps split: if_splits prod.splits)

lemma going_acceptFn:
  assumes "action_acceptFn ops d s = Ok (d', s')" and "\<not> finished d" and "strings_left (parsing d) > 0"
  shows "(if finished d' then refused d' else True) \<and> parsing d' = parsing d"
proof -
  obtain e t where e: "action_acceptArg ops d s = Ok (e, t)"
    using assms(1) by (auto simp: action_acceptFn_def outcome_simps)
  note g = going_acceptArg [OF e assms(2,3)]
  have keep: "refused (end_fn (f e)) = refused e" if "\<And>x. error_code (f x) = error_code x \<and> message (f x) = message x" for f
    using that by (simp add: refused_def end_fn_def)
  show ?thesis
    using assms(1,3) g e
    by (cases "parsing e") (auto simp: action_acceptFn_def end_fn_def refused_def split: if_splits)
qed

lemma going_acceptFns:
  assumes "action_acceptFns ops d s = Ok (d', s')" and "\<not> finished d" and "strings_left (parsing d) > 0"
    and fits: "fits d" and I: "I s"
  shows "going d' s'"
proof -
  obtain e t where e: "action_acceptFn ops d s = Ok (e, t)"
    using assms(1) by (auto simp: action_acceptFns_def outcome_simps)
  note g = going_acceptFn [OF e assms(2,3)]
  have It: "I t" and fe: "fits e" using acceptFn_steps [OF fits I] e by (auto simp: steps_to_def)
  consider (C) "parsing e = TYPE_CONDITION" | (A) "parsing e = TYPE_ACTION" | (U) "parsing e = TYPE_UNDO_ACTION"
    using g assms(3) by (cases "parsing e") auto
  then show ?thesis
  proof cases
    case C
    then have "d' = load_parse_string (actions_str e) (e\<lparr>parsing := TYPE_ACTION\<rparr>)"
      using assms(1) e by (simp add: action_acceptFns_def)
    then show ?thesis using g by (auto simp: going_def ends_well_def load_parse_string_def refused_def)
  next
    case A
    then have "d' = load_parse_string (undo_actions_str e) (e\<lparr>parsing := TYPE_UNDO_ACTION\<rparr>)"
      using assms(1) e by (simp add: action_acceptFns_def)
    then show ?thesis using g by (auto simp: going_def ends_well_def load_parse_string_def refused_def)
  next
    case U
    obtain n where n: "rule_name e = Some n" using fe U by (auto simp: fits_def named_def)
    have "accept_rule ops e t = Ok (d', s')" using assms(1) e U by (simp add: action_acceptFns_def)
    then obtain k m where k: "op_apply_rule ops (Some n) (pconditions e) (pactions e) (pundo_actions e) (message e) t = Ok (k, m, s')"
        "error_code d' = fst (rule_result k)" "finished d'"
      using n by (auto simp: accept_rule_def outcome_simps)
    show ?thesis
      using apply_reports [OF It k(1)] k(2,3) by (auto simp: going_def ends_well_def refused_def)
  qed
qed

lemma acceptFns_dest: "take_transition st c = Some t \<Longrightarrow> taction t = Some A_acceptFns \<Longrightarrow> tdest t = S_acceptRule"
  by (cases st) (auto simp: take_transition_def build_parse_state_list_simps split: if_splits)

lemma going_step:
  assumes "take_transition (pstate d) (get_parse_char d) = Some t" and "fsm_step ops t d s = Ok (d', s')"
    and "\<not> finished d" and "strings_left (parsing d) > 0" and "fits d" and "I s"
  shows "going d' s' \<and> (finished d' \<longrightarrow> taction t \<noteq> Some A_acceptFns \<longrightarrow> refused d')"
proof -
  obtain e where e: "run_action ops (taction t) (get_parse_char d) (adv_parse_ptr d) s = Ok (e, s')" "d' = e\<lparr>pstate := tdest t\<rparr>"
    using assms(2) by (auto simp: fsm_step_def outcome_simps)
  have d: "\<not> finished (adv_parse_ptr d)" "strings_left (parsing (adv_parse_ptr d)) > 0" using assms(3,4) by simp_all
  have quiet: "going d' s' \<and> (finished d' \<longrightarrow> taction t \<noteq> Some A_acceptFns \<longrightarrow> refused d')" if "if finished e then refused e else True" "parsing e = parsing d"
    using that assms(4) e(2) by (auto simp: going_def ends_well_def refused_def)
  show ?thesis
  proof (cases "taction t")
    case None
    with e d have "e = adv_parse_ptr d" by simp
    with d show ?thesis by (intro quiet) simp_all
  next
    case (Some a)
    note run = e(1) [unfolded Some]
    show ?thesis
    proof (cases "a = A_acceptFns")
      case True
      have "fits (adv_parse_ptr d)" using fits_adv_any [OF assms(5)] .
      then have "going e s'" using run True d assms(6) by (intro going_acceptFns) simp_all
      then show ?thesis using Some True by (cases "finished e") (simp_all add: e(2) going_def ends_well_def refused_def)
    next
      case False
      show ?thesis
        using run False d going_acceptArg [of "adv_parse_ptr d" s e s'] going_acceptFn [of "adv_parse_ptr d" s e s']
        by (intro quiet; cases a)
          (auto simp: outcome_simps action_accumName_def action_invertFn_def action_accumArg_def action_beginAccumVar_def
            action_beginAccumInt_def action_beginAccumFloat_def action_beginAccumStr_def action_beginAccumTrue_def
            action_beginAccumFalse_def split: if_splits)
    qed
  qed
qed

lemma parse_loop_ends:
  assumes "fits d" and "I s" and "\<not> finished d" and "strings_left (parsing d) > 0"
    and "parse_loop ops d s = Ok (ok, d', s')"
  shows "ends_well d' s' \<and> ok = (error_code d' = NO_PARSE_ERROR)"
  using assms
proof (induction d arbitrary: s rule: wf_induct_rule [OF wf_parse_measure])
  case (1 d)
  show ?case
  proof (cases "take_transition (pstate d) (get_parse_char d)")
    case None
    show ?thesis
    proof (cases "pstate d = S_acceptRule")
      case True
      have "(d\<lparr>pstate := S_start\<rparr>, d) \<in> parse_measure" using True by (simp add: parse_measure_def)
      moreover have "parse_loop ops (d\<lparr>pstate := S_start\<rparr>) s = Ok (ok, d', s')"
        using 1(6) None True 1(4) by (subst (asm) parse_loop.simps) (simp add: final_state_iff)
      ultimately show ?thesis using 1(1) [of "d\<lparr>pstate := S_start\<rparr>" s] 1(2-5) by simp
    next
      case False
      then have "d' = (error_action (pstate d) (get_parse_char d) d)\<lparr>error_code := FSM_ERROR\<rparr>" "ok = False"
        using 1(6) None 1(4) by (subst (asm) parse_loop.simps, auto simp: final_state_iff)+
      then show ?thesis
        by (simp add: ends_well_def refused_def error_action_def parse_error_def perror_def Let_def)
    qed
  next
    case (Some t)
    obtain e u where step: "fsm_step ops t d s = Ok (e, u)" "fits e" "I u"
      using fsm_step_steps [OF 1(2,3) Some] by (auto simp: steps_to_def)
    note g = going_step [OF Some step(1) 1(4,5,2,3)]
    show ?thesis
    proof (cases "finished e")
      case True
      have "tdest t = S_acceptRule \<or> refused e"
        using g True acceptFns_dest [OF Some] by blast
      with True g 1(6) 1(4) Some step show ?thesis
        by (subst (asm) parse_loop.simps) (auto simp: going_def final_state_iff ends_well_def refused_def split: if_splits)
    next
      case False
      then have "parse_loop ops e u = Ok (ok, d', s')"
        using 1(6) 1(4) Some step by (subst (asm) parse_loop.simps) simp
      with 1(1) [OF fsm_step_progress [OF Some step(1) False]] step(2,3) False g show ?thesis
        by (simp add: going_def)
    qed
  qed
qed

lemma parse_rule_ends:
  assumes "short cs" and "short as" and "short us" and "I s"
  shows "\<exists>ok d' s'. parse_rule_persistent ops n cs as us d s = Ok (ok, d', s') \<and> I s' \<and>
    ends_well d' s' \<and> ok = (error_code d' = NO_PARSE_ERROR)"
proof -
  let ?d = "init_parse_data (Some n) None cs as us TYPE_RULE d"
  let ?e = "(load_parse_string cs ?d)\<lparr>error_code := NO_PARSE_ERROR, rule_error_code := RULE_CODE_NOT_SET\<rparr>"
  have e: "fits ?e" "\<not> finished ?e" "strings_left (parsing ?e) > 0"
    using assms(1-3)
    by (auto simp: fits_def named_def short_def load_parse_string_def init_parse_data_def cleanup_parse_data_def split: option.splits)
  obtain ok d' s' where run: "parse_loop ops ?e s = Ok (ok, d', s')" "I s'"
    using parse_loop_returns [OF e(1) assms(4)] by blast
  with parse_loop_ends [OF e(1) assms(4) e(2,3) run(1)] show ?thesis
    by (simp add: parse_rule_persistent_def parse_def)
qed

end

lemma extract_refused: "refused d \<Longrightarrow> \<exists>e. extract_parse_error d = Ok e"
  by (auto simp: refused_def extract_parse_error_def)

lemma xops_reports:
  assumes "policy_ok env reg s" and "op_apply_rule (xops env il fl (Suc k)) (Some n) C A U m s = Ok (e, m', s')"
  shows "fst (rule_result e) = RULE_INVALID \<or>
    fst (rule_result e) \<in> {NO_PARSE_ERROR, RECOVERABLE_ERROR} \<and> rules s' \<noteq> []"
  using assms apply_rule_settled [of s env "xops env il fl k" n C A U m] by (auto simp: policy_ok_def rule_reported_def)

interpretation xr: rule_env "xops env il fl (Suc k)" "policy_ok env reg" "\<lambda>s. rules s \<noteq> []"
  by unfold_locales (rule xops_reports)

end
