(* ===== verification/Daemon.thy ===== *)
theory Daemon
  imports Event_System Dbus_Server Rule_Outcome
begin

text \<open>
  The daemon as a whole: what the methods on the bus keep of the policy's invariant, and the
  daemon as a state machine that reacts to data from acpid, keys, signals of xenmgr, battery
  refreshes and changes of the policy. \<open>store_laws\<close> says what is relied on of the database
  beside \<open>db_laws\<close>.
\<close>

subsection \<open>Rules written to the database\<close>

definition store_laws :: "'d env \<Rightarrow> bool" where
  \<comment> \<open>rules are kept apart from variables, and removing a path creates none\<close>
  "store_laws env \<longleftrightarrow>
     (\<forall>p j n d. svc_read env (var_path n) (svc_inject env (DB_RULE_PATH @ ''/'' @ p) j d) = svc_read env (var_path n) d) \<and>
     (\<forall>p n d. svc_read env (var_path n) (svc_rm env (DB_RULE_PATH @ ''/'' @ p) d) = svc_read env (var_path n) d) \<and>
     (\<forall>p q d. svc_read env q (svc_rm env p d) \<noteq> None \<longrightarrow> svc_read env q d \<noteq> None)"

lemma policy_ok_database:
  assumes "policy_ok env reg s" and "\<And>n. svc_read env (var_path n) d \<noteq> None \<Longrightarrow> svc_read env (var_path n) (database s) \<noteq> None"
  shows "policy_ok env reg (s\<lparr>database := d\<rparr>)"
proof -
  have "well_typed (s\<lparr>database := d\<rparr>)"
    using assms(1) by (simp add: policy_ok_def) (rule well_typed_frame [of s]; simp add: var_type_def cached_var_def)
  moreover have "all_settled env (s\<lparr>database := d\<rparr>)"
    unfolding all_settled_def settled_def
  proof
    fix n
    have "settled env n s" using assms(1) by (simp add: policy_ok_def all_settled_def)
    then have "cached_var n s \<noteq> None \<or> svc_read env (var_path n) (database s) = None" by (simp add: settled_def)
    then show "cached_var n (s\<lparr>database := d\<rparr>) \<noteq> None \<or> svc_read env (var_path n) (database (s\<lparr>database := d\<rparr>)) = None"
      using assms(2) [of n] by (auto simp: cached_var_def)
  qed
  ultimately show ?thesis
    using assms(1) by (simp add: policy_ok_def vars_distinct_def registry_def at_rest_def active_def all_true_def)
qed

lemma rule_json_returns:
  assumes "engine_ok s" and "r \<in> set (rules s)"
  shows "\<exists>json. rule_to_json Y env r s = Ok json"
proof -
  have wf: "wf_engine s" using assms(1) by (simp add: engine_ok_def)
  obtain rule where rule: "rule_heap s r = Some rule" using wf_rule_in_list [OF wf assms(2)] by blast
  have "\<exists>cs'. ofold (\<lambda>c cs. omap (\<lambda>cond. cs @ [cond]) (access (cond_heap s) c)) cs acc = Ok cs' \<and> True"
    if "set cs \<subseteq> set (conditions rule)" for cs acc
    by (rule ofold_returns) (use that wf_conditions_live [OF wf rule] in \<open>fastforce simp: access_def\<close>)+
  from this [of "conditions rule" "[]"] rule show ?thesis by (auto simp: rule_to_json_def access_def)
qed

lemma write_db_rule_keeps:
  assumes "policy_ok env reg s" and "store_laws env" and "r \<in> set (rules s)"
  shows "\<exists>s'. write_db_rule Y env (Some r) s = Ok s' \<and> policy_ok env reg s' \<and> rules s' = rules s"
proof -
  have ok: "engine_ok s" using assms(1) by (simp add: policy_ok_def)
  obtain json where json: "rule_to_json Y env r s = Ok json" using rule_json_returns [OF ok assms(3)] by blast
  obtain rule where rule: "rule_heap s r = Some rule" using wf_rule_in_list [of s r] ok assms(3) by (auto simp: engine_ok_def)
  let ?s = "s\<lparr>database := svc_inject env (DB_RULE_PATH @ ''/'' @ print_str (rule_id rule)) json (database s)\<rparr>"
  have "write_db_rule Y env (Some r) s = Ok ?s"
    using json rule by (simp add: write_db_rule_def access_def)
  moreover have "policy_ok env reg ?s"
    using assms(1,2) by (intro policy_ok_database) (simp_all add: store_laws_def)
  ultimately show ?thesis by simp
qed

subsection \<open>Variables read back from the database\<close>

definition stored_vars_ok :: "yajl \<Rightarrow> 'd env \<Rightarrow> 'd xstate \<Rightarrow> bool" where
  \<comment> \<open>the variables in the database are in the form the daemon writes\<close>
  "stored_vars_ok Y env s \<longleftrightarrow>
     (\<forall>json kvs. svc_dump env DB_VAR_MAP_PATH (database s) = Some json \<longrightarrow> tree_parse Y json = Some (J_Object kvs) \<longrightarrow>
        distinct (map fst kvs) \<and>
        (\<forall>(n, j) \<in> set kvs. name_ok n \<and>
           (\<exists>a. writable a \<and> (\<forall>v. a \<noteq> Arg_Var v) \<and> j = J_String (arg_to_string (show_ptr env) a))))"

lemma add_var_refusal: "add_var env ops n a None s = Ok (None, msg, s') \<Longrightarrow> \<exists>m. msg = Some m \<and> m \<noteq> []"
  by (auto simp: add_var_def outcome_simps str_append_def Let_def split: option.splits if_splits prod.splits)

text \<open>One definition in printed form amounts to one call of \<open>add_var\<close>.\<close>

lemma printed_var_run:
  assumes n: "name_ok n" and a: "writable a" "\<forall>v. a \<noteq> Arg_Var v" and fresh: "get_var_from_map (var_map d) n = None"
    and inv: "policy_ok env reg s"
  obtains v msg s' d' where "add_var env (xops env il fl k) n a None s = Ok (v, msg, s')" "policy_ok env reg s'"
    "parse_var_persistent (xops env il fl (Suc k)) (n @ ''('' @ arg_to_string (show_ptr env) a @ '')'') d s = Ok (v \<noteq> None, d', s')"
    "var_map d' = (if v = None then var_map d else var_map d @ [(n, fn_arg_of a)])"
    "v = None \<longrightarrow> extract_parse_error d' = Ok (the msg)"
proof -
  let ?a = "fn_arg_of a"
  obtain v msg s' where add: "add_var env (xops env il fl k) n a None s = Ok (v, msg, s')" "policy_ok env reg s'"
    using add_var_settled [of s env "xops env il fl k" n a None] inv by (auto simp: policy_ok_def)
  have nv: "\<forall>v. ?a \<noteq> FA_Var v" using a by (cases a) (auto simp: writable_def)
  let ?vm = "if v = None then var_map d else var_map d @ [(n, ?a)]"
  have "add_to_var_map_as_arg (xops env il fl (Suc k)) (var_map d) n ?a None s = Ok (v = None, ?vm, msg, s')"
    using add fresh writable_conv [OF a(1)] by (simp add: add_to_var_map_as_arg_def add_to_var_map_code_def)
  moreover note var_text_run [OF n writable_arg_ok [OF a(1)] nv, of "xops env il fl (Suc k)" d s]
  ultimately obtain d' where run: "parse_var_persistent (xops env il fl (Suc k)) (n @ ''('' @ fn_arg_text ?a @ '')'') d s = Ok (v \<noteq> None, d', s')"
      and d': "var_map d' = ?vm" "message d' = msg" "error_code d' = of_bool (v = None)"
    by (simp add: var_done_def del: xops.simps)
  have "extract_parse_error d' = Ok (the msg)" if "v = None"
    using d' add_var_refusal [of env "xops env il fl k" n a s msg s'] add(1) that by (auto simp: extract_parse_error_def)
  then show ?thesis using that [OF add, of d'] run d'(1) writable_text [OF a(1)] by simp
qed

lemma get_var_append_None: "get_var_from_map vm n = None \<Longrightarrow> m \<noteq> n \<Longrightarrow> get_var_from_map (vm @ [(m, x)]) n = None"
  by (auto simp: get_var_from_map_def find_first_append split: option.splits fn_arg.splits)

lemma parse_db_vars_keeps:
  assumes "policy_ok env reg s" and "stored_vars_ok Y env s"
  shows "\<exists>ok d s'. parse_db_vars Y env (xops env il fl (Suc k)) blank_parse_data s = Ok (ok, d, s') \<and> policy_ok env reg s'"
proof -
  have run: "\<exists>ok' d' s'. ofold (parse_db_var (xops env il fl (Suc k))) kvs (ok, d, s) = Ok (ok', d', s') \<and> policy_ok env reg s'"
    if "policy_ok env reg s" "distinct (map fst kvs)" "\<forall>n \<in> fst ` set kvs. get_var_from_map (var_map d) n = None"
      "\<forall>(n, j) \<in> set kvs. name_ok n \<and> (\<exists>a. writable a \<and> (\<forall>v. a \<noteq> Arg_Var v) \<and> j = J_String (arg_to_string (show_ptr env) a))"
    for kvs ok d s
    using that
  proof (induction kvs arbitrary: ok d s)
    case (Cons kv kvs)
    obtain n j where kv: "kv = (n, j)" by (cases kv)
    obtain a where a: "name_ok n" "writable a" "\<forall>v. a \<noteq> Arg_Var v" "j = J_String (arg_to_string (show_ptr env) a)"
      using Cons.prems(4) kv by auto
    have "get_var_from_map (var_map d) n = None" using Cons.prems(3) kv by simp
    from a(1-3) this Cons.prems(1)
    obtain v msg s' d' where add: "add_var env (xops env il fl k) n a None s = Ok (v, msg, s')" and p: "policy_ok env reg s'"
        "parse_var_persistent (xops env il fl (Suc k)) (n @ ''('' @ arg_to_string (show_ptr env) a @ '')'') d s = Ok (v \<noteq> None, d', s')"
        "var_map d' = (if v = None then var_map d else var_map d @ [(n, fn_arg_of a)])"
        "v = None \<longrightarrow> extract_parse_error d' = Ok (the msg)"
      by (rule printed_var_run [where il = il and fl = fl and k = k])
    then have step: "parse_db_var (xops env il fl (Suc k)) kv (ok, d, s) = Ok (if v = None then False else ok, d', s')"
      using a(4) kv by (cases v) (simp_all add: parse_db_var_def del: xops.simps)
    have "\<forall>m \<in> fst ` set kvs. get_var_from_map (var_map d') m = None"
      using Cons.prems(2,3) kv p(3) get_var_append_None by (auto simp: image_iff)
    moreover have "distinct (map fst kvs)" using Cons.prems(2) by simp
    moreover have "\<forall>(n, j) \<in> set kvs. name_ok n \<and>
        (\<exists>a. writable a \<and> (\<forall>v. a \<noteq> Arg_Var v) \<and> j = J_String (arg_to_string (show_ptr env) a))"
      using Cons.prems(4) by (rule ballI [OF bspec]) simp
    ultimately show ?case unfolding ofold.simps step obind.simps by (intro Cons.IH [OF p(1)])
  qed auto
  show ?thesis
  proof (cases "svc_dump env DB_VAR_MAP_PATH (database s)")
    case None
    with assms show ?thesis by (auto simp: parse_db_vars_def)
  next
    case (Some json)
    show ?thesis
    proof (cases "\<exists>kvs. tree_parse Y json = Some (J_Object kvs)")
      case True
      then obtain kvs where kvs: "tree_parse Y json = Some (J_Object kvs)" by blast
      have "\<forall>n \<in> fst ` set kvs. get_var_from_map (var_map blank_parse_data) n = None"
        by (simp add: blank_parse_data_def get_var_from_map_def)
      with run [OF assms(1), of kvs blank_parse_data True] assms(2) Some kvs show ?thesis
        by (simp add: parse_db_vars_def stored_vars_ok_def del: xops.simps)
    next
      case False
      with Some assms show ?thesis
        by (auto simp: parse_db_vars_def split: option.splits json.splits)
    qed
  qed
qed

subsection \<open>The methods keep the policy consistent\<close>

lemma add_rule_keeps:
  assumes inv: "policy_ok env reg s" and laws: "store_laws env" and stored: "stored_vars_ok Y env s"
    and strs: "length C \<le> 255" "length A \<le> 255" "length U \<le> 255"
  shows "\<exists>reply s'. xcpmd_add_rule Y env (xops env il fl (Suc k)) name C A U s = Ok (reply, s') \<and> policy_ok env reg s'"
proof -
  let ?ops = "xops env il fl (Suc k)"
  obtain ok d s1 where vars: "parse_db_vars Y env ?ops blank_parse_data s = Ok (ok, d, s1)" "policy_ok env reg s1"
    using parse_db_vars_keeps [OF inv stored] by blast
  have short: "short (Some C)" "short (Some A)" "short (Some U)" using strs by (simp_all add: short_def)
  obtain b d' s2 where rule: "parse_rule_persistent ?ops name (Some C) (Some A) (Some U) d s1 = Ok (b, d', s2)"
      "policy_ok env reg s2" "xr.ends_well d' s2" "b = (error_code d' = NO_PARSE_ERROR)"
    using xr.parse_rule_ends [OF short vars(2)] by blast
  have saved: "\<exists>s'. write_db_rule Y env (get_rule_tail s2) s2 = Ok s' \<and> policy_ok env reg s'" if "rules s2 \<noteq> []"
    using write_db_rule_keeps [OF rule(2) laws, of "last (rules s2)" Y] that by (auto simp: get_rule_tail_def)
  consider (bad) "refused d'" | (good) "error_code d' = NO_PARSE_ERROR" "rules s2 \<noteq> []"
    | (part) "error_code d' = RECOVERABLE_ERROR" "rules s2 \<noteq> []"
    using rule(3) by (auto simp: xr.ends_well_def)
  then have "\<exists>b err s'. parse_rule Y env ?ops name (Some C) (Some A) (Some U) None s = Ok (b, err, s') \<and> policy_ok env reg s'"
  proof cases
    case bad
    then obtain e where "extract_parse_error d' = Ok e" using extract_refused by blast
    moreover have "error_code d' \<noteq> 0" "error_code d' AND PARSE_ERROR_MASK \<noteq> RECOVERABLE_ERROR"
      using bad by (auto simp: refused_def)
    ultimately show ?thesis using vars rule by (auto simp: parse_rule_def simp del: xops.simps)
  next
    case good
    then show ?thesis using vars rule saved by (auto simp: parse_rule_def simp del: xops.simps)
  next
    case part
    have "\<exists>e. extract_parse_error d' = Ok e" using part by (simp add: extract_parse_error_def)
    then show ?thesis using vars rule saved part by (auto simp: parse_rule_def simp del: xops.simps)
  qed
  then show ?thesis by (auto simp: xcpmd_add_rule_def simp del: xops.simps)
qed

lemma policy_ok_drop:
  assumes inv: "policy_ok env reg s" and r: "r \<in> set (rules s)"
  shows "\<exists>s'. delete_rule env ops r s = Ok s' \<and> policy_ok env reg s' \<and> rules s' = remove1 r (rules s) \<and>
    rule_heap s' = (rule_heap s)(r := None) \<and> database s' = database s"
proof -
  have ok: "engine_ok s" "wf_engine s" "well_typed s" "at_rest s" using inv by (simp_all add: policy_ok_def engine_ok_def)
  obtain rule s' where s': "rule_heap s r = Some rule" "delete_rule env ops r s = Ok s'"
      "s' = drop_rule r rule (bump_all (- 1) (rule_vars s rule) s)" "engine_ok s'"
    using delete_linked [OF ok(1) r, of env ops] by blast
  have "well_typed s'" using delete_rule_typed [OF ok(1,3) r, of env ops] s'(2) by auto
  moreover have "all_settled env s'"
    using inv by (simp add: s'(3) policy_ok_def all_settled_frame [of "drop_rule r rule t" t for t])
  moreover have "vars_distinct s'"
    using inv names_bump_all [of "- 1" "rule_vars s rule" s] by (simp add: s'(3) policy_ok_def vars_distinct_def)
  moreover have "registry s' = reg"
  proof -
    have "map (unlisten UNIV) (events s') = map (unlisten UNIV) (events s)" by (simp add: s'(3) unlisten_def)
    then show ?thesis using inv by (simp add: s'(3) policy_ok_def registry_def del: map_map)
  qed
  moreover have "at_rest s'"
  proof -
    have "active s' q = active s q \<and> all_true s' q = all_true s q" if q: "q \<in> set (rules s)" "q \<noteq> r" for q
    proof -
      obtain rule' where rule': "rule_heap s q = Some rule'" using wf_rule_in_list [OF ok(2) q(1)] by blast
      have "c \<notin> set (conditions rule)" if "c \<in> set (conditions rule')" for c
        using wf_conditions_live [OF ok(2) rule' that] wf_conditions_live [OF ok(2) s'(1), of c] q(2) by auto
      then show ?thesis using rule' q(2) by (auto simp: active_def all_true_def s'(3) restrict_map_def)
    qed
    moreover have "distinct (rules s)" using ok(2) by (simp add: wf_engine_def rules_ok_def)
    moreover have "is_stateless (events s' ! i) = is_stateless (events s ! i)" if "i < length (events s)" for i
      using that by (simp add: s'(3) unlisten_def)
    moreover have "ct_event (c_type x) < length (events s)" if "cond_heap s c = Some x" for c x
      using wf_condition [OF ok(2) that] by blast
    ultimately show ?thesis
      using ok(4) by (auto simp: at_rest_def s'(3) restrict_map_def split: if_splits)
  qed
  ultimately have "policy_ok env reg s'" using inv s'(4) by (simp add: policy_ok_def)
  with s' show ?thesis by simp
qed

lemma remove_rule_keeps:
  assumes inv: "policy_ok env reg s" and laws: "store_laws env"
  shows "\<exists>reply s'. xcpmd_remove_rule env ops name s = Ok (reply, s') \<and> policy_ok env reg s'"
proof -
  have wf: "wf_engine s" using inv by (simp add: policy_ok_def engine_ok_def)
  show ?thesis
  proof (cases "find_first (rule_named s name) (rules s)")
    case None
    with inv show ?thesis by (simp add: xcpmd_remove_rule_def lookup_rule_run [OF wf])
  next
    case (Some r)
    then obtain s' where s': "delete_rule env ops r s = Ok s'" "policy_ok env reg s'"
      using policy_ok_drop [OF inv, of r ops] find_first_Some_in by metis
    have "policy_ok env reg (delete_db_rule env name s')"
      unfolding delete_db_rule_def using laws by (intro policy_ok_database [OF s'(2)]) (simp add: store_laws_def)
    with Some s' show ?thesis by (simp add: xcpmd_remove_rule_def lookup_rule_run [OF wf])
  qed
qed

lemma remove_var_keeps:
  assumes inv: "policy_ok env reg s" and laws: "store_laws env"
  shows "\<exists>reply s'. xcpmd_remove_var env n s = Ok (reply, s') \<and> policy_ok env reg s'"
proof -
  let ?s = "snd (delete_var env n s)"
  have ok: "engine_ok s" "well_typed s" "vars_distinct s" "db_laws env" "all_settled env s"
    using inv by (simp_all add: policy_ok_def)
  note spec = delete_var_spec [OF ok(4,3), of n no_ops]
  have "engine_ok ?s \<and> well_typed ?s" by (rule delete_var_typed [OF ok(1-3)])
  moreover have "at_rest ?s" "registry ?s = reg"
    using inv by (auto simp: policy_ok_def delete_var_def uncache_db_var_def delete_db_var_def registry_def at_rest_def
        active_def all_true_def Let_def split: option.splits)
  moreover have "vars_distinct ?s" using spec ok(3) by (auto split: prod.splits bool.splits)
  moreover have "all_settled env ?s"
    unfolding all_settled_def
  proof
    fix m
    have m: "settled env m s" using ok(5) by (simp add: all_settled_def)
    have db: "database ?s = database s \<or> database ?s = svc_rm env (var_path n) (database s)"
      by (auto simp: delete_var_def uncache_db_var_def delete_db_var_def var_path_def Let_def split: option.splits)
    show "settled env m ?s"
    proof (cases "fst (delete_var env n s)")
      case False
      then have "?s = s" using spec by (auto split: prod.splits bool.splits)
      with m show ?thesis by simp
    next
      case True
      then have "database ?s = svc_rm env (var_path n) (database s)"
        by (auto simp: delete_var_def uncache_db_var_def delete_db_var_def var_path_def Let_def split: option.splits if_splits)
      moreover have "svc_read env q (svc_rm env p d) \<noteq> None \<Longrightarrow> svc_read env q d \<noteq> None" for p q d
        using laws unfolding store_laws_def by blast
      moreover have "svc_read env p (svc_rm env p d) = None" for p d using ok(4) by (simp add: db_laws_def)
      moreover have "m \<noteq> n \<Longrightarrow> cached_var m ?s = cached_var m s" using True spec by (auto split: prod.splits)
      ultimately show ?thesis using m unfolding settled_def by metis
    qed
  qed
  ultimately show ?thesis
    using ok(4) by (auto simp: xcpmd_remove_var_def policy_ok_def split: prod.splits)
qed

lemma add_var_keeps:
  assumes inv: "policy_ok env reg s" and n: "name_ok n" and a: "writable a" "\<forall>v. a \<noteq> Arg_Var v"
  shows "\<exists>reply s'. xcpmd_add_var (xops env il fl (Suc k)) n (arg_to_string (show_ptr env) a) s = Ok (reply, s') \<and> policy_ok env reg s'"
proof -
  have fresh: "get_var_from_map (var_map blank_parse_data) n = None" by (simp add: blank_parse_data_def get_var_from_map_def)
  from n a fresh inv
  obtain v msg s' d' where add: "add_var env (xops env il fl k) n a None s = Ok (v, msg, s')" and p: "policy_ok env reg s'"
      "parse_var_persistent (xops env il fl (Suc k)) (n @ ''('' @ arg_to_string (show_ptr env) a @ '')'') blank_parse_data s = Ok (v \<noteq> None, d', s')"
      "var_map d' = (if v = None then var_map blank_parse_data else var_map blank_parse_data @ [(n, fn_arg_of a)])"
      "v = None \<longrightarrow> extract_parse_error d' = Ok (the msg)"
    by (rule printed_var_run [where il = il and fl = fl and k = k])
  show ?thesis
    by (cases v) (use p in \<open>simp_all add: xcpmd_add_var_def parse_var_def del: xops.simps\<close>)
qed

subsection \<open>The daemon as a state machine\<close>

text \<open>
  The inputs the daemon reacts to, each with the state of the world at that moment: chunks
  read from acpid's socket, key codes and policy changes on the bus, signals of xenmgr and the
  timer that refreshes the batteries. The policy runs while the table of VM identifiers is
  kept beside the power management state.
\<close>

record world =
  w_acpi :: acpi_env
  w_svc :: xenmgr

record 'd daemon =
  pm :: "'d pm_state"
  vm_tab :: vm_table

datatype daemon_input =
    Acpi_Data "string list"
  | Input_Key int
  | Vm_Signal "(string \<times> string \<times> int) option"
  | Refresh
  | Add_Rule string string string string
  | Remove_Rule string
  | Add_Var string string
  | Remove_Var string

definition on_engine :: "('d xstate \<Rightarrow> (unit reply \<times> 'd xstate) outcome) \<Rightarrow> 'd daemon \<Rightarrow> 'd daemon outcome" where
  "on_engine f dm = omap (\<lambda>(_, s). dm\<lparr>pm := (pm dm)\<lparr>engine := s\<rparr>\<rparr>) (f (engine (pm dm)))"

definition daemon_step ::
  "yajl \<Rightarrow> 'd env \<Rightarrow> 'd xstate parser_ops \<Rightarrow> nat list \<Rightarrow> nat list \<Rightarrow> world \<Rightarrow> daemon_input \<Rightarrow> 'd daemon \<Rightarrow> 'd daemon outcome" where
  "daemon_step Y env ops tabA tabV w i dm =
     (let sys = pm_sysfs (acpi_pm (w_acpi w)); chk = module_check env ops sys (w_svc w) (vm_tab dm)
      in case i of
        Acpi_Data chunks \<Rightarrow> omap (\<lambda>st. dm\<lparr>pm := st\<rparr>) (acpi_events_read (w_acpi w) env chk tabA chunks (pm dm))
      | Input_Key key \<Rightarrow> omap (\<lambda>(_, st). dm\<lparr>pm := st\<rparr>) (xcpmd_indicate_input (w_acpi w) env chk tabA key (pm dm))
      | Vm_Signal msg \<Rightarrow>
          omap (\<lambda>(tab, s). dm\<lparr>pm := (pm dm)\<lparr>engine := s\<rparr>, vm_tab := tab\<rparr>)
            (vm_state_changed env (\<lambda>tab. module_check env ops sys (w_svc w) tab (arrays (pm dm))) (w_svc w) tabV msg
              (vm_tab dm, engine (pm dm)))
      | Refresh \<Rightarrow>
          omap (\<lambda>(b, log). dm\<lparr>pm := (pm dm)\<lparr>arrays := b, xs_log := log\<rparr>\<rparr>)
            (update_batteries (acpi_pm (w_acpi w)) (arrays (pm dm), xs_log (pm dm)))
      | Add_Rule name C A U \<Rightarrow> on_engine (xcpmd_add_rule Y env ops name C A U) dm
      | Remove_Rule name \<Rightarrow> on_engine (xcpmd_remove_rule env ops name) dm
      | Add_Var name v \<Rightarrow> on_engine (xcpmd_add_var ops name v) dm
      | Remove_Var name \<Rightarrow> on_engine (xcpmd_remove_var env name) dm)"

definition same_slots :: "acpi_env \<Rightarrow> batteries \<Rightarrow> bool" where
  \<comment> \<open>the power supply directory shows the battery slots of the last refresh, with readable files\<close>
  "same_slots aenv b \<longleftrightarrow>
     (let sys = pm_sysfs (acpi_pm aenv)
      in no_batteries (acpi_pm aenv) \<or>
         num_battery_structs_allocd b \<noteq> 0 \<and> get_max_battery_index sys + 1 = int (num_battery_structs_allocd b) \<and>
         (\<forall>i. reopen_error sys i = None) \<and> (\<forall>i < num_battery_structs_allocd b. terminated (slot_info sys i)))"

definition input_ok :: "yajl \<Rightarrow> 'd env \<Rightarrow> world \<Rightarrow> daemon_input \<Rightarrow> 'd daemon \<Rightarrow> bool" where
  "input_ok Y env w i dm \<longleftrightarrow>
     (case i of
        Vm_Signal msg \<Rightarrow> xenmgr_ok (w_svc w)
      | Refresh \<Rightarrow> same_slots (w_acpi w) (arrays (pm dm))
      | Add_Rule name C A U \<Rightarrow> length C \<le> 255 \<and> length A \<le> 255 \<and> length U \<le> 255 \<and> stored_vars_ok Y env (engine (pm dm))
      | Add_Var name v \<Rightarrow> name_ok name \<and> (\<exists>a. writable a \<and> (\<forall>x. a \<noteq> Arg_Var x) \<and> v = arg_to_string (show_ptr env) a)
      | _ \<Rightarrow> True)"

definition daemon_inv :: "'d env \<Rightarrow> nat list \<Rightarrow> nat list \<Rightarrow> 'd daemon \<Rightarrow> bool" where
  "daemon_inv env tabA tabV dm \<longleftrightarrow> pm_inv env tabA tabV (pm dm)"

lemma on_engine_keeps:
  assumes "daemon_inv env tabA tabV dm"
    and "\<exists>reply s'. f (engine (pm dm)) = Ok (reply, s') \<and> policy_ok env (registry (engine (pm dm))) s'"
  shows "fine (daemon_inv env tabA tabV) (on_engine f dm)"
proof -
  obtain reply s' where s': "f (engine (pm dm)) = Ok (reply, s')" "policy_ok env (registry (engine (pm dm))) s'"
    using assms(2) by blast
  have "engine_inv env tabA tabV (engine (pm dm))" using assms(1) by (simp add: daemon_inv_def pm_inv_def)
  then have "engine_inv env tabA tabV s'" using s'(2) by (rule policy_kept_inv)
  with s'(1) assms(1) show ?thesis by (simp add: daemon_inv_def pm_inv_def fine_def on_engine_def)
qed

lemma acpi_read_keeps:
  "keeps (pm_inv env tabA tabV) (acpi_events_read aenv env (module_check env ops sys svc tab) tabA chunks)"
proof -
  have "fine (pm_inv env tabA tabV) (ofold (\<lambda>bytes. process_acpi_message aenv env (module_check env ops sys svc tab) tabA
      (takeWhile (\<lambda>c. c \<noteq> CHR 0x00) bytes)) chunks st)" if "pm_inv env tabA tabV st" for st
    using that
  proof (induction chunks arbitrary: st)
    case (Cons bytes chunks)
    obtain st' where "process_acpi_message aenv env (module_check env ops sys svc tab) tabA (takeWhile (\<lambda>c. c \<noteq> CHR 0x00) bytes) st = Ok st'"
        "pm_inv env tabA tabV st'"
      using keepsD [OF message_keeps Cons.prems] unfolding fine_def by blast
    with Cons.IH show ?case by simp
  qed (simp add: fine_def)
  then show ?thesis by (simp add: keeps_def acpi_events_read_def)
qed

lemma refresh_keeps:
  assumes "pm_inv env tabA tabV st" and "same_slots aenv (arrays st)"
  shows "\<exists>b log. update_batteries (acpi_pm aenv) (arrays st, xs_log st) = Ok (b, log) \<and> (\<exists>ps. b = live_bats ps)"
proof -
  obtain ps where ps: "arrays st = live_bats ps" using assms(1) by (auto simp: pm_inv_def)
  show ?thesis
  proof (cases "no_batteries (acpi_pm aenv)")
    case True
    then show ?thesis using ps by (auto simp: update_batteries_def)
  next
    case False
    let ?sys = "pm_sysfs (acpi_pm aenv)" and ?n = "length ps"
    have n: "num_battery_structs_allocd (arrays st) = ?n" by (simp add: ps live_bats_def)
    have "\<exists>ops. update_batteries (acpi_pm aenv) (bats (map fst ps) (map snd ps), xs_log st) =
        Ok (bats (map (slot_status ?sys) [0..<?n]) (map (slot_info ?sys) [0..<?n]), xs_log st @ ops)"
      using refresh_same_slots [of "acpi_pm aenv" "map snd ps" "map fst ps" "xs_log st"] False assms(2)
      by (auto simp: same_slots_def n Let_def)
    moreover have "bats (map (slot_status ?sys) [0..<?n]) (map (slot_info ?sys) [0..<?n]) =
        live_bats (map (\<lambda>i. (slot_status ?sys i, slot_info ?sys i)) [0..<?n])"
      by (simp add: live_bats_def comp_def)
    ultimately show ?thesis unfolding ps live_bats_def by (metis live_bats_def)
  qed
qed

lemma daemon_step_keeps:
  assumes inv: "daemon_inv env tabA tabV dm" and laws: "store_laws env" and ok: "input_ok Y env w i dm"
  shows "fine (daemon_inv env tabA tabV) (daemon_step Y env (xops env il fl (Suc k)) tabA tabV w i dm)"
proof -
  let ?ops = "xops env il fl (Suc k)" and ?s = "engine (pm dm)" and ?sys = "pm_sysfs (acpi_pm (w_acpi w))"
  have pm: "pm_inv env tabA tabV (pm dm)" using inv by (simp add: daemon_inv_def)
  then have eng: "engine_inv env tabA tabV ?s" by (simp add: pm_inv_def)
  then have pol: "policy_ok env (registry ?s) ?s" by (simp add: engine_inv_def)
  have pm': "daemon_inv env tabA tabV (dm\<lparr>pm := st\<rparr>) = pm_inv env tabA tabV st" for st by (simp add: daemon_inv_def)
  show ?thesis
  proof (cases i)
    case (Acpi_Data chunks)
    with keepsD [OF acpi_read_keeps pm, of "w_acpi w" ?ops ?sys "w_svc w" "vm_tab dm" chunks] show ?thesis
      by (auto simp: daemon_step_def fine_def pm' Let_def simp del: xops.simps)
  next
    case (Input_Key key)
    with keepsD [OF input_keeps pm, of "w_acpi w" ?ops ?sys "w_svc w" "vm_tab dm" key] show ?thesis
      by (auto simp: daemon_step_def fine_def pm' xcpmd_indicate_input_def Let_def simp del: xops.simps)
  next
    case (Vm_Signal msg)
    have "xenmgr_ok (w_svc w)" using ok Vm_Signal by (simp add: input_ok_def)
    from keepsD [OF vm_signal_keeps [OF this], of env tabA tabV "(vm_tab dm, ?s)" ?ops ?sys "arrays (pm dm)" msg] eng pm
    show ?thesis unfolding daemon_step_def Vm_Signal Let_def daemon_input.case
      by (auto simp: fine_def daemon_inv_def pm_inv_def simp del: xops.simps)
  next
    case Refresh
    have "same_slots (w_acpi w) (arrays (pm dm))" using ok Refresh by (simp add: input_ok_def)
    from refresh_keeps [OF pm this] pm show ?thesis
      by (auto simp: daemon_step_def Refresh fine_def daemon_inv_def pm_inv_def Let_def)
  next
    case (Add_Rule name C A U)
    have "\<exists>reply s'. xcpmd_add_rule Y env ?ops name C A U ?s = Ok (reply, s') \<and> policy_ok env (registry ?s) s'"
      by (rule add_rule_keeps [OF pol laws]) (use ok Add_Rule in \<open>simp_all add: input_ok_def\<close>)
    from on_engine_keeps [OF inv, of "xcpmd_add_rule Y env ?ops name C A U"] this show ?thesis by (simp add: daemon_step_def Add_Rule Let_def del: xops.simps)
  next
    case (Remove_Rule name)
    from on_engine_keeps [OF inv, of "xcpmd_remove_rule env ?ops name"] remove_rule_keeps [OF pol laws, of ?ops name] show ?thesis
      by (simp add: daemon_step_def Remove_Rule Let_def del: xops.simps)
  next
    case (Add_Var name v)
    then obtain a where a: "name_ok name" "writable a" "\<forall>x. a \<noteq> Arg_Var x" "v = arg_to_string (show_ptr env) a"
      using ok by (auto simp: input_ok_def)
    from on_engine_keeps [OF inv, of "xcpmd_add_var ?ops name v"] add_var_keeps [OF pol a(1-3), of il fl k] a(4) show ?thesis
      by (simp add: daemon_step_def Add_Var Let_def del: xops.simps)
  next
    case (Remove_Var name)
    from on_engine_keeps [OF inv, of "xcpmd_remove_var env name"] remove_var_keeps [OF pol laws, of name] show ?thesis
      by (simp add: daemon_step_def Remove_Var Let_def)
  qed
qed

inductive daemon_reaches ::
  "yajl \<Rightarrow> 'd env \<Rightarrow> 'd xstate parser_ops \<Rightarrow> nat list \<Rightarrow> nat list \<Rightarrow> 'd daemon \<Rightarrow> 'd daemon \<Rightarrow> bool"
  for Y env ops tabA tabV dm0 where
  start: "daemon_reaches Y env ops tabA tabV dm0 dm0"
| input: "daemon_reaches Y env ops tabA tabV dm0 dm \<Longrightarrow> input_ok Y env w i dm \<Longrightarrow>
    daemon_step Y env ops tabA tabV w i dm = Ok dm' \<Longrightarrow> daemon_reaches Y env ops tabA tabV dm0 dm'"

lemma reached_inv:
  assumes "daemon_reaches Y env (xops env il fl (Suc k)) tabA tabV dm0 dm" and "daemon_inv env tabA tabV dm0" and "store_laws env"
  shows "daemon_inv env tabA tabV dm"
  using assms
proof (induction rule: daemon_reaches.induct)
  case (input dm w i dm')
  then show ?case using daemon_step_keeps [of env tabA tabV dm Y w i il fl k] by (simp add: fine_def del: xops.simps)
qed


lemma register_database: "database (snd (init_module evs conds s)) = database s"
proof -
  have "database (snd (fold (\<lambda>row (table, s). let (e, s') = add_event (er_name row) (er_stateless row) (er_type row) (er_reset row) s
         in (table[er_index row := e], s')) rows p)) = database (snd p)" for rows and p :: "nat list \<times> 'a xstate"
    by (induction rows arbitrary: p) (auto simp: add_event_def Let_def split: prod.splits)
  from this [of evs "(replicate (length evs) 0, s)"] have "database (snd (register_events evs s)) = database s"
    by (simp add: register_events_def)
  then show ?thesis by (cases "register_events evs s") (simp add: init_module_def register_conditions_run)
qed

lemma map_env_store_laws: "store_laws map_env"
  by (simp add: store_laws_def map_env_def var_path_def)



text \<open>
  C38. The methods about one battery check the number against the sysfs but index the arrays:
  with live arrays each of them returns exactly when the slot is not in the sysfs or is one of
  the slots of the last refresh. A battery that has appeared since then crashes the daemon.
\<close>

theorem battery_methods_index:
  "returns (xcpmd_battery_is_present sys (live_bats ps) n) = (battery_slot_exists sys (unat n) \<longrightarrow> unat n < length ps) \<and>
   returns (xcpmd_battery_percentage sys (live_bats ps) n) = (battery_slot_exists sys (unat n) \<longrightarrow> unat n < length ps) \<and>
   returns (xcpmd_battery_state sys (live_bats ps) n) = (battery_slot_exists sys (unat n) \<longrightarrow> unat n < length ps)"
proof -
  let ?b = "live_bats ps" and ?i = "unat n"
  obtain p where p: "get_battery_percentage sys ?b ?i = Ok p"
    using get_battery_percentage_returns [of "map snd ps" "map fst ps" sys ?i] by (auto simp: live_bats_def)
  have "?i < length ps \<Longrightarrow> \<exists>r. get_battery_charge_state sys ?b ?i = Ok r"
    using get_battery_charge_state_returns [of "map snd ps" "map fst ps" ?i sys] by (simp add: live_bats_def)
  moreover have "\<not> ?i < length ps \<Longrightarrow> get_battery_charge_state sys ?b ?i = Crash Buffer_Overflow"
    by (simp add: get_battery_charge_state_def live_bats_def)
  moreover have "buf_get (last_status ?b) ?i = (if ?i < length ps then Ok (fst (ps ! ?i)) else Crash Buffer_Overflow)"
    by (simp add: live_bats_def)
  ultimately show ?thesis
    using p by (auto simp: returns_iff xcpmd_battery_is_present_def xcpmd_battery_percentage_def xcpmd_battery_state_def)
qed

theorem battery_methods_index_witness:
  "\<not> returns (xcpmd_battery_is_present (demo_sysfs\<lparr>bat_files := (\<lambda>_. Some [])\<rparr>) (live_bats []) 0)"
  using battery_methods_index [of "demo_sysfs\<lparr>bat_files := (\<lambda>_. Some [])\<rparr>" "[]" 0] by (simp add: battery_slot_exists_def)

text \<open>
  C20. Removing a rule over the bus removes just that rule: for the name of a loaded rule the
  method succeeds, no rule of that name is left, the other rules stay in order as they were and
  the stored copy is removed; for any other name nothing changes and an error is returned.
\<close>

theorem remove_rule_spec:
  assumes "engine_ok s"
  shows "(\<nexists>r. r \<in> set (rules s) \<and> rule_named s name r) \<and>
      xcpmd_remove_rule env ops name s = Ok (Inl (''No rule named '' @ name), s) \<or>
    (\<exists>r s'. r \<in> set (rules s) \<and> rule_named s name r \<and> xcpmd_remove_rule env ops name s = Ok (Inr (), s') \<and> engine_ok s' \<and>
      rules s' = remove1 r (rules s) \<and> rule_heap s' = (rule_heap s)(r := None) \<and>
      database s' = svc_rm env (DB_RULE_PATH @ ''/'' @ name) (database s))"
proof -
  have wf: "wf_engine s" using assms by (simp add: engine_ok_def)
  show ?thesis
  proof (cases "find_first (rule_named s name) (rules s)")
    case None
    then have "\<nexists>r. r \<in> set (rules s) \<and> rule_named s name r" by (auto simp: find_first_None)
    with None show ?thesis by (simp add: xcpmd_remove_rule_def lookup_rule_run [OF wf])
  next
    case (Some r)
    then have r: "r \<in> set (rules s)" "rule_named s name r" using find_first_Some_in by metis+
    obtain rule s' where s': "delete_rule env ops r s = Ok s'" "s' = drop_rule r rule (bump_all (- 1) (rule_vars s rule) s)" "engine_ok s'"
      using delete_linked [OF assms r(1), of env ops] by blast
    have "xcpmd_remove_rule env ops name s = Ok (Inr (), delete_db_rule env name s')"
      using Some s'(1) by (simp add: xcpmd_remove_rule_def lookup_rule_run [OF wf])
    moreover have "rules s' = remove1 r (rules s)" "rule_heap s' = (rule_heap s)(r := None)" "database s' = database s"
      by (simp_all add: s'(2))
    ultimately show ?thesis 
      using r s'(3) by (intro disjI2 exI [of _ r] exI [of _ "delete_db_rule env name s'"] conjI) (simp_all add: delete_db_rule_def)
  qed
qed

theorem remove_rule_spec_witness:
  "\<exists>s'. xcpmd_remove_rule map_env no_ops ''off'' demo_engine = Ok (Inr (), s') \<and> rules s' = []"
proof -
  obtain c where c: "rule_heap demo_engine 0 = Some \<lparr>rule_id = Some ''off'', conditions = [c],
        actions = map (mk_action demo_boot) (snd demo_off), undos = [], is_active = False, linked = True\<rparr>" "rules demo_engine = [0]"
    by (rule demo_off_rule)
  then have named: "rule_named demo_engine ''off'' 0" by (simp add: rule_named_def)
  from remove_rule_spec [OF engine_invD(1) [OF demo_engine_linked(1)], of "''off''" map_env no_ops] c(2) named
  show ?thesis by auto
qed

text \<open>
  C37. One call on the bus can crash the daemon: a value of the form \<open>v1) name(v2\<close> given to
  \<open>add_var\<close> makes two definitions of the same variable out of one. The second is refused
  without a message, and the error path takes the length of the missing message.
\<close>

theorem add_var_duplicate_crashes:
  assumes inv: "policy_ok env reg s" and n: "name_ok n" "cached_var n s = None"
    and a: "writable a" "\<forall>v. a \<noteq> Arg_Var v" and b: "writable b" "\<forall>v. b \<noteq> Arg_Var v"
  shows "xcpmd_add_var (xops env il fl (Suc k)) n
      (arg_to_string (show_ptr env) a @ '') '' @ n @ ''('' @ arg_to_string (show_ptr env) b) s = Crash Null_Deref"
proof -
  let ?ops = "xops env il fl (Suc k)" and ?a = "fn_arg_of a" and ?b = "fn_arg_of b"
  have set: "all_settled env s" using inv by (simp add: policy_ok_def)
  obtain v s1 where add: "add_var env (xops env il fl k) n a None s = Ok (Some v, None, s1)"
    using n(2) by (simp add: add_var_def settled_lookup [OF set] cache_db_var_def Let_def)
  have av: "\<forall>v. ?a \<noteq> FA_Var v" "\<forall>v. ?b \<noteq> FA_Var v" using a b by (cases a; cases b; auto simp: writable_def)+
  let ?text = "n @ CHR ''('' # fn_arg_text ?a @ CHR '')'' # CHR '' '' # n @ CHR ''('' # fn_arg_text ?b @ CHR '')'' # []"
  let ?d = "(load_parse_string (Some ?text) (init_parse_data None (Some ?text) None None None TYPE_VAR_MAP blank_parse_data))"
  have d: "\<not> finished ?d" "accum_sz ?d = 256" "accum_name ?d = []" "accum_arg ?d = []" "pargs ?d = []" "parsing ?d = TYPE_VAR_MAP"
      "message ?d = None" "var_map ?d = []" "error_code ?d = 0" "pstate ?d = S_start" "parse_rest ?d = ?text"
    by (simp_all add: load_parse_string_def init_parse_data_def cleanup_parse_data_def blank_parse_data_def)
  have first: "add_to_var_map_as_arg ?ops [] n ?a None s = Ok (False, [(n, ?a)], None, s1)"
    using add writable_conv [OF a(1)] by (simp add: add_to_var_map_as_arg_def add_to_var_map_code_def get_var_from_map_def)
  have "get_var_from_map [(n, ?a)] n \<noteq> None" using av(1) by (cases ?a) (auto simp: get_var_from_map_def)
  then have second: "add_to_var_map_as_arg ?ops [(n, ?a)] n ?b None s1 = Ok (True, [(n, ?a)], None, s1)"
    by (simp add: add_to_var_map_as_arg_def add_to_var_map_code_def)
  let ?e = "?d\<lparr>error_code := 0, var_map := [(n, ?a)], message := None, undo := True, cur_arg_type := parsed_type_of ?a\<rparr>"
  let ?f = "?e\<lparr>error_code := 1, var_map := [(n, ?a)], message := None, undo := True, cur_arg_type := parsed_type_of ?b\<rparr>"
  have "parse_loop ?ops ?d s = parse_loop ?ops (?d\<lparr>pstate := S_start, parse_rest := ?text\<rparr>) s"
    by (rule parse_loop_cong) (simp add: d)
  also have "\<dots> = parse_loop ?ops (?e\<lparr>pstate := S_acceptFn, parse_rest := CHR '' '' # n @ CHR ''('' # fn_arg_text ?b @ CHR '')'' # []\<rparr>) s1"
    by (subst definition_step [OF n(1) writable_arg_ok [OF a(1)] av(1) d(1-6), where vm = "[(n, ?a)]" and msg = None and s' = s1 and err = False])
      (use d first in simp_all)
  also have "\<dots> = parse_loop ?ops (?e\<lparr>pstate := S_start, parse_rest := n @ CHR ''('' # fn_arg_text ?b @ CHR '')'' # []\<rparr>) s1"
    by (rule space_step) (use d in simp_all)
  also have "\<dots> = parse_loop ?ops (?f\<lparr>pstate := S_acceptFn, parse_rest := []\<rparr>) s1"
    by (subst definition_step [OF n(1) writable_arg_ok [OF b(1)] av(2), where vm = "[(n, ?a)]" and msg = None and s' = s1 and err = True])
      (use d second in simp_all)
  also have "\<dots> = Ok (error_code ?f = 0, ?f\<lparr>parse_rest := [], parsing := TYPE_UNDETERMINED, finished := True, pstate := S_start\<rparr>, s1)"
    by (rule definition_end) (use d in simp_all)
  finally have loop: "\<exists>d'. parse_loop ?ops ?d s = Ok (False, d', s1) \<and> error_code d' = 1 \<and> message d' = None" by simp
  moreover have "parse_var_persistent ?ops ?text blank_parse_data s = parse_loop ?ops ?d s"
    unfolding parse_var_persistent_def parse_def
    by (rule parse_loop_cong) (simp add: load_parse_string_def init_parse_data_def cleanup_parse_data_def blank_parse_data_def)
  ultimately show ?thesis
    using writable_text [OF a(1), of "show_ptr env"] writable_text [OF b(1), of "show_ptr env"]
    by (auto simp: xcpmd_add_var_def parse_var_def extract_parse_error_def simp del: xops.simps)
qed

theorem add_var_duplicate_crashes_witness:
  "xcpmd_add_var (xops map_env 0 (F32_Inf False) 1) ''a'' ''1) a(2'' demo_state = Crash Null_Deref"
proof -
  have ok: "name_ok ''a''" "writable (Arg_Int 1)" "writable (Arg_Int 2)"
    by (simp_all add: name_ok_def condition_isAlphanumeric_us_def less_eq_char_def writable_def in_int32_def)
  have c: "cached_var ''a'' demo_state = None" by (simp add: cached_var_def demo_state_def empty_state_def)
  have t: "arg_to_string (show_ptr map_env) (Arg_Int 1) = ''1''" "arg_to_string (show_ptr map_env) (Arg_Int 2) = ''2''"
    by code_simp+
  from add_var_duplicate_crashes [OF demo_policy_ok ok(1) c ok(2) _ ok(3), of 0 "F32_Inf False" 0] t show ?thesis
    by (simp del: xops.simps)
qed

end
