(* ===== verification/Vm_Deps.thy ===== *)
theory Vm_Deps
  imports Vm_Utils
begin

text \<open>
  Shutting down the machines another machine depends on (\<open>vm-actions-module.c\<close>,
  \<open>gather_dependencies\<close> and \<open>shutdown_dependencies_of_vm\<close>). A call of the recursive
  function may use \<open>k\<close> more stack frames; running out of them is a crash, and it is proved
  that one frame per machine is enough. A table of dependencies that could not be made is
  \<open>None\<close>, the null pointer.
\<close>

record vm_deps =
  vd_path :: string
  vd_state :: string
  vd_type :: string
  vd_deps :: "string list option" \<comment> \<open>the paths of its dependencies\<close>

definition is_stopped :: "vm_deps \<Rightarrow> bool" where
  "is_stopped e \<longleftrightarrow> vd_state e = ''stopping'' \<or> vd_state e = ''stopped''"

fun gather_scan ::
  "(string \<Rightarrow> string list \<Rightarrow> string list outcome) \<Rightarrow> nat \<Rightarrow> string \<Rightarrow> vm_deps list \<Rightarrow> string list \<Rightarrow> string list outcome" where
  \<comment> \<open>the loop over the master list; the first argument is the recursive call\<close>
  "gather_scan again depth vm [] flat = Ok flat"
| "gather_scan again depth vm (e # es) flat =
     (if vd_path e = vm then
        (if depth > 0 \<and> is_stopped e then Ok flat
         else
           obind (deref (vd_deps e)) (\<lambda>deps.
           obind (ofold (\<lambda>d flat. if d \<in> set flat then Ok flat else again d (flat @ [d])) deps flat)
             (gather_scan again depth vm es)))
      else gather_scan again depth vm es flat)"

fun gather_dependencies :: "nat \<Rightarrow> nat \<Rightarrow> string \<Rightarrow> vm_deps list \<Rightarrow> string list \<Rightarrow> string list outcome" where
  "gather_dependencies 0 depth vm master flat = Crash Stack_Overflow"
| "gather_dependencies (Suc k) depth vm master flat =
     gather_scan (\<lambda>d. gather_dependencies k (Suc depth) d master) depth vm master flat"

definition sort_vm :: "string \<Rightarrow> string option \<Rightarrow> vm_deps \<Rightarrow> string list \<times> string list \<Rightarrow> string list \<times> string list" where
  \<comment> \<open>the body of the loop that makes the safe list; the pair is the jeopardy and the safe list\<close>
  "sort_vm vm ty e = (\<lambda>(jeopardy, safe).
     if vm = vd_path e then (jeopardy, safe)
     else if is_stopped e then (jeopardy, safe)
     else if vd_path e \<in> set jeopardy then
       (if ty \<noteq> None \<and> vd_type e \<noteq> the ty then (remove1 (vd_path e) jeopardy, safe @ [vd_path e])
        else (jeopardy, safe))
     else (jeopardy, safe @ [vd_path e]))"

fun rescue :: "string list \<Rightarrow> string list \<times> string list \<Rightarrow> string list \<times> string list" where
  \<comment> \<open>the loop over the dependencies of a safe machine; they move to the end of the safe list\<close>
  "rescue [] p = p"
| "rescue (d # ds) (jeopardy, safe) =
     rescue ds (if d \<in> set jeopardy then (remove1 d jeopardy, safe @ [d]) else (jeopardy, safe))"

lemma rescue_length: "length (fst (rescue ds (j, s))) + length (snd (rescue ds (j, s))) = length j + length s"
  by (induction ds arbitrary: j s) (auto simp: length_remove1 dest: length_pos_if_in_set)

function rescue_all :: "vm_deps list \<Rightarrow> string list option \<Rightarrow> string list \<Rightarrow> string list \<Rightarrow> string list option" where
  \<comment> \<open>the loop over the safe list, which grows at its end; \<open>prev\<close> is the table found in the
     last round, the result the jeopardy list, or \<open>None\<close> for the early return\<close>
  "rescue_all master prev [] jeopardy = Some jeopardy"
| "rescue_all master prev (v # todo) jeopardy =
     (let deps = (case find_first (\<lambda>e. vd_path e = v) master of Some e \<Rightarrow> vd_deps e | None \<Rightarrow> prev)
      in case deps of
           None \<Rightarrow> None
         | Some ds \<Rightarrow> (let (jeopardy, todo) = rescue ds (jeopardy, todo) in rescue_all master deps todo jeopardy))"
  by pat_completeness auto
termination
proof (relation "measure (\<lambda>(master, prev, todo, jeopardy). length todo + length jeopardy)")
  fix master prev v todo jeopardy deps ds p jeopardy' todo'
  assume "p = rescue ds (jeopardy, todo)" "(jeopardy', todo') = p"
  then show "((master, deps, todo', jeopardy'), master, prev, v # todo, jeopardy)
      \<in> measure (\<lambda>(master, prev, todo, jeopardy). length todo + length jeopardy)"
    using rescue_length [of ds jeopardy todo] by (cases "rescue ds (jeopardy, todo)") simp
qed simp

definition master_entry :: "xenmgr \<Rightarrow> vm_identifier_table_row \<Rightarrow> vm_deps outcome" where
  "master_entry svc row =
     omap (\<lambda>deps. \<lparr>vd_path = vm_path row, vd_state = vm_state_of svc (vm_path row), vd_type = vm_type_of svc (vm_path row),
                   vd_deps = map_option (map vm_path) deps\<rparr>)
       (new_vm_identifier_table svc (Some (vm_deps_of svc (vm_path row))))"

fun master_list :: "xenmgr \<Rightarrow> vm_identifier_table_row list \<Rightarrow> vm_deps list outcome" where
  "master_list svc [] = Ok []"
| "master_list svc (row # rows) = obind (master_entry svc row) (\<lambda>e. omap (Cons e) (master_list svc rows))"

definition vms_to_stop :: "nat \<Rightarrow> vm_deps list \<Rightarrow> string \<Rightarrow> string option \<Rightarrow> string list outcome" where
  \<comment> \<open>what is left of the jeopardy list, on the cached master list\<close>
  "vms_to_stop k master vm ty =
     omap (\<lambda>jeopardy.
         if jeopardy = [] then []
         else let (jeopardy, safe) = fold (sort_vm vm ty) master (jeopardy, [])
              in case rescue_all master None safe jeopardy of None \<Rightarrow> [] | Some js \<Rightarrow> js)
       (gather_dependencies k 0 vm master [])"

definition shutdown_dependencies_of_vm ::
  "nat \<Rightarrow> xenmgr \<Rightarrow> string option \<Rightarrow> string option \<Rightarrow> vm_identifier_table_row list option \<Rightarrow>
   (string list \<times> vm_identifier_table_row list option) outcome" where
  \<comment> \<open>the paths passed to \<open>shutdown_vm_async\<close>, in order, and the table\<close>
  "shutdown_dependencies_of_vm k svc vm ty tab =
     (case vm of
        None \<Rightarrow> Ok ([], tab)
      | Some vm \<Rightarrow>
          obind (populate_vm_identifier_table svc) (\<lambda>tab.
          obind (deref tab) (\<lambda>rows.
          obind (master_list svc rows) (\<lambda>master.
            omap (\<lambda>js. (js, tab)) (vms_to_stop k master vm ty)))))"

subsection \<open>Gathering\<close>

text \<open>
  The graph: \<open>x\<close> needs the dependencies of every entry with its path, provided it is the
  root or not stopped.
\<close>

definition deps_of :: "vm_deps list \<Rightarrow> string \<Rightarrow> string set" where
  "deps_of master v = \<Union> {set ds |e ds. e \<in> set master \<and> vd_path e = v \<and> vd_deps e = Some ds}"

definition live_in :: "vm_deps list \<Rightarrow> string \<Rightarrow> bool" where
  "live_in master v \<longleftrightarrow> (\<forall>e \<in> set master. vd_path e = v \<longrightarrow> \<not> is_stopped e)"

definition complete_master :: "vm_deps list \<Rightarrow> bool" where
  \<comment> \<open>one entry per path, with a table of dependencies\<close>
  "complete_master master \<longleftrightarrow> distinct (map vd_path master) \<and> (\<forall>e \<in> set master. vd_deps e \<noteq> None)"

inductive needs :: "vm_deps list \<Rightarrow> string \<Rightarrow> string \<Rightarrow> bool" for master vm where
  direct: "d \<in> deps_of master vm \<Longrightarrow> needs master vm d"
| indirect: "needs master vm v \<Longrightarrow> live_in master v \<Longrightarrow> d \<in> deps_of master v \<Longrightarrow> needs master vm d"

lemma deps_of_entry:
  "complete_master master \<Longrightarrow> e \<in> set master \<Longrightarrow> vd_deps e = Some ds \<Longrightarrow> deps_of master (vd_path e) = set ds"
  unfolding deps_of_def complete_master_def by (auto dest: inj_onD [of vd_path] simp: distinct_map)

lemma deps_of_Union:
  "deps_of master v = (\<Union>e \<in> set master. if vd_path e = v then (case vd_deps e of None \<Rightarrow> {} | Some ds \<Rightarrow> set ds) else {})"
  by (auto simp: deps_of_def split: option.splits if_splits) (metis option.case(2))

lemma deps_of_unknown: "v \<notin> vd_path ` set master \<Longrightarrow> deps_of master v = {}"
  by (auto simp: deps_of_def)

lemma live_entry: "complete_master master \<Longrightarrow> e \<in> set master \<Longrightarrow> live_in master (vd_path e) \<longleftrightarrow> \<not> is_stopped e"
  by (auto simp: live_in_def complete_master_def distinct_map dest: inj_onD)

lemma gather_scan_other: "vm \<notin> vd_path ` set es \<Longrightarrow> gather_scan again depth vm es flat = Ok flat"
  by (induction es) auto

lemma gather_scan_run:
  assumes "complete_master master"
  shows "gather_scan again depth vm master flat =
    (if depth > 0 \<and> \<not> live_in master vm then Ok flat
     else case find_first (\<lambda>e. vd_path e = vm) master of
       None \<Rightarrow> Ok flat
     | Some e \<Rightarrow> ofold (\<lambda>d flat. if d \<in> set flat then Ok flat else again d (flat @ [d])) (the (vd_deps e)) flat)"
proof (cases "find_first (\<lambda>e. vd_path e = vm) master")
  case None
  then have "vm \<notin> vd_path ` set master" by (auto simp: find_first_None)
  with None show ?thesis by (simp add: gather_scan_other)
next
  case (Some e)
  then have e: "e \<in> set master" "vd_path e = vm" using find_first_Some_in by fastforce+
  then obtain ds where ds: "vd_deps e = Some ds" using assms by (auto simp: complete_master_def)
  have live: "live_in master vm \<longleftrightarrow> \<not> is_stopped e" using live_entry [OF assms e(1)] e(2) by simp
  have "gather_scan again depth vm es flat =
      (if depth > 0 \<and> is_stopped e then Ok flat
       else ofold (\<lambda>d flat. if d \<in> set flat then Ok flat else again d (flat @ [d])) ds flat)"
    if "distinct (map vd_path es)" "find_first (\<lambda>e. vd_path e = vm) es = Some e" for es
    using that
  proof (induction es)
    case (Cons a es)
    show ?case
    proof (cases "vd_path a = vm")
      case True
      with Cons.prems have "a = e" "vm \<notin> vd_path ` set es" by auto
      then have "obind m (gather_scan again depth vm es) = m" for m
        by (cases m) (simp_all add: gather_scan_other)
      with True \<open>a = e\<close> ds show ?thesis by (auto simp del: neq0_conv)
    qed (use Cons in simp)
  qed simp
  from this [of master] Some live ds assms show ?thesis by (simp add: complete_master_def)
qed

definition grown :: "vm_deps list \<Rightarrow> string list \<Rightarrow> string list \<Rightarrow> bool" where
  \<comment> \<open>the list keeps what it had, and what is new has its own dependencies on it\<close>
  "grown master flat flat' \<longleftrightarrow> set flat \<subseteq> set flat' \<and> (distinct flat \<longrightarrow> distinct flat') \<and>
     (\<forall>x \<in> set flat' - set flat. live_in master x \<longrightarrow> deps_of master x \<subseteq> set flat')"

lemma grown_refl: "grown master flat flat"
  by (simp add: grown_def)

lemma grown_trans: "grown master a b \<Longrightarrow> grown master b c \<Longrightarrow> grown master a c"
  unfolding grown_def by blast

definition closed_under :: "vm_deps list \<Rightarrow> string set \<Rightarrow> bool" where
  "closed_under master N \<longleftrightarrow> (\<forall>v \<in> N. live_in master v \<longrightarrow> deps_of master v \<subseteq> N)"

definition all_deps :: "vm_deps list \<Rightarrow> string set" where
  "all_deps master = (\<Union>e \<in> set master. set (case vd_deps e of None \<Rightarrow> [] | Some ds \<Rightarrow> ds))"

lemma finite_all_deps [simp]: "finite (all_deps master)"
  unfolding all_deps_def by (intro finite_UN_I finite_set)

lemma gather_loop:
  assumes IH: "\<And>d flat. card (all_deps master - set flat) < k \<Longrightarrow> \<exists>flat'. again d flat = Ok flat' \<and> grown master flat flat' \<and>
      (live_in master d \<longrightarrow> deps_of master d \<subseteq> set flat') \<and> (\<forall>N. d \<in> N \<longrightarrow> closed_under master N \<longrightarrow> set flat' \<subseteq> set flat \<union> N)"
    and k: "card (all_deps master - set flat) \<le> k" and ds: "set ds \<subseteq> all_deps master"
  shows "\<exists>flat'. ofold (\<lambda>d flat. if d \<in> set flat then Ok flat else again d (flat @ [d])) ds flat = Ok flat' \<and>
    grown master flat flat' \<and> set ds \<subseteq> set flat' \<and>
    (\<forall>N. set ds \<subseteq> N \<longrightarrow> closed_under master N \<longrightarrow> set flat' \<subseteq> set flat \<union> N)"
  using k ds
proof (induction ds arbitrary: flat)
  case Nil
  then show ?case by (simp add: grown_refl)
next
  case (Cons d ds)
  obtain flat1 where f1: "(if d \<in> set flat then Ok flat else again d (flat @ [d])) = Ok flat1" "grown master flat flat1"
      "d \<in> set flat1" "\<forall>N. d \<in> N \<longrightarrow> closed_under master N \<longrightarrow> set flat1 \<subseteq> set flat \<union> N"
  proof (cases "d \<in> set flat")
    case True
    then show thesis using that [of flat] by (simp add: grown_refl)
  next
    case False
    have "all_deps master - set (flat @ [d]) \<subset> all_deps master - set flat" using False Cons.prems(2) by auto
    then have "card (all_deps master - set (flat @ [d])) < k"
      using psubset_card_mono [of "all_deps master - set flat"] Cons.prems(1) by (meson finite_Diff finite_all_deps order_less_le_trans)
    from IH [OF this] obtain flat1 where f: "again d (flat @ [d]) = Ok flat1" "grown master (flat @ [d]) flat1"
        "live_in master d \<longrightarrow> deps_of master d \<subseteq> set flat1"
        "\<forall>N. d \<in> N \<longrightarrow> closed_under master N \<longrightarrow> set flat1 \<subseteq> set (flat @ [d]) \<union> N"
      by blast
    have "grown master flat flat1" using f(2,3) False by (auto simp: grown_def)
    moreover have "d \<in> set flat1" using f(2) by (auto simp: grown_def)
    ultimately show thesis using that [of flat1] f(1,4) False by auto
  qed
  have "all_deps master - set flat1 \<subseteq> all_deps master - set flat" using f1(2) by (auto simp: grown_def)
  then have le: "card (all_deps master - set flat1) \<le> k"
    using card_mono [of "all_deps master - set flat"] Cons.prems(1) by (meson finite_Diff finite_all_deps order_trans)
  have "set ds \<subseteq> all_deps master" using Cons.prems(2) by simp
  from Cons.IH [OF le this] obtain flat2 where
    f2: "ofold (\<lambda>d flat. if d \<in> set flat then Ok flat else again d (flat @ [d])) ds flat1 = Ok flat2"
      "grown master flat1 flat2" "set ds \<subseteq> set flat2"
      "\<forall>N. set ds \<subseteq> N \<longrightarrow> closed_under master N \<longrightarrow> set flat2 \<subseteq> set flat1 \<union> N"
    by (elim exE conjE) (rule that)
  have "set flat1 \<subseteq> set flat2" using f2(2) by (simp add: grown_def)
  then have "set (d # ds) \<subseteq> set flat2" using f1(3) f2(3) by auto
  moreover have "\<forall>N. set (d # ds) \<subseteq> N \<longrightarrow> closed_under master N \<longrightarrow> set flat2 \<subseteq> set flat \<union> N"
  proof (intro allI impI)
    fix N
    assume "set (d # ds) \<subseteq> N" and N: "closed_under master N"
    then have "set flat1 \<subseteq> set flat \<union> N" "set flat2 \<subseteq> set flat1 \<union> N" using f1(4) f2(4) by simp_all
    then show "set flat2 \<subseteq> set flat \<union> N" by blast
  qed
  ultimately show ?case using f1(1) f2(1) grown_trans [OF f1(2) f2(2)] by simp
qed

lemma gather_run:
  assumes "complete_master master" and "card (all_deps master - set flat) < k"
  shows "\<exists>flat'. gather_dependencies k depth vm master flat = Ok flat' \<and> grown master flat flat' \<and>
    (depth = 0 \<or> live_in master vm \<longrightarrow> deps_of master vm \<subseteq> set flat') \<and>
    (\<forall>N. deps_of master vm \<subseteq> N \<or> depth > 0 \<and> \<not> live_in master vm \<longrightarrow> closed_under master N \<longrightarrow> set flat' \<subseteq> set flat \<union> N)"
  using assms(2)
proof (induction k arbitrary: depth vm flat)
  case (Suc k)
  show ?case
  proof (cases "find_first (\<lambda>e. vd_path e = vm) master")
    case None
    then have "deps_of master vm = {}" by (intro deps_of_unknown) (auto simp: find_first_None)
    with None show ?thesis by (simp add: gather_scan_run [OF assms(1)] grown_refl)
  next
    case (Some e)
    then have e: "e \<in> set master" "vd_path e = vm" using find_first_Some_in by fastforce+
    then obtain ds where ds: "vd_deps e = Some ds" using assms(1) by (auto simp: complete_master_def)
    have deps: "deps_of master vm = set ds" using deps_of_entry [OF assms(1) e(1) ds] e(2) by simp
    have sub: "set ds \<subseteq> all_deps master" using e(1) ds by (force simp: all_deps_def)
    have IH: "\<exists>flat'. gather_dependencies k (Suc depth) d master flat = Ok flat' \<and> grown master flat flat' \<and>
        (live_in master d \<longrightarrow> deps_of master d \<subseteq> set flat') \<and> (\<forall>N. d \<in> N \<longrightarrow> closed_under master N \<longrightarrow> set flat' \<subseteq> set flat \<union> N)"
      if "card (all_deps master - set flat) < k" for d flat
    proof -
      from Suc.IH [OF that, of "Suc depth" d] obtain flat' where f: "gather_dependencies k (Suc depth) d master flat = Ok flat'"
          "grown master flat flat'" "live_in master d \<longrightarrow> deps_of master d \<subseteq> set flat'"
          "\<forall>N. deps_of master d \<subseteq> N \<or> \<not> live_in master d \<longrightarrow> closed_under master N \<longrightarrow> set flat' \<subseteq> set flat \<union> N"
        by (simp only: nat.simps simp_thms zero_less_Suc) (elim exE conjE, rule that)
      moreover have "deps_of master d \<subseteq> N \<or> \<not> live_in master d" if "d \<in> N" "closed_under master N" for N
        using that by (auto simp: closed_under_def)
      ultimately show ?thesis by metis
    qed
    have le: "card (all_deps master - set flat) \<le> k" using Suc.prems by simp
    let ?step = "\<lambda>d flat. if d \<in> set flat then Ok flat else gather_dependencies k (Suc depth) d master (flat @ [d])"
    have "\<exists>flat'. ofold ?step ds flat = Ok flat' \<and> grown master flat flat' \<and> set ds \<subseteq> set flat' \<and>
        (\<forall>N. set ds \<subseteq> N \<longrightarrow> closed_under master N \<longrightarrow> set flat' \<subseteq> set flat \<union> N)"
      by (rule gather_loop [OF IH le sub])
    then obtain flat' where "ofold ?step ds flat = Ok flat'" "grown master flat flat'" "set ds \<subseteq> set flat'"
        "\<forall>N. set ds \<subseteq> N \<longrightarrow> closed_under master N \<longrightarrow> set flat' \<subseteq> set flat \<union> N"
      by (elim exE conjE) (rule that)
    with Some ds deps show ?thesis
      by (cases "depth > 0 \<and> \<not> live_in master vm") (auto simp: gather_scan_run [OF assms(1)] grown_refl)
  qed
qed simp

lemma gathered:
  assumes "complete_master master" and "card (all_deps master) < k"
  shows "\<exists>js. gather_dependencies k 0 vm master [] = Ok js \<and> distinct js \<and> set js = {d. needs master vm d}"
proof -
  from gather_run [OF assms(1), of "[]" k 0 vm] assms(2) obtain js where js: "gather_dependencies k 0 vm master [] = Ok js"
      "grown master [] js" "deps_of master vm \<subseteq> set js"
      "\<forall>N. deps_of master vm \<subseteq> N \<longrightarrow> closed_under master N \<longrightarrow> set js \<subseteq> N"
    by auto
  have "set js \<subseteq> {d. needs master vm d}"
    by (rule js(4) [rule_format]) (auto simp: closed_under_def intro: needs.intros)
  moreover have "d \<in> set js" if "needs master vm d" for d
    using that by induction (use js(2,3) in \<open>auto simp: grown_def\<close>)
  ultimately show ?thesis using js(1,2) by (auto simp: grown_def)
qed

subsection \<open>Sorting and rescuing\<close>

definition wrong_type :: "string option \<Rightarrow> vm_deps \<Rightarrow> bool" where
  "wrong_type ty e \<longleftrightarrow> ty \<noteq> None \<and> vd_type e \<noteq> the ty"

definition runs_beside :: "string \<Rightarrow> vm_deps \<Rightarrow> bool" where
  \<comment> \<open>another machine than the given one, neither stopping nor stopped\<close>
  "runs_beside vm e \<longleftrightarrow> vd_path e \<noteq> vm \<and> \<not> is_stopped e"

lemma sort_run:
  assumes "distinct js" and "distinct (map vd_path es)"
  shows "fold (sort_vm vm ty) es (js, safe) =
    (filter (\<lambda>v. \<not> (\<exists>e \<in> set es. vd_path e = v \<and> runs_beside vm e \<and> wrong_type ty e)) js,
     safe @ map vd_path (filter (\<lambda>e. runs_beside vm e \<and> (vd_path e \<notin> set js \<or> wrong_type ty e)) es))"
  using assms
proof (induction es arbitrary: js safe)
  case (Cons e es)
  let ?out = "runs_beside vm e \<and> vd_path e \<in> set js \<and> wrong_type ty e"
  let ?js = "if ?out then remove1 (vd_path e) js else js"
  let ?safe = "if runs_beside vm e \<and> (vd_path e \<notin> set js \<or> wrong_type ty e) then safe @ [vd_path e] else safe"
  have step: "sort_vm vm ty e (js, safe) = (?js, ?safe)"
    by (auto simp: sort_vm_def runs_beside_def wrong_type_def)
  have js: "?js = filter (\<lambda>v. \<not> (v = vd_path e \<and> runs_beside vm e \<and> wrong_type ty e)) js"
    using Cons.prems(1) by (auto simp: distinct_remove1_removeAll removeAll_filter_not_eq filter_id_conv intro!: filter_cong)
  have same: "vd_path a \<in> set ?js \<longleftrightarrow> vd_path a \<in> set js" if "a \<in> set es" for a
    using that Cons.prems by (auto simp: image_iff)
  have "fold (sort_vm vm ty) es (?js, ?safe) =
    (filter (\<lambda>v. \<not> (\<exists>e \<in> set es. vd_path e = v \<and> runs_beside vm e \<and> wrong_type ty e)) ?js,
     ?safe @ map vd_path (filter (\<lambda>e. runs_beside vm e \<and> (vd_path e \<notin> set ?js \<or> wrong_type ty e)) es))"
    using Cons.prems by (intro Cons.IH) simp_all
  moreover have "filter (\<lambda>a. runs_beside vm a \<and> (vd_path a \<notin> set ?js \<or> wrong_type ty a)) es =
      filter (\<lambda>a. runs_beside vm a \<and> (vd_path a \<notin> set js \<or> wrong_type ty a)) es"
    using same by (intro filter_cong refl) simp
  moreover have "filter (\<lambda>v. \<not> (\<exists>e \<in> set es. vd_path e = v \<and> runs_beside vm e \<and> wrong_type ty e)) ?js =
      filter (\<lambda>v. \<not> (\<exists>e \<in> set (e # es). vd_path e = v \<and> runs_beside vm e \<and> wrong_type ty e)) js"
    unfolding js filter_filter by (intro filter_cong refl) auto
  ultimately show ?case using step by simp
qed simp

lemma rescue_run:
  "distinct j \<Longrightarrow> fst (rescue ds (j, t)) = filter (\<lambda>x. x \<notin> set ds) j \<and>
   (\<exists>m. snd (rescue ds (j, t)) = t @ m \<and> set m = set ds \<inter> set j)"
proof (induction ds arbitrary: j t)
  case (Cons d ds)
  show ?case
  proof (cases "d \<in> set j")
    case True
    have rem: "remove1 d j = filter (\<lambda>x. x \<noteq> d) j"
      using Cons.prems by (simp add: distinct_remove1_removeAll removeAll_filter_not_eq eq_commute)
    have "distinct (remove1 d j)" using Cons.prems by simp
    from Cons.IH [OF this, of "t @ [d]"] obtain m where m: "snd (rescue ds (remove1 d j, t @ [d])) = (t @ [d]) @ m"
        "set m = set ds \<inter> set (remove1 d j)" "fst (rescue ds (remove1 d j, t @ [d])) = filter (\<lambda>x. x \<notin> set ds) (remove1 d j)"
      by blast
    have "fst (rescue (d # ds) (j, t)) = filter (\<lambda>x. x \<notin> set (d # ds)) j"
      using True m(3) rem by (simp add: conj_commute)
    moreover have "snd (rescue (d # ds) (j, t)) = t @ (d # m)" using True m(1) by simp
    moreover have "set (d # m) = set (d # ds) \<inter> set j" using True m(2) rem by auto
    ultimately show ?thesis by blast
  next
    case False
    with Cons.IH [of j t] Cons.prems show ?thesis by (auto intro!: filter_cong)
  qed
qed simp

inductive needed_by :: "vm_deps list \<Rightarrow> string set \<Rightarrow> string \<Rightarrow> bool" for master S where
  first: "u \<in> S \<Longrightarrow> d \<in> deps_of master u \<Longrightarrow> needed_by master S d"
| further: "needed_by master S u \<Longrightarrow> d \<in> deps_of master u \<Longrightarrow> needed_by master S d"

lemma needed_by_mono: "needed_by master S d \<Longrightarrow> (\<And>u. u \<in> S \<Longrightarrow> u \<in> T \<or> needed_by master T u) \<Longrightarrow> needed_by master T d"
  by (induction rule: needed_by.induct) (blast intro: needed_by.intros)+

lemma rescue_all_run:
  assumes "complete_master master" and "distinct jeopardy"
    and "prev = None \<longrightarrow> todo = [] \<or> hd todo \<in> vd_path ` set master"
    and "\<forall>ds. prev = Some ds \<longrightarrow> set ds \<inter> set jeopardy = {}"
  shows "\<exists>js. rescue_all master prev todo jeopardy = Some js \<and> distinct js \<and> set js \<subseteq> set jeopardy \<and>
    (\<forall>u \<in> set todo \<union> (set jeopardy - set js). deps_of master u \<inter> set js = {}) \<and>
    (\<forall>x \<in> set jeopardy - set js. needed_by master (set todo) x)"
  using assms
proof (induction master prev todo jeopardy rule: rescue_all.induct)
  case (2 master prev v todo jeopardy)
  let ?deps = "case find_first (\<lambda>e. vd_path e = v) master of Some e \<Rightarrow> vd_deps e | None \<Rightarrow> prev"
  obtain ds where ds: "?deps = Some ds" and known: "set ds \<inter> set jeopardy = deps_of master v \<inter> set jeopardy"
  proof (cases "find_first (\<lambda>e. vd_path e = v) master")
    case None
    then have "v \<notin> vd_path ` set master" by (auto simp: find_first_None)
    moreover from this "2.prems"(3) obtain ds where "prev = Some ds" by (cases prev) auto
    ultimately show thesis using that None "2.prems"(4) by (simp add: deps_of_unknown)
  next
    case (Some e)
    then have e: "e \<in> set master" "vd_path e = v" using find_first_Some_in by fastforce+
    then obtain ds where ds: "vd_deps e = Some ds" using "2.prems"(1) by (auto simp: complete_master_def)
    then show thesis using that Some deps_of_entry [OF "2.prems"(1) e(1) ds] e(2) by simp
  qed
  obtain j t where res: "rescue ds (jeopardy, todo) = (j, t)" by (cases "rescue ds (jeopardy, todo)")
  with rescue_run [OF "2.prems"(2), of ds todo] obtain m where
    j: "j = filter (\<lambda>x. x \<notin> set ds) jeopardy" and t: "t = todo @ m" and m: "set m = set ds \<inter> set jeopardy"
    by auto
  have "\<exists>js. rescue_all master ?deps t j = Some js \<and> distinct js \<and> set js \<subseteq> set j \<and>
      (\<forall>u \<in> set t \<union> (set j - set js). deps_of master u \<inter> set js = {}) \<and> (\<forall>x \<in> set j - set js. needed_by master (set t) x)"
    using "2.prems"(1,2) by (intro "2.IH" [OF refl ds res [symmetric] refl]) (auto simp: ds j)
  then obtain js where js: "rescue_all master ?deps t j = Some js" "distinct js" "set js \<subseteq> set j"
      "\<forall>u \<in> set t \<union> (set j - set js). deps_of master u \<inter> set js = {}" "\<forall>x \<in> set j - set js. needed_by master (set t) x"
    by blast
  have m': "needed_by master (set (v # todo)) x" if "x \<in> set m" for x
    using that m known by (intro needed_by.first [of v]) auto
  have "deps_of master u \<inter> set js = {}" if "u \<in> set (v # todo) \<union> (set jeopardy - set js)" for u
  proof -
    have "deps_of master v \<inter> set js = {}" using known js(3) j by auto
    with that js(4) show ?thesis using m j t by auto
  qed
  moreover have "needed_by master (set (v # todo)) x" if x: "x \<in> set jeopardy - set js" for x
  proof (cases "x \<in> set j")
    case True
    with js(5) x have "needed_by master (set t) x" by blast
    then show ?thesis by (rule needed_by_mono) (use t m' in auto)
  next
    case False
    with x j m have "x \<in> set m" by auto
    then show ?thesis by (rule m')
  qed
  moreover have "rescue_all master prev (v # todo) jeopardy = Some js"
    using ds res js(1) by (simp add: Let_def split: option.splits)
  ultimately show ?case using js(2,3) j by (intro exI [of _ js]) auto
qed simp

subsection \<open>Properties\<close>

lemma vms_to_stop_run:
  assumes master: "complete_master master" and k: "card (all_deps master) < k"
  shows "\<exists>js. vms_to_stop k master vm ty = Ok js \<and> distinct js \<and>
    (\<forall>v \<in> set js. needs master vm v) \<and>
    (\<forall>e \<in> set master. vd_path e \<in> set js \<and> runs_beside vm e \<longrightarrow> \<not> wrong_type ty e) \<and>
    (\<forall>e \<in> set master. runs_beside vm e \<and> vd_path e \<notin> set js \<longrightarrow> deps_of master (vd_path e) \<inter> set js = {}) \<and>
    (\<forall>v. needs master vm v \<and> v \<notin> set js \<longrightarrow>
       (\<exists>e \<in> set master. vd_path e = v \<and> runs_beside vm e \<and> wrong_type ty e) \<or>
       needed_by master {vd_path e |e. e \<in> set master \<and> runs_beside vm e \<and> vd_path e \<notin> set js} v)"
proof -
  obtain js0 where js0: "gather_dependencies k 0 vm master [] = Ok js0" "distinct js0" "set js0 = {d. needs master vm d}"
    using gathered [OF master k] by blast
  have dist: "distinct (map vd_path master)" using master by (simp add: complete_master_def)
  let ?bad = "\<lambda>v. \<exists>e \<in> set master. vd_path e = v \<and> runs_beside vm e \<and> wrong_type ty e"
  let ?js1 = "filter (\<lambda>v. \<not> ?bad v) js0"
  let ?safe = "map vd_path (filter (\<lambda>e. runs_beside vm e \<and> (vd_path e \<notin> set js0 \<or> wrong_type ty e)) master)"
  have sort: "fold (sort_vm vm ty) master (js0, []) = (?js1, ?safe)"
    using sort_run [OF js0(2) dist, of vm ty "[]"] by simp
  have "hd ?safe \<in> vd_path ` set master" if "?safe \<noteq> []" using hd_in_set [OF that] by auto
  then have "\<exists>js. rescue_all master None ?safe ?js1 = Some js \<and> distinct js \<and> set js \<subseteq> set ?js1 \<and>
      (\<forall>u \<in> set ?safe \<union> (set ?js1 - set js). deps_of master u \<inter> set js = {}) \<and>
      (\<forall>x \<in> set ?js1 - set js. needed_by master (set ?safe) x)"
    using master js0(2) by (intro rescue_all_run) auto
  then obtain js where js: "rescue_all master None ?safe ?js1 = Some js" "distinct js" "set js \<subseteq> set ?js1"
      "\<forall>u \<in> set ?safe \<union> (set ?js1 - set js). deps_of master u \<inter> set js = {}"
      "\<forall>x \<in> set ?js1 - set js. needed_by master (set ?safe) x"
    by blast
  have run: "vms_to_stop k master vm ty = Ok js"
    using js0(1) js(1,3) sort by (auto simp: vms_to_stop_def)
  have type: "\<not> wrong_type ty e" if "e \<in> set master" "vd_path e \<in> set js" "runs_beside vm e" for e
    using that js(3) by auto
  have stays: "vd_path e \<in> set ?safe \<or> vd_path e \<in> set ?js1" if "e \<in> set master" "runs_beside vm e" for e
    using that js0(3) by (force simp: inj_on_eq_iff [OF dist [unfolded distinct_map, THEN conjunct2]])
  have kept: "deps_of master (vd_path e) \<inter> set js = {}"
    if "e \<in> set master" "runs_beside vm e" "vd_path e \<notin> set js" for e
    using stays [OF that(1,2)] that(3) js(4) by blast
  have spared: "needed_by master {vd_path e |e. e \<in> set master \<and> runs_beside vm e \<and> vd_path e \<notin> set js} v"
    if v: "needs master vm v" "v \<notin> set js" "\<not> ?bad v" for v
  proof -
    have "v \<in> set ?js1 - set js" using v js0(3) by simp
    then have "needed_by master (set ?safe) v" using js(5) by blast
    moreover have "set ?safe \<subseteq> {vd_path e |e. e \<in> set master \<and> runs_beside vm e \<and> vd_path e \<notin> set js}"
      using js(3) by auto
    ultimately show ?thesis using needed_by_mono by (metis (no_types, lifting) subsetD)
  qed
  have needs: "needs master vm v" if "v \<in> set js" for v using that js(3) js0(3) by auto
  show ?thesis
    by (intro exI [of _ js] conjI ballI allI impI; (elim conjE)?) (use run js(2) type kept spared needs in blast)+
qed


text \<open>Four machines: a user's, one that it needs through another, and a second user.\<close>

definition demo_master :: "vm_deps list" where
  "demo_master =
    [\<lparr>vd_path = ''a'', vd_state = ''stopped'', vd_type = ''svm'', vd_deps = Some [''b'', ''d'']\<rparr>,
     \<lparr>vd_path = ''b'', vd_state = ''running'', vd_type = ''vpnvm'', vd_deps = Some [''c'']\<rparr>,
     \<lparr>vd_path = ''c'', vd_state = ''running'', vd_type = ''ndvm'', vd_deps = Some []\<rparr>,
     \<lparr>vd_path = ''e'', vd_state = ''running'', vd_type = ''svm'', vd_deps = Some [''c'']\<rparr>,
     \<lparr>vd_path = ''d'', vd_state = ''stopped'', vd_type = ''ndvm'', vd_deps = Some []\<rparr>]"

lemma demo_master_ok: "complete_master demo_master" "card (all_deps demo_master) < 6"
proof -
  show "complete_master demo_master" by (simp add: complete_master_def demo_master_def)
  have "all_deps demo_master = {''b'', ''c'', ''d''}" by (auto simp: all_deps_def demo_master_def)
  then show "card (all_deps demo_master) < 6" by simp
qed


text \<open>
  C35. Stopped dependencies are shut down again: the comment above the function promises that
  machines already stopping or stopped are left alone and that only machines of the asked type
  are shut down; a direct dependency that is stopped stays on the jeopardy list whatever its
  type, unless a running machine needs it, and is passed to \<open>shutdown_vm_async\<close>.
\<close>

theorem stopped_dependency_shut_down:
  assumes master: "complete_master master" and k: "card (all_deps master) < k"
    and e: "e \<in> set master" "is_stopped e" "vd_path e \<in> deps_of master vm"
    and alone: "\<forall>f \<in> set master. runs_beside vm f \<longrightarrow> \<not> needed_by master {vd_path f} (vd_path e)"
  shows "\<exists>js. vms_to_stop k master vm ty = Ok js \<and> vd_path e \<in> set js"
proof -
  obtain js where js: "vms_to_stop k master vm ty = Ok js"
    and all: "\<forall>v. needs master vm v \<and> v \<notin> set js \<longrightarrow>
       (\<exists>e \<in> set master. vd_path e = v \<and> runs_beside vm e \<and> wrong_type ty e) \<or>
       needed_by master {vd_path e |e. e \<in> set master \<and> runs_beside vm e \<and> vd_path e \<notin> set js} v"
    using vms_to_stop_run [OF master k, of vm ty] by blast
  have single: "\<exists>u \<in> S. needed_by master {u} d" if "needed_by master S d" for S d
    using that by induction (blast intro: needed_by.intros)+
  have "f = e" if "f \<in> set master" "vd_path f = vd_path e" for f
    using that e(1) master by (auto simp: complete_master_def distinct_map dest: inj_onD)
  with e(2) have "\<not> (\<exists>f \<in> set master. vd_path f = vd_path e \<and> runs_beside vm f \<and> wrong_type ty f)"
    by (auto simp: runs_beside_def)
  moreover have "\<not> needed_by master {vd_path f |f. f \<in> set master \<and> runs_beside vm f \<and> vd_path f \<notin> set js} (vd_path e)"
    using single alone by blast
  moreover have "needs master vm (vd_path e)" using e(3) by (rule needs.direct)
  ultimately show ?thesis using js all by blast
qed

theorem stopped_dependency_shut_down_witness:
  "\<exists>js. vms_to_stop 6 demo_master ''a'' (Some ''vpnvm'') = Ok js \<and> ''d'' \<in> set js"
proof -
  let ?e = "\<lparr>vd_path = ''d'', vd_state = ''stopped'', vd_type = ''ndvm'', vd_deps = Some []\<rparr>"
  have deps: "deps_of demo_master v = (if v = ''a'' then {''b'', ''d''} else if v = ''b'' \<or> v = ''e'' then {''c''} else {})" for v
    by (simp add: deps_of_Union demo_master_def) auto
  have "d = ''c''" if "needed_by demo_master {u} d" "u \<noteq> ''a''" for u d
    using that by induction (auto simp: deps split: if_splits)
  then have "\<forall>f \<in> set demo_master. runs_beside ''a'' f \<longrightarrow> \<not> needed_by demo_master {vd_path f} (vd_path ?e)"
    by (fastforce simp: runs_beside_def)
  moreover have "?e \<in> set demo_master" "is_stopped ?e" "vd_path ?e \<in> deps_of demo_master ''a''"
    by (simp_all add: demo_master_def is_stopped_def deps [unfolded demo_master_def])
  ultimately show ?thesis
    using stopped_dependency_shut_down [OF demo_master_ok, of ?e "''a''" "Some ''vpnvm''"] by simp
qed

end
