(* ===== verification/Action_Modules.thy ===== *)
theory Action_Modules
  imports Condition_Modules Vm_Events Vm_Deps
begin

text \<open>
  The modules that provide actions (\<open>default-actions-module.c\<close>,
  \<open>vm-actions-module.c\<close>): their tables, constructors and actions. What an action asks of the
  outside (a D-Bus call to a machine, a log line, a shell command) is recorded in order. The
  locale \<open>action_module\<close> is the contract with the engine: called with arguments that match
  the prototype of its row, an action returns and leaves the engine alone.
\<close>

record action_table_row =
  ar_name :: string
  ar_func :: string
  ar_prototype :: string
  ar_pretty :: string

definition action_row :: "string \<Rightarrow> string \<Rightarrow> string \<Rightarrow> string \<Rightarrow> action_table_row" where
  "action_row n f p pp = \<lparr>ar_name = n, ar_func = f, ar_prototype = p, ar_pretty = pp\<rparr>"

datatype sys_op =
    Printed string
  | Logged string
  | Shell string
  | Vm_Call string string \<comment> \<open>the method and the path of the machine\<close>
  | Vm_Call_Arg string string string

record 'd act_state =
  ac_engine :: "'d xstate"
  ac_table :: vm_table
  ac_ops :: "sys_op list"

type_synonym 'd action_fun = "'d env \<Rightarrow> 'd xstate parser_ops \<Rightarrow> arg list \<Rightarrow> 'd act_state \<Rightarrow> 'd act_state outcome"

definition register_actions :: "action_table_row list \<Rightarrow> 'd xstate \<Rightarrow> 'd xstate" where
  \<comment> \<open>the loop of a constructor\<close>
  "register_actions rows = fold (\<lambda>row. add_action_type (ar_name row) (ar_func row) (ar_prototype row) (ar_pretty row)) rows"

definition with_str ::
  "'d env \<Rightarrow> 'd xstate parser_ops \<Rightarrow> arg list \<Rightarrow> nat \<Rightarrow> (string \<Rightarrow> 'd act_state \<Rightarrow> 'd act_state outcome) \<Rightarrow>
   'd act_state \<Rightarrow> 'd act_state outcome" where
  \<comment> \<open>\<open>get_arg(args, i)->arg.str\<close> and the rest of the function\<close>
  "with_str env ops args i f st =
     obind (read_arg env ops value_str args i (ac_engine st)) (\<lambda>(t, s). f t (st\<lparr>ac_engine := s\<rparr>))"

definition do_op :: "sys_op \<Rightarrow> 'd act_state \<Rightarrow> 'd act_state outcome" where
  "do_op x st = Ok (st\<lparr>ac_ops := ac_ops st @ [x]\<rparr>)"

subsection \<open>Default actions\<close>

definition do_nothing :: "'d action_fun" where
  "do_nothing env ops args st = Ok st"

definition print_string :: "'d action_fun" where
  "print_string env ops args = with_str env ops args 0 (\<lambda>t. do_op (Printed (t @ [CHR 0x0A])))"

definition log_string :: "'d action_fun" where
  "log_string env ops args = with_str env ops args 0 (\<lambda>t. do_op (Logged (t @ [CHR 0x0A])))"

definition run_script :: "'d action_fun" where
  "run_script env ops args = with_str env ops args 0 (\<lambda>t. do_op (Shell (t @ '' &'')))"

definition default_action_table :: "action_table_row list" where
  "default_action_table =
    [action_row ''doNothing'' ''do_nothing'' ''n'' ''void'',
     action_row ''printString'' ''print_string'' ''s'' ''string string_to_print'',
     action_row ''logString'' ''log_string'' ''s'' ''string string_to_log'',
     action_row ''runScript'' ''run_script'' ''s'' ''string path_to_script'']"

definition default_init_module :: "'d xstate \<Rightarrow> 'd xstate" where
  "default_init_module = register_actions default_action_table"

definition default_functions :: "(string \<times> 'd action_fun) list" where
  "default_functions = [(''do_nothing'', do_nothing), (''print_string'', print_string), (''log_string'', log_string),
     (''run_script'', run_script)]"

subsection \<open>Actions on machines\<close>

type_synonym search = "xenmgr \<Rightarrow> string \<Rightarrow> vm_table \<Rightarrow> (vmid option \<times> vm_table) outcome"

definition find_vm ::
  "xenmgr \<Rightarrow> search \<Rightarrow> string \<Rightarrow> (string \<Rightarrow> 'd act_state \<Rightarrow> 'd act_state outcome) \<Rightarrow> 'd act_state \<Rightarrow> 'd act_state outcome" where
  \<comment> \<open>fresh table, search, nothing if there is no such machine; then the rest of the function\<close>
  "find_vm svc search k f st =
     obind (populate_vm_identifier_table svc) (\<lambda>tab.
     obind (search svc k tab) (\<lambda>(vmid, tab).
       case Option.bind vmid vmid_path of
         None \<Rightarrow> Ok (st\<lparr>ac_table := tab\<rparr>)
       | Some path \<Rightarrow> f path (st\<lparr>ac_table := tab\<rparr>)))"

definition call_vm :: "search \<Rightarrow> string \<Rightarrow> xenmgr \<Rightarrow> 'd action_fun" where
  \<comment> \<open>the common body of the actions that make one call\<close>
  "call_vm search method svc env ops args =
     with_str env ops args 0 (\<lambda>t. find_vm svc search t (\<lambda>path. do_op (Vm_Call method path)))"

definition call_vm_file :: "search \<Rightarrow> string \<Rightarrow> xenmgr \<Rightarrow> 'd action_fun" where
  "call_vm_file search method svc env ops args =
     with_str env ops args 0 (\<lambda>t. find_vm svc search t (\<lambda>path.
       with_str env ops args 1 (\<lambda>filename. do_op (Vm_Call_Arg method path filename))))"

definition sleep_vm :: "xenmgr \<Rightarrow> 'd action_fun" where
  "sleep_vm = call_vm new_vmid_search_result_by_name ''sleep''"
definition resume_vm :: "xenmgr \<Rightarrow> 'd action_fun" where
  "resume_vm = call_vm new_vmid_search_result_by_name ''resume''"
definition pause_vm :: "xenmgr \<Rightarrow> 'd action_fun" where
  "pause_vm = call_vm new_vmid_search_result_by_name ''pause''"
definition unpause_vm :: "xenmgr \<Rightarrow> 'd action_fun" where
  "unpause_vm = call_vm new_vmid_search_result_by_name ''unpause''"
definition reboot_vm :: "xenmgr \<Rightarrow> 'd action_fun" where
  "reboot_vm = call_vm new_vmid_search_result_by_name ''reboot''"
definition shutdown_vm :: "xenmgr \<Rightarrow> 'd action_fun" where
  "shutdown_vm = call_vm new_vmid_search_result_by_name ''shutdown''"
definition start_vm :: "xenmgr \<Rightarrow> 'd action_fun" where
  "start_vm = call_vm new_vmid_search_result_by_name ''start''"
definition suspend_vm_to_file :: "xenmgr \<Rightarrow> 'd action_fun" where
  "suspend_vm_to_file = call_vm_file new_vmid_search_result_by_name ''suspend_to_file''"
definition resume_vm_from_file :: "xenmgr \<Rightarrow> 'd action_fun" where
  "resume_vm_from_file = call_vm_file new_vmid_search_result_by_name ''resume_from_file''"
definition sleep_vm_by_uuid :: "xenmgr \<Rightarrow> 'd action_fun" where
  "sleep_vm_by_uuid = call_vm new_vmid_search_result_by_uuid ''sleep''"
definition resume_vm_by_uuid :: "xenmgr \<Rightarrow> 'd action_fun" where
  "resume_vm_by_uuid = call_vm new_vmid_search_result_by_uuid ''resume''"
definition pause_vm_by_uuid :: "xenmgr \<Rightarrow> 'd action_fun" where
  "pause_vm_by_uuid = call_vm new_vmid_search_result_by_uuid ''pause''"
definition unpause_vm_by_uuid :: "xenmgr \<Rightarrow> 'd action_fun" where
  "unpause_vm_by_uuid = call_vm new_vmid_search_result_by_uuid ''unpause''"
definition reboot_vm_by_uuid :: "xenmgr \<Rightarrow> 'd action_fun" where
  "reboot_vm_by_uuid = call_vm new_vmid_search_result_by_uuid ''reboot''"
definition shutdown_vm_by_uuid :: "xenmgr \<Rightarrow> 'd action_fun" where
  "shutdown_vm_by_uuid = call_vm new_vmid_search_result_by_uuid ''shutdown''"
definition start_vm_by_uuid :: "xenmgr \<Rightarrow> 'd action_fun" where
  "start_vm_by_uuid = call_vm new_vmid_search_result_by_uuid ''start''"
definition suspend_vm_by_uuid_to_file :: "xenmgr \<Rightarrow> 'd action_fun" where
  "suspend_vm_by_uuid_to_file = call_vm_file new_vmid_search_result_by_uuid ''suspend_to_file''"
definition resume_vm_by_uuid_from_file :: "xenmgr \<Rightarrow> 'd action_fun" where
  "resume_vm_by_uuid_from_file = call_vm_file new_vmid_search_result_by_uuid ''resume_from_file''"

definition shutdown_deps :: "nat \<Rightarrow> xenmgr \<Rightarrow> string option \<Rightarrow> string \<Rightarrow> 'd act_state \<Rightarrow> 'd act_state outcome" where
  \<comment> \<open>the call of \<open>shutdown_dependencies_of_vm\<close> with its calls on the bus\<close>
  "shutdown_deps k svc ty path st =
     omap (\<lambda>(js, tab). st\<lparr>ac_table := tab, ac_ops := ac_ops st @ map (Vm_Call ''shutdown'') js\<rparr>)
       (shutdown_dependencies_of_vm k svc (Some path) ty (ac_table st))"

definition shutdown_deps_found :: "search \<Rightarrow> string option \<Rightarrow> nat \<Rightarrow> xenmgr \<Rightarrow> 'd action_fun" where
  "shutdown_deps_found search ty k svc env ops args =
     with_str env ops args 0 (\<lambda>t. find_vm svc search t (shutdown_deps k svc ty))"

definition shutdown_dependencies_of_vm_by_name :: "nat \<Rightarrow> xenmgr \<Rightarrow> 'd action_fun" where
  "shutdown_dependencies_of_vm_by_name = shutdown_deps_found new_vmid_search_result_by_name None"
definition shutdown_dependencies_of_vm_by_uuid :: "nat \<Rightarrow> xenmgr \<Rightarrow> 'd action_fun" where
  "shutdown_dependencies_of_vm_by_uuid = shutdown_deps_found new_vmid_search_result_by_uuid None"
definition shutdown_vpnvm_dependencies_of_vm_by_name :: "nat \<Rightarrow> xenmgr \<Rightarrow> 'd action_fun" where
  "shutdown_vpnvm_dependencies_of_vm_by_name = shutdown_deps_found new_vmid_search_result_by_name (Some ''vpnvm'')"
definition shutdown_vpnvm_dependencies_of_vm_by_uuid :: "nat \<Rightarrow> xenmgr \<Rightarrow> 'd action_fun" where
  "shutdown_vpnvm_dependencies_of_vm_by_uuid = shutdown_deps_found new_vmid_search_result_by_uuid (Some ''vpnvm'')"

definition shutdown_vpnvm_dependencies :: "nat \<Rightarrow> xenmgr \<Rightarrow> 'd action_fun" where
  "shutdown_vpnvm_dependencies k svc env ops args st =
     obind (populate_vm_identifier_table svc) (\<lambda>tab.
     obind (deref tab) (\<lambda>rows.
       ofold (\<lambda>path st.
           if vm_state_of svc path = ''stopping'' \<or> vm_state_of svc path = ''stopped''
           then shutdown_deps k svc (Some ''vpnvm'') path st else Ok st)
         (map vm_path rows) (st\<lparr>ac_table := tab\<rparr>)))"

definition vm_action_table :: "action_table_row list" where
  "vm_action_table =
    [action_row ''sleepVm'' ''sleep_vm'' ''s'' ''string vm_name'',
     action_row ''resumeVm'' ''resume_vm'' ''s'' ''string vm_name'',
     action_row ''pauseVm'' ''pause_vm'' ''s'' ''string vm_name'',
     action_row ''unpauseVm'' ''unpause_vm'' ''s'' ''string vm_name'',
     action_row ''rebootVm'' ''reboot_vm'' ''s'' ''string vm_name'',
     action_row ''shutdownVm'' ''shutdown_vm'' ''s'' ''string vm_name'',
     action_row ''startVm'' ''start_vm'' ''s'' ''string vm_name'',
     action_row ''suspendVmToFile'' ''suspend_vm_to_file'' ''s s'' ''string vm_name, string filename'',
     action_row ''resumeVmFromFile'' ''resume_vm_from_file'' ''s s'' ''string vm_name, string filename'',
     action_row ''sleepVmUuid'' ''sleep_vm_by_uuid'' ''s'' ''string vm_uuid'',
     action_row ''resumeVmUuid'' ''resume_vm_by_uuid'' ''s'' ''string vm_uuid'',
     action_row ''pauseVmUuid'' ''pause_vm_by_uuid'' ''s'' ''string vm_uuid'',
     action_row ''unpauseVmUuid'' ''unpause_vm_by_uuid'' ''s'' ''string vm_uuid'',
     action_row ''rebootVmUuid'' ''reboot_vm_by_uuid'' ''s'' ''string vm_uuid'',
     action_row ''shutdownVmUuid'' ''shutdown_vm_by_uuid'' ''s'' ''string vm_uuid'',
     action_row ''startVmUuid'' ''start_vm_by_uuid'' ''s'' ''string vm_uuid'',
     action_row ''suspendVmUuidToFile'' ''suspend_vm_by_uuid_to_file'' ''s s'' ''string vm_uuid, string filename'',
     action_row ''resumeVmUuidFromFile'' ''resume_vm_by_uuid_from_file'' ''s s'' ''string vm_uuid, string filename'',
     action_row ''shutdownUnusedVpnvms'' ''shutdown_vpnvm_dependencies'' ''n'' ''void'',
     action_row ''shutdownDepsOfVm'' ''shutdown_dependencies_of_vm_by_name'' ''s'' ''string vm_name'',
     action_row ''shutdownDepsOfVmUuid'' ''shutdown_dependencies_of_vm_by_uuid'' ''s'' ''string vm_uuid'',
     action_row ''shutdownVpnvmsForVm'' ''shutdown_vpnvm_dependencies_of_vm_by_name'' ''s'' ''string vm_name'',
     action_row ''shutdownVpnvmsForVmUuid'' ''shutdown_vpnvm_dependencies_of_vm_by_uuid'' ''s'' ''string vm_uuid'']"

definition vm_actions_init_module :: "'d xstate \<Rightarrow> 'd xstate" where
  "vm_actions_init_module = register_actions vm_action_table"

definition vm_action_functions :: "nat \<Rightarrow> xenmgr \<Rightarrow> (string \<times> 'd action_fun) list" where
  "vm_action_functions k svc =
    [(''sleep_vm'', sleep_vm svc),
     (''resume_vm'', resume_vm svc),
     (''pause_vm'', pause_vm svc),
     (''unpause_vm'', unpause_vm svc),
     (''reboot_vm'', reboot_vm svc),
     (''shutdown_vm'', shutdown_vm svc),
     (''start_vm'', start_vm svc),
     (''suspend_vm_to_file'', suspend_vm_to_file svc),
     (''resume_vm_from_file'', resume_vm_from_file svc),
     (''sleep_vm_by_uuid'', sleep_vm_by_uuid svc),
     (''resume_vm_by_uuid'', resume_vm_by_uuid svc),
     (''pause_vm_by_uuid'', pause_vm_by_uuid svc),
     (''unpause_vm_by_uuid'', unpause_vm_by_uuid svc),
     (''reboot_vm_by_uuid'', reboot_vm_by_uuid svc),
     (''shutdown_vm_by_uuid'', shutdown_vm_by_uuid svc),
     (''start_vm_by_uuid'', start_vm_by_uuid svc),
     (''suspend_vm_by_uuid_to_file'', suspend_vm_by_uuid_to_file svc),
     (''resume_vm_by_uuid_from_file'', resume_vm_by_uuid_from_file svc),
     (''shutdown_vpnvm_dependencies'', shutdown_vpnvm_dependencies k svc),
     (''shutdown_dependencies_of_vm_by_name'', shutdown_dependencies_of_vm_by_name k svc),
     (''shutdown_dependencies_of_vm_by_uuid'', shutdown_dependencies_of_vm_by_uuid k svc),
     (''shutdown_vpnvm_dependencies_of_vm_by_name'', shutdown_vpnvm_dependencies_of_vm_by_name k svc),
     (''shutdown_vpnvm_dependencies_of_vm_by_uuid'', shutdown_vpnvm_dependencies_of_vm_by_uuid k svc)]"

subsection \<open>The contract of a module\<close>

definition act_of_row :: "action_table_row \<Rightarrow> action_type" where
  "act_of_row row = \<lparr>at_name = ar_name row, at_action = ar_func row, at_prototype = ar_prototype row,
     at_pretty_prototype = ar_pretty row\<rparr>"

lemma register_actions_run:
  "register_actions rows s = s\<lparr>action_types := action_types s @ map act_of_row rows\<rparr>"
  by (induction rows arbitrary: s) (simp_all add: register_actions_def add_action_type_def act_of_row_def)

definition calls_extend :: "'d act_state \<Rightarrow> 'd act_state \<Rightarrow> bool" where
  \<comment> \<open>the engine is the same, the operations so far are kept\<close>
  "calls_extend st st' \<longleftrightarrow> ac_engine st' = ac_engine st \<and> (\<exists>xs. ac_ops st' = ac_ops st @ xs)"

lemma calls_extend_refl: "calls_extend st st"
  by (simp add: calls_extend_def)

lemma calls_extend_trans: "calls_extend a b \<Longrightarrow> calls_extend b c \<Longrightarrow> calls_extend a c"
  by (auto simp: calls_extend_def)

locale action_module =
  fixes rows :: "action_table_row list" and act :: "string \<Rightarrow> arg list \<Rightarrow> 'd act_state \<Rightarrow> 'd act_state outcome"
    and ready :: bool
  assumes act_spec: "row \<in> set rows \<Longrightarrow> ready \<Longrightarrow> all_cached (arg_vars args) (ac_engine st) \<Longrightarrow>
    signature (map (arg_kind (ac_engine st)) args) = ar_prototype row \<Longrightarrow>
    \<exists>st'. act (ar_func row) args st = Ok st' \<and> calls_extend st st'"
begin

lemma run_action:
  assumes "ready" and "engine_ok (ac_engine st)" and "well_typed (ac_engine st)"
    and "rule_heap (ac_engine st) r = Some rule" and "a \<in> set (actions rule @ undos rule)"
    and "row \<in> set rows" and "a_type a = act_of_row row"
  shows "\<exists>st'. act (at_action (a_type a)) (a_args a) st = Ok st' \<and> calls_extend st st'"
proof -
  have "all_cached (arg_vars (a_args a)) (ac_engine st)"
    using action_vars_used [OF assms(2,4,5)] used_cached [OF assms(2)] assms(4)
    by (fastforce simp: all_cached_def used_def)
  moreover have "typed_action (ac_engine st) a" using assms(3,4,5) by (auto simp: well_typed_def)
  ultimately show ?thesis
    using act_spec [OF assms(6,1)] assms(7) by (simp add: act_of_row_def typed_action_def)
qed

end

subsection \<open>The two modules meet the contract\<close>

lemma with_str_typed:
  assumes "i < length args" and "all_cached (arg_vars args) (ac_engine st)" and "arg_kind (ac_engine st) (args ! i) = ARG_STR"
  shows "\<exists>t. with_str env ops args i f st = f t st"
proof -
  let ?s = "ac_engine st"
  have "arg_type_of (arg_value ?s (args ! i)) = ARG_STR"
    using arg_value_kind [of "args ! i" args ?s] assms by simp
  then obtain t where "arg_value ?s (args ! i) = Arg_Str t" by (auto simp: str_valued)
  then have "read_arg env ops value_str args i ?s = Ok (t, ?s)"
    using get_arg_cached [OF assms(1,2), of env ops] by (simp add: read_arg_def value_str_def)
  then show ?thesis by (auto simp: with_str_def)
qed

lemma signature_one_str: "signature ts = ''s'' \<Longrightarrow> ts = [ARG_STR]"
  using signature_single [of ts ARG_STR] by simp

lemma signature_two_str: "signature ts = ''s s'' \<Longrightarrow> ts = [ARG_STR, ARG_STR]"
proof (cases ts rule: signature.cases)
  case (3 t u us)
  assume "signature ts = ''s s''"
  with 3 have "arg_type_code t = CHR ''s''" "signature (u # us) = ''s''" by simp_all
  moreover have "u # us = [ARG_STR]" by (rule signature_one_str) fact
  moreover have "t = ARG_STR" using \<open>arg_type_code t = CHR ''s''\<close> by (cases t) simp_all
  ultimately show ?thesis using 3 by simp
qed simp_all

lemma one_str:
  assumes "signature (map (arg_kind (ac_engine st)) args) = ''s''" and "all_cached (arg_vars args) (ac_engine st)"
  shows "\<exists>t. with_str env ops args 0 f st = f t st"
  using signature_one_str [OF assms(1)] by (intro with_str_typed assms) auto

lemma do_op_extends: "\<exists>st'. do_op x st = Ok st' \<and> calls_extend st st'"
  by (simp add: do_op_def calls_extend_def)

definition default_act :: "'d env \<Rightarrow> 'd xstate parser_ops \<Rightarrow> string \<Rightarrow> arg list \<Rightarrow> 'd act_state \<Rightarrow> 'd act_state outcome" where
  \<comment> \<open>the call through the function pointer\<close>
  "default_act env ops f =
     (case map_of default_functions f of Some g \<Rightarrow> g env ops | None \<Rightarrow> (\<lambda>_ _. Crash Null_Deref))"

interpretation def_act: action_module default_action_table "default_act env ops" True
proof
  fix row args and st :: "'a act_state"
  assume row: "row \<in> set default_action_table" and c: "all_cached (arg_vars args) (ac_engine st)"
    and sig: "signature (map (arg_kind (ac_engine st)) args) = ar_prototype row"
  from row consider "ar_func row = ''do_nothing''" | f where "ar_prototype row = ''s''" "default_act env ops (ar_func row) args st =
      with_str env ops args 0 (\<lambda>t. do_op (f t)) st"
    unfolding default_action_table_def set_simps insert_iff empty_iff
    by (elim disjE) (auto simp: action_row_def default_act_def default_functions_def print_string_def log_string_def run_script_def)
  then show "\<exists>st'. default_act env ops (ar_func row) args st = Ok st' \<and> calls_extend st st'"
  proof cases
    case 1
    then show ?thesis by (simp add: default_act_def default_functions_def do_nothing_def calls_extend_refl)
  next
    case 2
    then show ?thesis using one_str [of st args env ops "\<lambda>t. do_op (f t)"] sig c do_op_extends by metis
  qed
qed

definition xenmgr_serves :: "nat \<Rightarrow> xenmgr \<Rightarrow> bool" where
  \<comment> \<open>xenmgr lists each machine once, knows the names of all machines and dependencies, and their
     paths are \<open>/vm/\<close> and a UUID; the stack has a frame for each dependency\<close>
  "xenmgr_serves k svc \<longleftrightarrow>
     (\<exists>vms. list_vms svc = Some vms \<and> distinct vms \<and>
        (\<forall>p \<in> set vms. vm_path_ok p \<and> vm_name_of svc p \<noteq> None \<and>
           (\<forall>d \<in> set (vm_deps_of svc p). vm_path_ok d \<and> vm_name_of svc d \<noteq> None)) \<and>
        card (\<Union>p \<in> set vms. set (vm_deps_of svc p)) < k)"

definition full_row :: "xenmgr \<Rightarrow> string \<Rightarrow> vm_identifier_table_row" where
  "full_row svc p = \<lparr>vm_uuid = hyphenate (drop 4 p), vm_name = the (vm_name_of svc p), vm_path = p\<rparr>"

definition full_entry :: "xenmgr \<Rightarrow> string \<Rightarrow> vm_deps" where
  "full_entry svc p = \<lparr>vd_path = p, vd_state = vm_state_of svc p, vd_type = vm_type_of svc p, vd_deps = Some (vm_deps_of svc p)\<rparr>"

lemma served:
  assumes "xenmgr_serves k svc"
  obtains vms where "populate_vm_identifier_table svc = Ok (Some (map (full_row svc) vms))"
    "master_list svc (map (full_row svc) vms) = Ok (map (full_entry svc) vms)"
    "complete_master (map (full_entry svc) vms)" "card (all_deps (map (full_entry svc) vms)) < k"
proof -
  obtain vms where vms: "list_vms svc = Some vms" "distinct vms"
      "\<forall>p \<in> set vms. vm_path_ok p \<and> vm_name_of svc p \<noteq> None \<and> (\<forall>d \<in> set (vm_deps_of svc p). vm_path_ok d \<and> vm_name_of svc d \<noteq> None)"
      "card (\<Union>p \<in> set vms. set (vm_deps_of svc p)) < k"
    using assms by (auto simp: xenmgr_serves_def)
  have rows: "table_rows svc ps = Ok (Some (map (full_row svc) ps))"
    if "\<forall>p \<in> set ps. vm_path_ok p \<and> vm_name_of svc p \<noteq> None" for ps
    using table_rows_run [OF that] by (simp add: full_row_def)
  have entry: "master_entry svc (full_row svc p) = Ok (full_entry svc p)" if "p \<in> set vms" for p
    using rows [of "vm_deps_of svc p"] vms(3) that
    by (simp add: master_entry_def full_entry_def new_vm_identifier_table_def full_row_def comp_def)
  have "master_list svc (map (full_row svc) ps) = Ok (map (full_entry svc) ps)" if "set ps \<subseteq> set vms" for ps
    using that by (induction ps) (auto simp: entry)
  moreover have "populate_vm_identifier_table svc = Ok (Some (map (full_row svc) vms))"
    using vms(1,3) rows by (simp add: populate_vm_identifier_table_def new_vm_identifier_table_def)
  moreover have "complete_master (map (full_entry svc) vms)"
    using vms(2) by (simp add: complete_master_def full_entry_def comp_def)
  moreover have "card (all_deps (map (full_entry svc) vms)) < k"
    using vms(4) by (simp add: all_deps_def full_entry_def)
  ultimately show thesis using that by blast
qed

lemma shutdown_deps_extends:
  assumes "xenmgr_serves k svc"
  shows "\<exists>st'. shutdown_deps k svc ty path st = Ok st' \<and> calls_extend st st'"
proof -
  obtain vms where vms: "populate_vm_identifier_table svc = Ok (Some (map (full_row svc) vms))"
    "master_list svc (map (full_row svc) vms) = Ok (map (full_entry svc) vms)"
    "complete_master (map (full_entry svc) vms)" "card (all_deps (map (full_entry svc) vms)) < k"
    using served [OF assms] .
  obtain js where "vms_to_stop k (map (full_entry svc) vms) path ty = Ok js"
    using vms_to_stop_run [OF vms(3,4), of path ty] by blast
  then show ?thesis using vms(1,2) by (auto simp: shutdown_deps_def shutdown_dependencies_of_vm_def calls_extend_def)
qed

lemma find_vm_extends:
  assumes "xenmgr_serves k svc" and "\<And>path u. ac_engine u = ac_engine st \<Longrightarrow> \<exists>st'. f path u = Ok st' \<and> calls_extend u st'"
  shows "\<exists>st'. find_vm svc (search_table key) t f st = Ok st' \<and> calls_extend st st'"
proof -
  obtain vms where pop: "populate_vm_identifier_table svc = Ok (Some (map (full_row svc) vms))"
    using served [OF assms(1)] .
  obtain vmid tab where found: "search_table key svc t (Some (map (full_row svc) vms)) = Ok (vmid, tab)"
    by (simp add: search_table_def)
  have ext: "calls_extend (st\<lparr>ac_table := tab\<rparr>) st' \<Longrightarrow> calls_extend st st'" for st' by (simp add: calls_extend_def)
  show ?thesis
  proof (cases "Option.bind vmid vmid_path")
    case None
    then show ?thesis by (simp add: find_vm_def pop found calls_extend_def)
  next
    case (Some path)
    with assms(2) [of "st\<lparr>ac_table := tab\<rparr>" path] ext show ?thesis by (auto simp: find_vm_def pop found)
  qed
qed

lemma shutdown_vpnvm_extends:
  assumes "xenmgr_serves k svc"
  shows "\<exists>st'. shutdown_vpnvm_dependencies k svc env ops args st = Ok st' \<and> calls_extend st st'"
proof -
  obtain vms where pop: "populate_vm_identifier_table svc = Ok (Some (map (full_row svc) vms))"
    using served [OF assms] .
  let ?f = "\<lambda>path st. if vm_state_of svc path = ''stopping'' \<or> vm_state_of svc path = ''stopped''
           then shutdown_deps k svc (Some ''vpnvm'') path st else Ok st"
  have "\<exists>st'. ofold ?f ps st = Ok st' \<and> calls_extend st st'" for ps st
  proof (induction ps arbitrary: st)
    case (Cons p ps)
    obtain st1 where st1: "?f p st = Ok st1" "calls_extend st st1"
      using shutdown_deps_extends [OF assms, of "Some ''vpnvm''" p st] calls_extend_refl by metis
    from Cons.IH [of st1] obtain st2 where "ofold ?f ps st1 = Ok st2" "calls_extend st1 st2" by blast
    with st1 calls_extend_trans show ?case by auto
  qed (simp add: calls_extend_refl)
  from this [of "map vm_path (map (full_row svc) vms)" "st\<lparr>ac_table := Some (map (full_row svc) vms)\<rparr>"]
  show ?thesis by (auto simp: shutdown_vpnvm_dependencies_def pop calls_extend_def)
qed

definition vm_act ::
  "nat \<Rightarrow> xenmgr \<Rightarrow> 'd env \<Rightarrow> 'd xstate parser_ops \<Rightarrow> string \<Rightarrow> arg list \<Rightarrow> 'd act_state \<Rightarrow> 'd act_state outcome" where
  "vm_act k svc env ops f =
     (case map_of (vm_action_functions k svc) f of Some g \<Rightarrow> g env ops | None \<Rightarrow> (\<lambda>_ _. Crash Null_Deref))"

lemmas vm_action_defs = sleep_vm_def resume_vm_def pause_vm_def unpause_vm_def reboot_vm_def shutdown_vm_def start_vm_def
  suspend_vm_to_file_def resume_vm_from_file_def sleep_vm_by_uuid_def resume_vm_by_uuid_def pause_vm_by_uuid_def
  unpause_vm_by_uuid_def reboot_vm_by_uuid_def shutdown_vm_by_uuid_def start_vm_by_uuid_def suspend_vm_by_uuid_to_file_def
  resume_vm_by_uuid_from_file_def shutdown_dependencies_of_vm_by_name_def shutdown_dependencies_of_vm_by_uuid_def
  shutdown_vpnvm_dependencies_of_vm_by_name_def shutdown_vpnvm_dependencies_of_vm_by_uuid_def
  new_vmid_search_result_by_name_def new_vmid_search_result_by_uuid_def

lemma vm_act_lookup:
  "vm_act k svc env ops ''sleep_vm'' = call_vm (search_table vm_name) ''sleep'' svc env ops"
  "vm_act k svc env ops ''sleep_vm_by_uuid'' = call_vm (search_table vm_uuid) ''sleep'' svc env ops"
  "vm_act k svc env ops ''resume_vm'' = call_vm (search_table vm_name) ''resume'' svc env ops"
  "vm_act k svc env ops ''resume_vm_by_uuid'' = call_vm (search_table vm_uuid) ''resume'' svc env ops"
  "vm_act k svc env ops ''pause_vm'' = call_vm (search_table vm_name) ''pause'' svc env ops"
  "vm_act k svc env ops ''pause_vm_by_uuid'' = call_vm (search_table vm_uuid) ''pause'' svc env ops"
  "vm_act k svc env ops ''unpause_vm'' = call_vm (search_table vm_name) ''unpause'' svc env ops"
  "vm_act k svc env ops ''unpause_vm_by_uuid'' = call_vm (search_table vm_uuid) ''unpause'' svc env ops"
  "vm_act k svc env ops ''reboot_vm'' = call_vm (search_table vm_name) ''reboot'' svc env ops"
  "vm_act k svc env ops ''reboot_vm_by_uuid'' = call_vm (search_table vm_uuid) ''reboot'' svc env ops"
  "vm_act k svc env ops ''shutdown_vm'' = call_vm (search_table vm_name) ''shutdown'' svc env ops"
  "vm_act k svc env ops ''shutdown_vm_by_uuid'' = call_vm (search_table vm_uuid) ''shutdown'' svc env ops"
  "vm_act k svc env ops ''start_vm'' = call_vm (search_table vm_name) ''start'' svc env ops"
  "vm_act k svc env ops ''start_vm_by_uuid'' = call_vm (search_table vm_uuid) ''start'' svc env ops"
  "vm_act k svc env ops ''suspend_vm_to_file'' = call_vm_file (search_table vm_name) ''suspend_to_file'' svc env ops"
  "vm_act k svc env ops ''suspend_vm_by_uuid_to_file'' = call_vm_file (search_table vm_uuid) ''suspend_to_file'' svc env ops"
  "vm_act k svc env ops ''resume_vm_from_file'' = call_vm_file (search_table vm_name) ''resume_from_file'' svc env ops"
  "vm_act k svc env ops ''resume_vm_by_uuid_from_file'' = call_vm_file (search_table vm_uuid) ''resume_from_file'' svc env ops"
  "vm_act k svc env ops ''shutdown_dependencies_of_vm_by_name'' = shutdown_deps_found (search_table vm_name) None k svc env ops"
  "vm_act k svc env ops ''shutdown_vpnvm_dependencies_of_vm_by_name'' = shutdown_deps_found (search_table vm_name) (Some ''vpnvm'') k svc env ops"
  "vm_act k svc env ops ''shutdown_dependencies_of_vm_by_uuid'' = shutdown_deps_found (search_table vm_uuid) None k svc env ops"
  "vm_act k svc env ops ''shutdown_vpnvm_dependencies_of_vm_by_uuid'' = shutdown_deps_found (search_table vm_uuid) (Some ''vpnvm'') k svc env ops"
  "vm_act k svc env ops ''shutdown_vpnvm_dependencies'' = shutdown_vpnvm_dependencies k svc env ops"
  by (simp_all add: vm_act_def vm_action_functions_def vm_action_defs)

lemma call_vm_extends:
  assumes svc: "xenmgr_serves k svc" and c: "all_cached (arg_vars args) (ac_engine st)"
    and sig: "signature (map (arg_kind (ac_engine st)) args) = ''s''"
  shows "\<exists>st'. call_vm (search_table key) m svc env ops args st = Ok st' \<and> calls_extend st st'"
    and "\<exists>st'. shutdown_deps_found (search_table key) ty k svc env ops args st = Ok st' \<and> calls_extend st st'"
proof -
  let ?f = "\<lambda>t. find_vm svc (search_table key) t (\<lambda>path. do_op (Vm_Call m path))"
  obtain t where "with_str env ops args 0 ?f st = ?f t st" using one_str [OF sig c, of env ops ?f] by auto
  moreover have "\<exists>st'. ?f t st = Ok st' \<and> calls_extend st st'" by (intro find_vm_extends [OF svc] do_op_extends)
  ultimately show "\<exists>st'. call_vm (search_table key) m svc env ops args st = Ok st' \<and> calls_extend st st'"
    by (simp add: call_vm_def)
  let ?f = "\<lambda>t. find_vm svc (search_table key) t (shutdown_deps k svc ty)"
  obtain t where "with_str env ops args 0 ?f st = ?f t st" using one_str [OF sig c, of env ops ?f] by auto
  moreover have "\<exists>st'. ?f t st = Ok st' \<and> calls_extend st st'" by (intro find_vm_extends [OF svc] shutdown_deps_extends [OF svc])
  ultimately show "\<exists>st'. shutdown_deps_found (search_table key) ty k svc env ops args st = Ok st' \<and> calls_extend st st'"
    by (simp add: shutdown_deps_found_def)
qed

lemma call_vm_file_extends:
  assumes svc: "xenmgr_serves k svc" and c: "all_cached (arg_vars args) (ac_engine st)"
    and sig: "signature (map (arg_kind (ac_engine st)) args) = ''s s''"
  shows "\<exists>st'. call_vm_file (search_table key) m svc env ops args st = Ok st' \<and> calls_extend st st'"
proof -
  have "map (arg_kind (ac_engine st)) args = [ARG_STR, ARG_STR]" by (rule signature_two_str [OF sig])
  then have len: "length args = 2" "arg_kind (ac_engine st) (args ! 0) = ARG_STR" "arg_kind (ac_engine st) (args ! 1) = ARG_STR"
    by (auto simp: map_eq_Cons_conv)
  let ?g = "\<lambda>path. with_str env ops args 1 (\<lambda>filename. do_op (Vm_Call_Arg m path filename))"
  let ?f = "\<lambda>t. find_vm svc (search_table key) t ?g"
  obtain t where t: "with_str env ops args 0 ?f st = ?f t st" using with_str_typed [of 0 args st env ops ?f] c len by auto
  have g: "\<exists>st'. ?g path u = Ok st' \<and> calls_extend u st'" if "ac_engine u = ac_engine st" for path u
    using with_str_typed [of 1 args u env ops "\<lambda>filename. do_op (Vm_Call_Arg m path filename)"] that c len do_op_extends
    by (metis one_less_numeral_iff semiring_norm(76))
  have "\<exists>st'. ?f t st = Ok st' \<and> calls_extend st st'" by (rule find_vm_extends [OF svc g])
  with t show ?thesis by (simp add: call_vm_file_def)
qed

interpretation vm_act: action_module vm_action_table "vm_act k svc env ops" "xenmgr_serves k svc"
proof
  fix row args and st :: "'a act_state"
  assume row: "row \<in> set vm_action_table" and svc: "xenmgr_serves k svc" and c: "all_cached (arg_vars args) (ac_engine st)"
    and sig: "signature (map (arg_kind (ac_engine st)) args) = ar_prototype row"
  from row sig show "\<exists>st'. vm_act k svc env ops (ar_func row) args st = Ok st' \<and> calls_extend st st'"
    unfolding vm_action_table_def set_simps insert_iff empty_iff
    by (elim disjE FalseE; simp only: action_row_def action_table_row.simps vm_act_lookup)
      ((rule call_vm_extends [OF svc c] call_vm_file_extends [OF svc c]; assumption) | rule shutdown_vpnvm_extends [OF svc])+
qed

subsection \<open>Properties\<close>

definition module_act ::
  "nat \<Rightarrow> xenmgr \<Rightarrow> 'd env \<Rightarrow> 'd xstate parser_ops \<Rightarrow> string \<times> arg list \<Rightarrow> 'd act_state \<Rightarrow> 'd act_state outcome" where
  \<comment> \<open>\<open>type->action(args)\<close> with the two modules that provide actions loaded\<close>
  "module_act k svc env ops = (\<lambda>(f, args).
     if map_of (default_functions :: (string \<times> 'd action_fun) list) f \<noteq> None then default_act env ops f args
     else vm_act k svc env ops f args)"

lemma default_function_known:
  "row \<in> set default_action_table \<Longrightarrow> map_of (default_functions :: (string \<times> 'd action_fun) list) (ar_func row) \<noteq> None"
  unfolding default_action_table_def set_simps insert_iff empty_iff
  by (elim disjE) (simp_all add: action_row_def default_functions_def)

lemma vm_function_unknown:
  "row \<in> set vm_action_table \<Longrightarrow> map_of (default_functions :: (string \<times> 'd action_fun) list) (ar_func row) = None"
  unfolding vm_action_table_def set_simps insert_iff empty_iff
  by (elim disjE) (simp_all add: action_row_def default_functions_def)

lemma module_act_run:
  fixes st :: "'d act_state"
  assumes svc: "xenmgr_serves k svc" and ok: "engine_ok (ac_engine st)" "well_typed (ac_engine st)"
    and types: "set (action_types (ac_engine st)) \<subseteq> act_of_row ` (set default_action_table \<union> set vm_action_table)"
    and a: "rule_heap (ac_engine st) r = Some rule" "a \<in> set (actions rule @ undos rule)"
  shows "\<exists>st'. module_act k svc env ops (at_action (a_type a), a_args a) st = Ok st' \<and> calls_extend st st'"
proof -
  have "typed_action (ac_engine st) a" using ok(2) a by (auto simp: well_typed_def)
  then have "a_type a \<in> act_of_row ` (set default_action_table \<union> set vm_action_table)"
    using types by (auto simp: typed_action_def)
  then consider row where "row \<in> set default_action_table" "a_type a = act_of_row row"
    | row where "row \<in> set vm_action_table" "a_type a = act_of_row row" by blast
  then show ?thesis
  proof cases
    case 1
    then show ?thesis
      using def_act.run_action [OF TrueI ok a, of _ env ops] default_function_known [of row, where 'd = 'd]
      by (simp add: module_act_def act_of_row_def)
  next
    case 2
    then show ?thesis
      using vm_act.run_action [OF svc ok a, of _ env ops] vm_function_unknown [of row, where 'd = 'd]
      by (simp add: module_act_def act_of_row_def)
  qed
qed


text \<open>
  C36. An action on a named machine reaches that machine: \<open>sleepVm\<close>, \<open>shutdownVm\<close> and the
  others make exactly one call, on the path of the first machine xenmgr lists under the name,
  and none when there is no such machine; the variants by UUID find the machine whose path
  carries the UUID.
\<close>

theorem vm_action_reaches_machine:
  assumes svc: "xenmgr_serves k svc" "list_vms svc = Some vms"
  shows "(\<exists>st'. call_vm new_vmid_search_result_by_name m svc env ops [Arg_Str n] st = Ok st' \<and>
      ac_ops st' = ac_ops st @ (case find_first (\<lambda>p. vm_name_of svc p = Some n) vms of None \<Rightarrow> [] | Some p \<Rightarrow> [Vm_Call m p])) \<and>
    (\<exists>st'. call_vm new_vmid_search_result_by_uuid m svc env ops [Arg_Str u] st = Ok st' \<and>
      ac_ops st' = ac_ops st @ (case find_first (\<lambda>p. hyphenate (drop 4 p) = u) vms of None \<Rightarrow> [] | Some p \<Rightarrow> [Vm_Call m p]))"
proof -
  have ok: "\<forall>p \<in> set vms. vm_path_ok p \<and> vm_name_of svc p \<noteq> None" using svc by (auto simp: xenmgr_serves_def)
  have pop: "populate_vm_identifier_table svc = Ok (Some (map (full_row svc) vms))"
    using svc(2) table_rows_run [OF ok]
    by (simp add: populate_vm_identifier_table_def new_vm_identifier_table_def full_row_def)
  have find: "find_first (\<lambda>r. key r = t) (map (full_row svc) ps) = map_option (full_row svc) (find_first (\<lambda>p. key (full_row svc p) = t) ps)"
    for key t ps by (induction ps) simp_all
  have path: "p \<noteq> []" if "find_first Q vms = Some p" for Q p
    using find_first_Some_in [OF that] ok by (auto simp: vm_path_ok_def)
  have name: "find_first (\<lambda>p. vm_name (full_row svc p) = n) vms = find_first (\<lambda>p. vm_name_of svc p = Some n) vms"
    using ok by (induction vms) (auto simp: full_row_def)
  have uuid: "find_first (\<lambda>p. vm_uuid (full_row svc p) = u) vms = find_first (\<lambda>p. hyphenate (drop 4 p) = u) vms"
    by (simp add: full_row_def)
  have run: "call_vm (search_table key) m svc env ops [Arg_Str t] st = Ok (st\<lparr>ac_table := Some (map (full_row svc) vms),
      ac_ops := ac_ops st @ (case find_first (\<lambda>p. key (full_row svc p) = t) vms of None \<Rightarrow> [] | Some p \<Rightarrow> [Vm_Call m p])\<rparr>)" for key t
  proof (cases "find_first (\<lambda>p. key (full_row svc p) = t) vms")
    case None
    then show ?thesis
      by (simp add: call_vm_def with_str_def read_arg_def get_arg_def list_member_arg_def resolve_arg_def value_str_def
          find_vm_def pop search_table_def find)
  next
    case (Some p)
    with path [OF Some] show ?thesis
      by (simp add: call_vm_def with_str_def read_arg_def get_arg_def list_member_arg_def resolve_arg_def value_str_def
          find_vm_def pop search_table_def find clone_vmid_table_row_def non_empty_def do_op_def) (simp add: full_row_def)
  qed
  show ?thesis
    unfolding new_vmid_search_result_by_name_def new_vmid_search_result_by_uuid_def run name uuid by simp
qed

text \<open>Two machines, one of which depends on the other.\<close>

definition demo_path :: "char \<Rightarrow> string" where
  "demo_path c = ''/vm/'' @ replicate 36 c"

definition demo_xenmgr :: xenmgr where
  "demo_xenmgr = \<lparr>list_vms = Some [demo_path (CHR ''1''), demo_path (CHR ''2'')],
     vm_name_of = (\<lambda>p. if p = demo_path (CHR ''1'') then Some ''net'' else if p = demo_path (CHR ''2'') then Some ''user'' else None),
     vm_state_of = (\<lambda>_. ''running''), vm_type_of = (\<lambda>_. ''svm''),
     vm_deps_of = (\<lambda>p. if p = demo_path (CHR ''2'') then [demo_path (CHR ''1'')] else [])\<rparr>"

lemma demo_path_simps:
  "vm_path_ok (demo_path (CHR ''1''))" "vm_path_ok (demo_path (CHR ''2''))" "demo_path (CHR ''1'') \<noteq> demo_path (CHR ''2'')"
  by (simp_all add: vm_path_ok_def demo_path_def)

lemma demo_serves: "xenmgr_serves 2 demo_xenmgr"
  using demo_path_simps by (simp add: xenmgr_serves_def demo_xenmgr_def)

theorem vm_action_reaches_machine_witness:
  "\<exists>st'. call_vm new_vmid_search_result_by_name ''sleep'' demo_xenmgr map_env no_ops [Arg_Str ''user'']
       \<lparr>ac_engine = demo_state, ac_table = None, ac_ops = []\<rparr> = Ok st' \<and>
     ac_ops st' = [Vm_Call ''sleep'' (demo_path (CHR ''2''))]"
  using vm_action_reaches_machine [OF demo_serves, of "[demo_path (CHR ''1''), demo_path (CHR ''2'')]" "''sleep''" map_env no_ops
      "''user''" "\<lparr>ac_engine = demo_state, ac_table = None, ac_ops = []\<rparr>"] demo_path_simps
  by (simp add: demo_xenmgr_def)

lemma demo_loaded_typed: "well_typed (demo_loaded [1] b v)"
  by (auto simp: well_typed_def typed_condition_def typed_action_def demo_loaded_def demo_condition_def demo_rule_def
      demo_type_def demo_action_def arg_kind_def split: if_splits)


end
