(* ===== verification/Platform.thy ===== *)
theory Platform
  imports Acpi_Events
begin

text \<open>
  What the daemon finds out about the machine it starts on (\<open>platform.c\<close>): the SMBIOS tables in
  the memory of the firmware, the chipset and the graphics adapter on the PCI bus, and from these
  the quirks and specs the handlers of ACPI events look at. Firmware memory is a parameter: mapping
  a physical address gives the bytes that can be read from there on, at least as many as were asked
  for; a read past them is a crash. So are the PCI configuration space and the EFI system table.
\<close>

unbundle bit_operations_syntax

subsection \<open>Reading firmware memory\<close>

type_synonym byte = "8 word"

record platform_env =
  pe_phys :: "nat \<Rightarrow> nat \<Rightarrow> byte list option" \<comment> \<open>\<open>map_phys_mem\<close>\<close>
  pe_systab :: "string option" \<comment> \<open>the contents of \<open>/sys/firmware/efi/systab\<close>\<close>
  pe_pci :: "nat \<Rightarrow> nat \<Rightarrow> 32 word option" \<comment> \<open>device on bus 0 and offset\<close>
  pe_pci_lib :: bool \<comment> \<open>whether the PCI library can be initialised\<close>
  pe_acpi :: acpi_env

definition rd :: "byte list \<Rightarrow> nat \<Rightarrow> byte outcome" where
  "rd mem i = (if i < length mem then Ok (mem ! i) else Crash Buffer_Overflow)"

definition rd16 :: "byte list \<Rightarrow> nat \<Rightarrow> nat outcome" where
  "rd16 mem i = obind (rd mem i) (\<lambda>a. omap (\<lambda>b. unat a + 256 * unat b) (rd mem (i + 1)))"

definition rd32 :: "byte list \<Rightarrow> nat \<Rightarrow> nat outcome" where
  "rd32 mem i = obind (rd16 mem i) (\<lambda>a. omap (\<lambda>b. a + 65536 * b) (rd16 mem (i + 2)))"

definition mem_is :: "byte list \<Rightarrow> nat \<Rightarrow> string \<Rightarrow> bool outcome" where
  \<comment> \<open>\<open>memcmp(mem + i, s, strlen(s)) == 0\<close>\<close>
  "mem_is mem i s = (if i + length s \<le> length mem then Ok (take (length s) (drop i mem) = map of_char s)
     else Crash Buffer_Overflow)"

definition checksum :: "byte list \<Rightarrow> nat \<Rightarrow> nat \<Rightarrow> byte outcome" where
  "checksum mem off n = ofold (\<lambda>i cs. omap (\<lambda>b. cs + b) (rd mem (off + i))) [0..<n] 0"

definition c_bytes :: "byte list \<Rightarrow> nat \<Rightarrow> byte list outcome" where
  \<comment> \<open>the string that starts at an offset\<close>
  "c_bytes mem i = (let s = takeWhile (\<lambda>b. b \<noteq> 0) (drop i mem) in
     if i + length s < length mem then Ok s else Crash Buffer_Overflow)"

subsection \<open>The entry point\<close>

record smbios_locator =
  sl_phys_addr :: nat
  sl_length :: nat
  sl_count :: nat
  sl_addr :: "byte list option"

definition no_locator :: smbios_locator where
  "no_locator = \<lparr>sl_phys_addr = 0, sl_length = 0, sl_count = 0, sl_addr = None\<rparr>"

definition smbios_entry_point ::
  "platform_env \<Rightarrow> smbios_locator \<Rightarrow> byte list \<Rightarrow> nat \<Rightarrow> bool \<Rightarrow> (int \<times> smbios_locator) outcome" where
  "smbios_entry_point env locator mem off is_eps =
     obind (if is_eps then
         obind (rd mem (off + 5)) (\<lambda>n.
         obind (checksum mem off (unat n)) (\<lambda>cs.
           if cs \<noteq> 0 then Ok None
           else omap (\<lambda>eq. if eq then Some (off + 16) else None) (mem_is mem (off + 16) ''_DMI_'')))
       else Ok (Some off)) (\<lambda>ieps. case ieps of None \<Rightarrow> Ok (-1, locator) | Some off \<Rightarrow>
     obind (checksum mem off 15) (\<lambda>cs.
     if cs \<noteq> 0 then Ok (-1, locator) else
     obind (rd32 mem (off + 8)) (\<lambda>phys.
     obind (rd16 mem (off + 6)) (\<lambda>len.
     obind (rd16 mem (off + 12)) (\<lambda>cnt.
       let locator = locator\<lparr>sl_phys_addr := phys, sl_length := len, sl_count := cnt\<rparr> in
       if len < 4 \<or> cnt = 0 then Ok (-1, locator)
       else let locator = locator\<lparr>sl_addr := pe_phys env phys len\<rparr> in
         Ok (if sl_addr locator = None then -1 else 0, locator))))))"

definition digit_in :: "nat \<Rightarrow> char \<Rightarrow> nat option" where
  "digit_in base c = (let n = of_char c :: nat;
     v = (if 48 \<le> n \<and> n \<le> 57 then n - 48 else if 97 \<le> n \<and> n \<le> 122 then n - 87 else if 65 \<le> n \<and> n \<le> 90 then n - 55 else base)
     in if v < base then Some v else None)"

definition digits_value :: "nat \<Rightarrow> string \<Rightarrow> nat" where
  "digits_value base s = fold (\<lambda>c n. base * n + the (digit_in base c)) (takeWhile (\<lambda>c. digit_in base c \<noteq> None) s) 0"

definition strtoul_0 :: "string \<Rightarrow> nat" where
  \<comment> \<open>\<open>strtoul\<close> with base 0 and 64-bit result\<close>
  "strtoul_0 s = (let t = dropWhile is_space s;
       neg = (take 1 t = ''-''); t = (if take 1 t \<in> {''-'', ''+''} then drop 1 t else t);
       n = (if take 2 t \<in> {''0x'', ''0X''} \<and> digit_in 16 (hd (drop 2 t @ ''g'')) \<noteq> None then digits_value 16 (drop 2 t)
            else if take 1 t = ''0'' then digits_value 8 t else digits_value 10 t)
     in if n \<ge> 2 ^ 64 then 2 ^ 64 - 1 else if neg then (2 ^ 64 - n) mod 2 ^ 64 else n)"

fun efi_line :: "nat \<Rightarrow> string \<Rightarrow> string \<times> string" where
  \<comment> \<open>\<open>fgets\<close> with room for so many characters\<close>
  "efi_line 0 s = ([], s)"
| "efi_line (Suc n) [] = ([], [])"
| "efi_line (Suc n) (c # s) = (if c = CHR 0x0A then ([c], s) else let (l, rest) = efi_line n s in (c # l, rest))"

lemma efi_line_le: "length (snd (efi_line n s)) \<le> length s"
  by (induction n s rule: efi_line.induct) (auto split: prod.split)

lemma efi_line_shorter:
  assumes "efi_line 62 s = (l, rest)" and "s \<noteq> []"
  shows "length rest < length s"
proof -
  obtain c t where s: "s = c # t" using assms(2) by (cases s) auto
  have "efi_line (Suc n) (c # t) = (l, rest) \<Longrightarrow> length rest < length (c # t)" for n
    using efi_line_le [of n t] by (auto split: prod.splits if_splits)
  from this [of 61] assms(1) show ?thesis by (simp add: s)
qed

function efi_scan :: "string \<Rightarrow> string \<Rightarrow> nat outcome" where
  "efi_scan entry s = (if s = [] then Ok 0 else
     let (line, rest) = efi_line 62 s; line = takeWhile (\<lambda>c. c \<noteq> CHR 0x00) line in
     if take 6 line = take 6 entry then
       (if CHR ''='' \<in> set line then Ok (strtoul_0 (drop 1 (dropWhile (\<lambda>c. c \<noteq> CHR ''='') line))) else Crash Null_Deref)
     else efi_scan entry rest)"
  by auto
termination
  by (relation "measure (length \<circ> snd)") (simp_all, metis efi_line_shorter)

declare efi_scan.simps [simp del]

definition find_efi_entry_location :: "platform_env \<Rightarrow> string \<Rightarrow> (int \<times> nat) outcome" where
  "find_efi_entry_location env entry = (case pe_systab env of None \<Rightarrow> Ok (-1, 0)
     | Some text \<Rightarrow> omap (\<lambda>loc. if loc \<noteq> 0 then (0, loc) else (-1, 0)) (efi_scan entry text))"

fun scan_rom :: "platform_env \<Rightarrow> byte list \<Rightarrow> nat list \<Rightarrow> int \<times> smbios_locator \<Rightarrow> (int \<times> smbios_locator) outcome" where
  "scan_rom env mem [] r = Ok r"
| "scan_rom env mem (loc # locs) r =
     obind (mem_is mem loc ''_SM_'') (\<lambda>sm.
     obind (if sm then smbios_entry_point env (snd r) mem loc True
       else obind (mem_is mem loc ''_DMI_'') (\<lambda>dmi.
         if dmi then smbios_entry_point env (snd r) mem loc False else Ok r)) (\<lambda>r'.
     if fst r' = 0 then Ok r' else scan_rom env mem locs r'))"

definition smbios_locate_structures :: "platform_env \<Rightarrow> (int \<times> smbios_locator) outcome" where
  "smbios_locate_structures env =
     obind (find_efi_entry_location env ''SMBIOS'') (\<lambda>(rc, loc).
     if rc = 0 \<and> loc \<noteq> 0 then
       (case pe_phys env loc 32 of None \<Rightarrow> Ok (-1, no_locator) | Some mem \<Rightarrow> smbios_entry_point env no_locator mem 0 True)
     else
       (case pe_phys env 0xF0000 0x10000 of None \<Rightarrow> Ok (-1, no_locator)
        | Some mem \<Rightarrow> scan_rom env mem (map (\<lambda>i. 16 * i) [0..<4095]) (rc, no_locator)))"

subsection \<open>The structures\<close>

function skip_strings :: "byte list \<Rightarrow> nat \<Rightarrow> nat \<Rightarrow> nat \<Rightarrow> nat outcome" where
  \<comment> \<open>the loop that moves \<open>tail\<close> to the two zero bytes behind the strings\<close>
  "skip_strings mem len ptr tail = (if tail - ptr + 1 < len then
     obind (rd mem tail) (\<lambda>a. obind (if a = 0 then omap (\<lambda>b. b = 0) (rd mem (tail + 1)) else Ok False) (\<lambda>end.
       if end then Ok tail else skip_strings mem len ptr (tail + 1))) else Ok tail)"
  by auto
termination
  by (relation "measure (\<lambda>(mem, len, ptr, tail). len + ptr - tail)") auto

declare skip_strings.simps [simp del]

primrec find_structure ::
  "nat \<Rightarrow> byte list \<Rightarrow> nat \<Rightarrow> byte \<Rightarrow> nat \<Rightarrow> nat \<Rightarrow> nat \<Rightarrow> (nat \<times> nat) option outcome" where
  \<comment> \<open>\<open>left\<close>: the structures from \<open>ptr\<close> on; the result is the offset and the length\<close>
  "find_structure 0 mem len type inst ptr counter = Ok None"
| "find_structure (Suc left) mem len type inst ptr counter =
     obind (rd mem (ptr + 1)) (\<lambda>n.
     if unat n < 4 \<or> unat n > len then Ok None else
     obind (skip_strings mem len ptr (ptr + unat n)) (\<lambda>tail.
     obind (rd mem ptr) (\<lambda>t.
     let tail = tail + 2; counter' = (if t = type then counter + 1 else counter) in
     if t = type \<and> counter' = inst then Ok (Some (ptr, tail - ptr))
     else if t = 127 \<and> left \<noteq> 0 then Ok None
     else find_structure left mem len type inst tail counter')))"

definition smbios_locate_structure_instance ::
  "smbios_locator \<Rightarrow> byte \<Rightarrow> nat \<Rightarrow> (nat \<times> nat) option outcome" where
  "smbios_locate_structure_instance locator type inst =
     obind (deref (sl_addr locator)) (\<lambda>mem. find_structure (sl_count locator) mem (sl_length locator) type inst 0 0)"

subsection \<open>Quirks and specs\<close>

definition tolower :: "byte \<Rightarrow> byte" where
  "tolower c = (if 65 \<le> c \<and> c \<le> 90 then c + 32 else c)"

definition cur_char :: "byte list \<Rightarrow> byte" where
  "cur_char s = (case s of [] \<Rightarrow> 0 | c # _ \<Rightarrow> c)"

primrec strnicmp_n :: "nat \<Rightarrow> byte list \<Rightarrow> byte list \<Rightarrow> int" where
  \<comment> \<open>the loop; strings without their terminating zero\<close>
  "strnicmp_n 0 s1 s2 = 0"
| "strnicmp_n (Suc n) s1 s2 = (
     if cur_char s1 = 0 \<or> cur_char s2 = 0 then uint (cur_char s1) - uint (cur_char s2)
     else if cur_char s1 = cur_char s2 then strnicmp_n n (tl s1) (tl s2)
     else if tolower (cur_char s1) \<noteq> tolower (cur_char s2) then uint (tolower (cur_char s1)) - uint (tolower (cur_char s2))
     else strnicmp_n n (tl s1) (tl s2))"

definition strnicmp :: "byte list \<Rightarrow> byte list \<Rightarrow> nat \<Rightarrow> int" where
  "strnicmp s1 s2 len = strnicmp_n len s1 s2"

definition made_by :: "byte list \<Rightarrow> string \<Rightarrow> bool" where
  \<comment> \<open>\<open>strnicmp(manufacturer, M, strlen(M)) == 0\<close>\<close>
  "made_by manufacturer m \<longleftrightarrow> strnicmp manufacturer (map of_char m) (length m) = 0"

definition PM_QUIRK_SW_ASSIST_BCL :: "32 word" where "PM_QUIRK_SW_ASSIST_BCL = 1"
definition PM_QUIRK_SW_ASSIST_BCL_IGFX_PT :: "32 word" where "PM_QUIRK_SW_ASSIST_BCL_IGFX_PT = 2"
definition PM_QUIRK_SW_ASSIST_BCL_HP_SB :: "32 word" where "PM_QUIRK_SW_ASSIST_BCL_HP_SB = 4"
definition PM_QUIRK_HP_HOTKEY_INPUT :: "32 word" where "PM_QUIRK_HP_HOTKEY_INPUT = 0x10000"
definition PM_SPEC_INTEL_GPU :: "32 word" where "PM_SPEC_INTEL_GPU = 1"
definition PM_SPEC_NO_BATTERIES :: "32 word" where "PM_SPEC_NO_BATTERIES = 4"
definition PM_SPEC_NO_LID :: "32 word" where "PM_SPEC_NO_LID = 8"
definition MONTEVINA_GMCH_ID :: "32 word" where "MONTEVINA_GMCH_ID = 0x2a40"
definition CALPELLA_GMCH_ID :: "32 word" where "CALPELLA_GMCH_ID = 0x0044"
definition SANDYBRIDGE_GMCH_ID :: "32 word" where "SANDYBRIDGE_GMCH_ID = 0x0104"
definition INTEL_VENDOR_ID :: "32 word" where "INTEL_VENDOR_ID = 0x8086"

definition PCI_VENDOR_ID_WORD :: "32 word \<Rightarrow> 32 word" where "PCI_VENDOR_ID_WORD v = 0xffff AND v"
definition PCI_DEVICE_ID_WORD :: "32 word \<Rightarrow> 32 word" where "PCI_DEVICE_ID_WORD v = 0xffff AND drop_bit 16 v"

definition pci_host_read_dword :: "platform_env \<Rightarrow> nat \<Rightarrow> nat \<Rightarrow> 32 word" where
  "pci_host_read_dword env dev addr = (case pe_pci env dev addr of None \<Rightarrow> 0 | Some v \<Rightarrow> v)"

definition manufacturer_quirks :: "byte list \<Rightarrow> 32 word \<Rightarrow> 32 word \<Rightarrow> 32 word" where
  "manufacturer_quirks manufacturer gmch q = (
     let off_both = q AND NOT (PM_QUIRK_SW_ASSIST_BCL OR PM_QUIRK_SW_ASSIST_BCL_IGFX_PT);
         off_pt = q AND NOT PM_QUIRK_SW_ASSIST_BCL_IGFX_PT in
     if made_by manufacturer ''hewlett-packard'' then
       (let q = q OR PM_QUIRK_HP_HOTKEY_INPUT in
        if gmch = SANDYBRIDGE_GMCH_ID then q OR PM_QUIRK_SW_ASSIST_BCL_HP_SB
        else q AND NOT (PM_QUIRK_SW_ASSIST_BCL OR PM_QUIRK_SW_ASSIST_BCL_IGFX_PT))
     else if made_by manufacturer ''dell'' then
       (if gmch = MONTEVINA_GMCH_ID \<or> gmch = CALPELLA_GMCH_ID then off_both else q)
     else if made_by manufacturer ''lenovo'' then
       (if gmch = MONTEVINA_GMCH_ID then off_pt else if gmch = CALPELLA_GMCH_ID then off_both else q)
     else if made_by manufacturer ''fujitsu'' \<or> made_by manufacturer ''fujtsu'' then off_pt
     else if made_by manufacturer ''panasonic'' then off_pt
     else if made_by manufacturer ''toshiba'' then
       (if gmch = MONTEVINA_GMCH_ID \<or> gmch = CALPELLA_GMCH_ID then off_both else off_pt)
     else if made_by manufacturer ''Apple Inc.'' then off_pt
     else q)"

definition setup_software_bcl_and_input_quirks :: "platform_env \<Rightarrow> 32 word \<Rightarrow> 32 word outcome" where
  "setup_software_bcl_and_input_quirks env q =
     obind (smbios_locate_structures env) (\<lambda>(rc, locator). if rc \<noteq> 0 then Ok q else
     obind (smbios_locate_structure_instance locator 1 1) (\<lambda>system_info. case system_info of None \<Rightarrow> Ok q | Some (p, _) \<Rightarrow>
     obind (deref (sl_addr locator)) (\<lambda>mem.
     obind (rd mem (p + 1)) (\<lambda>plen.
     obind (c_bytes mem (p + unat plen)) (\<lambda>manufacturer.
     obind (smbios_locate_structure_instance locator 0 1) (\<lambda>bios_info. case bios_info of None \<Rightarrow> Ok q | Some (b, _) \<Rightarrow>
     obind (rd mem (b + 1)) (\<lambda>blen.
     obind (c_bytes mem (b + unat blen)) (\<lambda>vendor.
     let pci_val = pci_host_read_dword env 0 0 in
     if PCI_VENDOR_ID_WORD pci_val \<noteq> INTEL_VENDOR_ID then Ok q else
     let q = q OR (PM_QUIRK_SW_ASSIST_BCL OR PM_QUIRK_SW_ASSIST_BCL_IGFX_PT);
         q = manufacturer_quirks manufacturer (PCI_DEVICE_ID_WORD pci_val) q in
     \<comment> \<open>the strings that are logged\<close>
     obind (c_bytes mem (p + unat plen + length manufacturer + 1)) (\<lambda>product.
     obind (c_bytes mem (b + unat blen + length vendor + 1)) (\<lambda>bios_version. Ok q))))))))))"

definition initialize_platform_info :: "platform_env \<Rightarrow> 32 word \<times> 32 word \<Rightarrow> (32 word \<times> 32 word) outcome" where
  \<comment> \<open>\<open>pm_quirks\<close> and \<open>pm_specs\<close>\<close>
  "initialize_platform_info env qs = (let (q, s) = qs in if \<not> pe_pci_lib env then Ok (q, s) else
     obind (setup_software_bcl_and_input_quirks env q) (\<lambda>q.
     let pci_val = pci_host_read_dword env 2 0;
         s = (if pci_val \<noteq> 0xffffffff \<and> PCI_DEVICE_ID_WORD (pci_host_read_dword env 2 8) = 0x0300 \<and>
                 PCI_VENDOR_ID_WORD pci_val = INTEL_VENDOR_ID then s OR PM_SPEC_INTEL_GPU else s);
         s = (if get_num_batteries (pm_sysfs (acpi_pm (pe_acpi env))) \<le> 0 then s OR PM_SPEC_NO_BATTERIES else s);
         s = (if get_lid_status (pe_acpi env) = NO_LID then s OR PM_SPEC_NO_LID else s)
     in Ok (q, s)))"

subsection \<open>Well-formed tables\<close>

record smbios_structure =
  s_type :: byte
  s_body :: "byte list" \<comment> \<open>the formatted area behind type and length\<close>
  s_strings :: "byte list" \<comment> \<open>up to and including the two zero bytes\<close>

definition encode :: "smbios_structure \<Rightarrow> byte list" where
  "encode s = s_type s # of_nat (2 + length (s_body s)) # s_body s @ s_strings s"

definition table_of :: "smbios_structure list \<Rightarrow> byte list" where
  "table_of ss = concat (map encode ss)"

definition structure_ok :: "smbios_structure \<Rightarrow> bool" where
  "structure_ok s \<longleftrightarrow> 2 \<le> length (s_body s) \<and> length (s_body s) < 254 \<and>
     (\<exists>us. s_strings s = us @ [0, 0] \<and> (\<forall>i < length us. \<not> ((us @ [0]) ! i = 0 \<and> (us @ [0]) ! Suc i = 0)))"

lemma rd_nth: "rd (pre @ x # post) (length pre) = Ok x"
  by (simp add: rd_def)

lemma rd_append: "rd (pre @ xs) (length pre + i) = rd xs i"
  by (simp add: rd_def nth_append)

lemma skip_strings_run:
  assumes "\<forall>i < length us. \<not> ((us @ [0]) ! i = 0 \<and> (us @ [0]) ! Suc i = 0)"
    and "ptr + 1 \<le> length pre" and "length pre - ptr + length us + 1 < len"
  shows "skip_strings (pre @ us @ 0 # 0 # post) len ptr (length pre) = Ok (length pre + length us)"
  using assms
proof (induction us arbitrary: pre)
  case Nil
  have "rd (pre @ 0 # 0 # post) (Suc (length pre)) = Ok 0" using rd_append [of pre "0 # 0 # post" 1] by (simp add: rd_def)
  then show ?case using Nil.prems by (subst skip_strings.simps) (simp add: rd_nth)
next
  case (Cons u us)
  have us: "\<forall>i < length us. \<not> ((us @ [0]) ! i = 0 \<and> (us @ [0]) ! Suc i = 0)"
    using Cons.prems(1) by auto
  have first: "\<not> (u = 0 \<and> (us @ [0]) ! 0 = 0)" using Cons.prems(1) [rule_format, of 0] by simp
  have rd1: "rd (pre @ v # us @ 0 # 0 # post) (Suc (length pre)) = Ok ((us @ [0]) ! 0)" for v
    using rd_append [of pre "v # us @ 0 # 0 # post" 1] by (cases us) (simp_all add: rd_def)
  have "skip_strings (pre @ u # us @ 0 # 0 # post) len ptr (length pre) = skip_strings (pre @ u # us @ 0 # 0 # post) len ptr (Suc (length pre))"
    using Cons.prems(3) first by (subst skip_strings.simps) (auto simp: rd_nth rd1)
  also have "\<dots> = Ok (length pre + length (u # us))" using Cons.IH [OF us, of "pre @ [u]"] Cons.prems(2,3) by simp
  finally show ?case by simp
qed

fun locate :: "smbios_structure list \<Rightarrow> byte \<Rightarrow> nat \<Rightarrow> nat \<Rightarrow> (nat \<times> nat) option" where
  \<comment> \<open>where the \<open>k\<close>-th structure of a type lies in the table\<close>
  "locate [] ty k off = None"
| "locate (s # ss) ty k off =
     (if s_type s = ty \<and> k = 1 then Some (off, length (encode s))
      else locate ss ty (if s_type s = ty then k - 1 else k) (off + length (encode s)))"

lemma find_structure_run:
  assumes "\<forall>s \<in> set ss. structure_ok s" and "\<forall>s \<in> set (butlast ss). s_type s \<noteq> 127" and "length (table_of ss) \<le> len"
    and "counter < inst"
  shows "find_structure (length ss) (pre @ table_of ss @ post) len ty inst (length pre) counter =
    Ok (locate ss ty (inst - counter) (length pre))"
  using assms
proof (induction ss arbitrary: pre counter)
  case (Cons s ss)
  obtain us where us: "s_strings s = us @ [0, 0]" "\<forall>i < length us. \<not> ((us @ [0]) ! i = 0 \<and> (us @ [0]) ! Suc i = 0)"
    and body: "2 \<le> length (s_body s)" "length (s_body s) < 254" using Cons.prems(1) by (auto simp: structure_ok_def)
  let ?n = "of_nat (2 + length (s_body s)) :: byte" and ?rest = "table_of ss @ post"
  let ?mem = "pre @ table_of (s # ss) @ post" and ?hd = "pre @ [s_type s, ?n] @ s_body s"
  have n: "unat ?n = 2 + length (s_body s)" using body(2) by (simp only: unsigned_of_nat) (simp add: take_bit_nat_eq_self)
  have len: "length (encode s) = 4 + length (s_body s) + length us" by (simp add: encode_def us(1))
  have fits: "length (encode s) + length (table_of ss) \<le> len" using Cons.prems(3) by (simp add: table_of_def)
  have mem: "?mem = ?hd @ us @ 0 # 0 # ?rest" by (simp add: table_of_def encode_def us(1))
  have r: "rd ?mem (length pre) = Ok (s_type s)" "rd ?mem (length pre + 1) = Ok ?n"
    using rd_append [of pre "s_type s # ?n # s_body s @ us @ 0 # 0 # ?rest"] by (simp_all add: mem rd_def nth_append)
  have skip: "skip_strings ?mem len (length pre) (length pre + unat ?n) = Ok (length pre + 2 + length (s_body s) + length us)"
    using skip_strings_run [OF us(2), of "length pre" ?hd len ?rest] fits len unfolding mem n by simp
  have tail: "length pre + 2 + length (s_body s) + length us + 2 = length pre + length (encode s)" using len by simp
  have mem': "?mem = (pre @ encode s) @ table_of ss @ post" by (simp add: table_of_def)
  have IH: "find_structure (length ss) ?mem len ty inst (length pre + length (encode s)) c = Ok (locate ss ty (inst - c) (length pre + length (encode s)))"
    if "c < inst" for c
    using Cons.IH [of c "pre @ encode s"] Cons.prems fits that unfolding mem' by (cases ss) simp_all
  have eot: "\<not> (s_type s = 127 \<and> length ss \<noteq> 0)" using Cons.prems(2) by (cases ss) auto
  have bad: "\<not> (unat ?n < 4 \<or> unat ?n > len)" using n body(1) fits len by simp
  show ?case
  proof (cases "s_type s = ty \<and> Suc counter = inst")
    case True
    then show ?thesis unfolding find_structure.simps list.size(4) add_0_right add_Suc_right
      by (simp only: r obind.simps bad skip if_False Let_def tail) (use True in auto)
  next
    case False
    have c: "(if s_type s = ty then counter + 1 else counter) < inst" using False Cons.prems(4) by auto
    have "find_structure (length (s # ss)) ?mem len ty inst (length pre) counter =
        find_structure (length ss) ?mem len ty inst (length pre + length (encode s)) (if s_type s = ty then counter + 1 else counter)"
      unfolding find_structure.simps list.size(4) add_0_right add_Suc_right
      by (simp only: r obind.simps bad skip if_False Let_def tail) (use False eot in auto)
    also have "\<dots> = Ok (locate ss ty (inst - (if s_type s = ty then counter + 1 else counter)) (length pre + length (encode s)))"
      by (rule IH [OF c])
    finally show ?thesis using False Cons.prems(4) by auto
  qed
qed simp

lemma locate_found:
  "k = length (filter (\<lambda>s. s_type s = ty) pre) \<Longrightarrow> s_type s = ty \<Longrightarrow>
    locate (pre @ s # post) ty (Suc k) off = Some (off + length (table_of pre), length (encode s))"
  by (induction pre arbitrary: off k) (auto simp: table_of_def)

lemma locate_none: "length (filter (\<lambda>s. s_type s = ty) ss) \<le> k \<Longrightarrow> locate ss ty (Suc k) off = None"
proof (induction ss arbitrary: off k)
  case (Cons s ss)
  then show ?case by (cases k) auto
qed simp

text \<open>
  C24. In a well-formed SMBIOS table (as many structures as the entry point announces, each a formatted
  area of at least four bytes followed by its strings and two zero bytes, the end-of-table
  structure only at the end, all within the announced length) the search finds every structure by
  its type and its number among those of the type, with its exact length, whatever lies behind the
  table in memory, and reports that there is none exactly when the table has fewer of that type.
\<close>

theorem smbios_structure_located:
  assumes "\<forall>s \<in> set ss. structure_ok s" and "\<forall>s \<in> set (butlast ss). s_type s \<noteq> 127"
    and "length (table_of ss) \<le> sl_length locator" and "sl_count locator = length ss"
    and "sl_addr locator = Some (table_of ss @ post)"
  shows "(\<forall>pre s rest. ss = pre @ s # rest \<longrightarrow>
      smbios_locate_structure_instance locator (s_type s) (Suc (length (filter (\<lambda>x. s_type x = s_type s) pre))) =
        Ok (Some (length (table_of pre), length (encode s)))) \<and>
    (\<forall>ty k. length (filter (\<lambda>x. s_type x = ty) ss) \<le> k \<longrightarrow> smbios_locate_structure_instance locator ty (Suc k) = Ok None)"
proof -
  have "smbios_locate_structure_instance locator ty (Suc k) = Ok (locate ss ty (Suc k) 0)" for ty k
    using find_structure_run [OF assms(1-3), of 0 "Suc k" "[]" post ty] assms(4,5) by (simp add: smbios_locate_structure_instance_def)
  then show ?thesis using locate_found [OF refl refl, where off = 0] locate_none by auto
qed

definition demo_bios :: smbios_structure where
  "demo_bios = \<lparr>s_type = 0, s_body = [0, 0, 1], s_strings = [65, 0, 66, 0, 0]\<rparr>"

definition demo_system :: smbios_structure where
  "demo_system = \<lparr>s_type = 1, s_body = [1, 0, 1], s_strings = [100, 101, 108, 108, 0, 0]\<rparr>"

definition demo_table :: "smbios_structure list" where
  "demo_table = [demo_bios, demo_system, \<lparr>s_type = 127, s_body = [2, 0], s_strings = [0, 0]\<rparr>]"

theorem smbios_structure_located_witness:
  "smbios_locate_structure_instance \<lparr>sl_phys_addr = 0, sl_length = 27, sl_count = 3, sl_addr = Some (table_of demo_table @ [7])\<rparr> 1 1 =
     Ok (Some (10, 11)) \<and>
   smbios_locate_structure_instance \<lparr>sl_phys_addr = 0, sl_length = 27, sl_count = 3, sl_addr = Some (table_of demo_table @ [7])\<rparr> 1 2 = Ok None"
proof -
  let ?l = "\<lparr>sl_phys_addr = 0, sl_length = 27, sl_count = 3, sl_addr = Some (table_of demo_table @ [7])\<rparr>"
  have ok: "\<forall>s \<in> set demo_table. structure_ok s"
    unfolding demo_table_def demo_bios_def demo_system_def structure_ok_def
    by (auto simp: less_Suc_eq intro!: exI [of _ "[65, 0, 66]"] exI [of _ "[100, 101, 108, 108]"] exI [of _ "[] :: byte list"])
  have eot: "\<forall>s \<in> set (butlast demo_table). s_type s \<noteq> 127" by (simp add: demo_table_def demo_bios_def demo_system_def)
  have len: "length (table_of demo_table) \<le> sl_length ?l" "sl_count ?l = length demo_table" "sl_addr ?l = Some (table_of demo_table @ [7])"
    by (simp_all add: demo_table_def demo_bios_def demo_system_def table_of_def encode_def)
  have split: "demo_table = [demo_bios] @ demo_system # drop 2 demo_table" by (simp add: demo_table_def)
  have len10: "length (table_of [demo_bios]) = 10" "length (encode demo_system) = 11" by (simp_all add: table_of_def encode_def demo_bios_def demo_system_def)
  note located = smbios_structure_located [OF ok eot len]
  have "length (filter (\<lambda>x. s_type x = 1) demo_table) \<le> 1" by (simp add: demo_table_def demo_bios_def demo_system_def)
  then have "smbios_locate_structure_instance ?l 1 (Suc 1) = Ok None" using located by blast
  moreover have "smbios_locate_structure_instance ?l (s_type demo_system) (Suc (length (filter (\<lambda>x. s_type x = s_type demo_system) [demo_bios]))) = Ok (Some (10, 11))"
    using located split len10 by metis
  ultimately show ?thesis by (simp add: demo_system_def demo_bios_def numeral_2_eq_2)
qed

lemma walk_leaves_table:
  \<comment> \<open>the announced length is compared with the length of one structure, never with the position\<close>
  "smbios_locate_structure_instance \<lparr>sl_phys_addr = 0, sl_length = 6, sl_count = 2, sl_addr = Some [0, 4, 0, 0, 0, 0]\<rparr> 1 1 =
     Crash Buffer_Overflow"
  by code_simp

end
