(* ===== verification/Broker_Policy.thy ===== *)
theory Broker_Policy
  imports Prelude
begin

text \<open>
  The request filter of the RPC broker: the rules (\<open>rpc-broker/src/policy.c\<close>, \<open>policy.h\<close>), read
  from a file under \<open>/etc\<close> and from the database, and the decision about a request
  (\<open>rpc-broker/src/msg.c\<close>). A rule slot owns its strings: a pointer field is null, points to a live
  string, or dangles because the string was freed while the field was left as it is.
  The database, xenstore and the VM manager are parameters; \<open>is_stubdom\<close> and \<open>get_db_vm_path\<close> are
  as built with xenstore.
\<close>

subsection \<open>Rules\<close>

datatype cptr = Null | Live string | Freed

record broker_rule =
  r_all :: bool
  r_out :: bool
  r_policy :: bool
  r_stubdom :: bool
  r_if_bool_flag :: bool
  r_destination :: cptr
  r_path :: cptr
  r_interface :: cptr
  r_member :: cptr
  r_if_bool :: cptr
  r_domtype :: cptr
  r_rule_string :: cptr

definition zero_rule :: broker_rule where
  \<comment> \<open>a slot of the policy allocated by \<open>calloc\<close>\<close>
  "zero_rule = \<lparr>r_all = False, r_out = False, r_policy = False, r_stubdom = False, r_if_bool_flag = False,
     r_destination = Null, r_path = Null, r_interface = Null, r_member = Null, r_if_bool = Null, r_domtype = Null,
     r_rule_string = Null\<rparr>"

definition MAX_RULES :: nat where "MAX_RULES = 512"
definition MAX_DOMAINS :: nat where "MAX_DOMAINS = 128"
definition MAX_UUID :: nat where "MAX_UUID = 128"
definition RULE_MAX_LENGTH :: nat where "RULE_MAX_LENGTH = 512"

fun free_field :: "cptr \<Rightarrow> cptr outcome" where
  "free_field Null = Ok Null"
| "free_field (Live s) = Ok Freed"
| "free_field Freed = Crash Use_After_Free"

definition free_rule :: "broker_rule \<Rightarrow> broker_rule outcome" where
  \<comment> \<open>the result is the slot the copy was made of, whose pointers now dangle\<close>
  "free_rule r =
     obind (free_field (r_destination r)) (\<lambda>d.
     obind (free_field (r_path r)) (\<lambda>p.
     obind (free_field (r_interface r)) (\<lambda>i.
     obind (free_field (r_member r)) (\<lambda>m.
     obind (free_field (r_if_bool r)) (\<lambda>b.
     obind (free_field (r_domtype r)) (\<lambda>t.
     obind (free_field (r_rule_string r)) (\<lambda>s.
       Ok (r\<lparr>r_destination := d, r_path := p, r_interface := i, r_member := m, r_if_bool := b, r_domtype := t,
             r_rule_string := s\<rparr>))))))))"

definition strtok :: "string \<Rightarrow> string option \<times> string" where
  \<comment> \<open>the next token delimited by spaces, and where the following call goes on\<close>
  "strtok s = (let s = dropWhile (\<lambda>c. c = CHR '' '') s in
     if s = [] then (None, []) else (Some (takeWhile (\<lambda>c. c \<noteq> CHR '' '') s), drop 1 (dropWhile (\<lambda>c. c \<noteq> CHR '' '') s)))"

definition strdup :: "string option \<Rightarrow> cptr outcome" where
  "strdup s = omap Live (deref s)"

definition set_field :: "string \<Rightarrow> string option \<Rightarrow> string \<Rightarrow> broker_rule \<Rightarrow> (broker_rule \<times> string) option outcome" where
  \<comment> \<open>the branches on \<open>token\<close>; \<open>None\<close> for a token that is not recognised\<close>
  "set_field token field rest cur = (
     if token = ''destination'' then obind (strdup field) (\<lambda>p. Ok (Some (cur\<lparr>r_destination := p\<rparr>, rest)))
     else if token = ''dom-type'' then obind (strdup field) (\<lambda>p. Ok (Some (cur\<lparr>r_domtype := p\<rparr>, rest)))
     else if token = ''interface'' then obind (strdup field) (\<lambda>p. Ok (Some (cur\<lparr>r_interface := p\<rparr>, rest)))
     else if token = ''if-boolean'' then obind (strdup field) (\<lambda>p.
       let (flag, rest) = strtok rest in
       obind (deref flag) (\<lambda>flag. Ok (Some (cur\<lparr>r_if_bool := p, r_if_bool_flag := (flag = ''true'')\<rparr>, rest))))
     else if token = ''stubdom'' then Ok (Some (cur\<lparr>r_stubdom := True\<rparr>, rest))
     else if token = ''path'' then obind (strdup field) (\<lambda>p. Ok (Some (cur\<lparr>r_path := p\<rparr>, rest)))
     else if token = ''member'' then obind (strdup field) (\<lambda>p. Ok (Some (cur\<lparr>r_member := p\<rparr>, rest)))
     else Ok None)"

lemma strtok_shorter: "strtok s = (Some t, rest) \<Longrightarrow> length rest < length s"
  using length_dropWhile_le [of "\<lambda>c. c = CHR '' ''" s] length_dropWhile_le [of "\<lambda>c. c \<noteq> CHR '' ''" "dropWhile (\<lambda>c. c = CHR '' '') s"]
  by (cases "dropWhile (\<lambda>c. c = CHR '' '') s") (auto simp: strtok_def Let_def split: if_splits)

lemma strtok_le: "strtok s = (t, rest) \<Longrightarrow> length rest \<le> length s"
  using strtok_shorter [of s] by (cases t) (auto simp: strtok_def Let_def less_imp_le split: if_splits)

lemma set_field_rest:
  assumes "set_field token field rest cur = Ok (Some (cur', rest'))"
  shows "length rest' \<le> length rest"
proof (cases "token = ''if-boolean''")
  case True
  obtain flag rest1 where "strtok rest = (flag, rest1)" by (metis surj_pair)
  with True assms strtok_le show ?thesis by (auto simp: set_field_def outcome_simps)
qed (use assms in \<open>auto simp: set_field_def outcome_simps split: if_splits\<close>)

function rule_fields :: "string option \<Rightarrow> string \<Rightarrow> broker_rule \<Rightarrow> (int \<times> broker_rule) outcome" where
  "rule_fields None rest cur = Ok (0, cur)"
| "rule_fields (Some token) rest cur = (let (field, rest) = strtok rest in
     if field = None \<and> take 1 token \<noteq> ''s'' then Ok (-1, cur)
     else obind (set_field token field rest cur) (\<lambda>set. case set of
         None \<Rightarrow> obind (free_rule cur) (\<lambda>cur. Ok (-1, cur))
       | Some (cur, rest) \<Rightarrow> let (token, rest) = strtok rest in rule_fields token rest cur))"
  by pat_completeness auto
termination
proof (relation "measure (\<lambda>(token, rest, cur). if token = None then 0 else Suc (length rest))", goal_cases)
  case (2 token rest cur tok field rest1 set cr cur' rest2 tok' token' rest3)
  then have "length rest1 \<le> length rest" "length rest2 \<le> length rest1" "strtok rest2 = (token', rest3)"
    using strtok_le [of rest field rest1] set_field_rest [of token field rest1 cur cur' rest2] by simp_all
  then show ?case using strtok_shorter [of rest2 _ rest3] by (cases token') fastforce+
qed simp

definition create_rule :: "broker_rule \<Rightarrow> string option \<Rightarrow> (int \<times> broker_rule) outcome" where
  "create_rule current rule = (case rule of None \<Rightarrow> Ok (-1, current) | Some text \<Rightarrow>
     if text = [] then Ok (-1, current) else
     let current = current\<lparr>r_rule_string := Live text\<rparr>; (token, rest) = strtok text in
     case token of None \<Rightarrow> Ok (-1, current) | Some token \<Rightarrow>
     let current = current\<lparr>r_policy := (token = ''allow'')\<rparr>; (token, rest) = strtok rest in
     obind (deref token) (\<lambda>token.
       if token = ''all'' then Ok (0, current\<lparr>r_all := True\<rparr>)
       else if token = ''out-any'' then Ok (0, current\<lparr>r_out := True\<rparr>)
       else rule_fields (Some token) rest current))"

declare rule_fields.simps(2) [simp del]

subsection \<open>The policy file\<close>

record etc_policy =
  e_count :: nat
  e_rules :: "broker_rule list"

definition isalpha :: "char \<Rightarrow> bool" where
  "isalpha c \<longleftrightarrow> (let n = of_char c :: nat in (65 \<le> n \<and> n \<le> 90) \<or> (97 \<le> n \<and> n \<le> 122))"

definition line_feed :: char where "line_feed = CHR 0x0A"

definition getline :: "string \<Rightarrow> string \<times> string" where
  \<comment> \<open>the bytes up to and including the next newline, and the rest of the file\<close>
  "getline s = (let l = takeWhile (\<lambda>c. c \<noteq> line_feed) s; rest = dropWhile (\<lambda>c. c \<noteq> line_feed) s in (l @ take 1 rest, drop 1 rest))"

definition until_nul :: "string \<Rightarrow> string" where
  "until_nul s = takeWhile (\<lambda>c. c \<noteq> CHR 0x00) s"

lemma getline_shorter:
  assumes "s \<noteq> []"
  shows "length (snd (getline s)) < length s"
proof -
  have "0 < length s" "length (dropWhile (\<lambda>c. c \<noteq> line_feed) s) \<le> length s" using assms length_dropWhile_le by auto
  then show ?thesis unfolding getline_def Let_def snd_conv length_drop by linarith
qed

function etc_loop :: "(string \<Rightarrow> nat) \<Rightarrow> string \<Rightarrow> nat \<Rightarrow> broker_rule list \<Rightarrow> (nat \<times> broker_rule list) outcome" where
  \<comment> \<open>\<open>cap line\<close>: the size of the buffer \<open>getline\<close> allocates for the line\<close>
  "etc_loop cap rest idx rules = (if \<not> idx < MAX_RULES \<or> rest = [] then Ok (idx, rules) else
     let (line, rest') = getline rest in
     if cap line > RULE_MAX_LENGTH - 1 then etc_loop cap rest' idx rules
     else if isalpha (hd line) then
       obind (create_rule (rules ! idx) (Some (butlast (until_nul line)))) (\<lambda>(rc, r).
         if rc < 0 then obind (free_rule r) (\<lambda>r. etc_loop cap rest' idx (rules[idx := r]))
         else etc_loop cap rest' (Suc idx) (rules[idx := r]))
     else etc_loop cap rest' idx rules)"
  by auto
termination
  by (relation "measure (\<lambda>(cap, rest, idx, rules). length rest)") (simp_all, (metis getline_shorter snd_conv)+)

declare etc_loop.simps [simp del]

definition build_etc_policy :: "(string \<Rightarrow> nat) \<Rightarrow> etc_policy \<Rightarrow> string option \<Rightarrow> etc_policy outcome" where
  "build_etc_policy cap p contents = (case contents of
     None \<Rightarrow> Ok (p\<lparr>e_count := 0\<rparr>)
   | Some text \<Rightarrow> obind (etc_loop cap text 0 (e_rules p)) (\<lambda>(n, rules). Ok (p\<lparr>e_count := n, e_rules := rules\<rparr>)))"

subsection \<open>The rules in the database\<close>

record domain_policy =
  dp_domid :: nat
  dp_count :: nat
  dp_uuid :: string
  dp_uuid_db_fmt :: string
  dp_rules :: "broker_rule list"

definition db_query :: "(string \<Rightarrow> string option) \<Rightarrow> string \<Rightarrow> string option" where
  \<comment> \<open>\<open>db\<close>: the string in the reply to the database's \<open>read\<close> method, if there is one\<close>
  "db_query db arg = (case db arg of None \<Rightarrow> None | Some buf \<Rightarrow> if buf = [] then None else Some buf)"

function get_rules_from :: "(string \<Rightarrow> string option) \<Rightarrow> nat \<Rightarrow> domain_policy \<Rightarrow> domain_policy outcome" where
  "get_rules_from db rule_idx dm = (if \<not> rule_idx < MAX_RULES then Ok dm else
     case db_query db (''/vm/'' @ dp_uuid dm @ ''/rpc-firewall-rules/'' @ show_nat rule_idx) of
       None \<Rightarrow> Ok dm
     | Some rulestring \<Rightarrow> obind (create_rule (dp_rules dm ! rule_idx) (Some rulestring)) (\<lambda>(rc, r).
         if rc < 0 then obind (free_rule r) (\<lambda>r. get_rules_from db (Suc rule_idx) (dm\<lparr>dp_rules := (dp_rules dm)[rule_idx := r]\<rparr>))
         else get_rules_from db (Suc rule_idx) (dm\<lparr>dp_rules := (dp_rules dm)[rule_idx := r], dp_count := dp_count dm + 1\<rparr>)))"
  by auto
termination
  by (relation "measure (\<lambda>(db, rule_idx, dm). MAX_RULES - rule_idx)") auto

declare get_rules_from.simps [simp del]

definition get_rules :: "(string \<Rightarrow> string option) \<Rightarrow> domain_policy \<Rightarrow> domain_policy outcome" where
  "get_rules db dm = get_rules_from db 0 dm"

record policy =
  \<comment> \<open>without the load time and the counters, which nothing sets or reads\<close>
  p_database :: bool
  p_domain_count :: nat
  p_etc :: etc_policy
  p_domains :: "domain_policy list"

definition zero_policy :: policy where
  "zero_policy = \<lparr>p_database = False, p_domain_count = 0, p_etc = \<lparr>e_count = 0, e_rules = replicate MAX_RULES zero_rule\<rparr>,
     p_domains = replicate MAX_DOMAINS \<lparr>dp_domid = 0, dp_count = 0, dp_uuid = [], dp_uuid_db_fmt = [],
       dp_rules = replicate MAX_RULES zero_rule\<rparr>\<rparr>"

definition transform_uuid :: "string \<Rightarrow> string outcome" where
  \<comment> \<open>into a buffer of 64 bytes\<close>
  "transform_uuid uuid = (if length uuid < 64 then Ok (map (\<lambda>c. if c = CHR ''-'' then CHR ''_'' else c) uuid)
     else Crash Buffer_Overflow)"

definition load_domain :: "(string \<Rightarrow> string option) \<Rightarrow> string \<Rightarrow> nat \<times> domain_policy list \<Rightarrow> (nat \<times> domain_policy list) outcome" where
  "load_domain db arg s = (let (dom_idx, domains) = s in
     if \<not> dom_idx < MAX_DOMAINS \<or> \<not> length arg < MAX_UUID then Crash Buffer_Overflow else
     obind (transform_uuid arg) (\<lambda>uuid.
     obind (get_rules db ((domains ! dom_idx)\<lparr>dp_uuid := arg, dp_uuid_db_fmt := uuid\<rparr>)) (\<lambda>dm.
       Ok (Suc dom_idx, domains[dom_idx := dm]))))"

definition build_policy ::
  "(string \<Rightarrow> nat) \<Rightarrow> (string \<Rightarrow> string option) \<Rightarrow> string list option \<Rightarrow> string option \<Rightarrow> policy outcome" where
  \<comment> \<open>\<open>vms\<close>: the reply of \<open>db_list\<close>; \<open>contents\<close>: of the file named by the argument\<close>
  "build_policy cap db vms contents =
     obind (build_etc_policy cap (p_etc zero_policy) contents) (\<lambda>etc.
       let p = zero_policy\<lparr>p_etc := etc, p_domain_count := 0\<rparr> in
       case vms of None \<Rightarrow> Ok (p\<lparr>p_database := False\<rparr>)
       | Some args \<Rightarrow> obind (ofold (load_domain db) args (0, p_domains p)) (\<lambda>(n, domains).
           Ok (p\<lparr>p_database := True, p_domain_count := n, p_domains := domains\<rparr>)))"

definition free_policy :: "policy \<Rightarrow> unit outcome" where
  "free_policy p =
     obind (ofold (\<lambda>domain _. ofold (\<lambda>r _. omap (\<lambda>_. ()) (free_rule r)) (take (dp_count domain) (dp_rules domain)) ())
       (take (p_domain_count p) (p_domains p)) ()) (\<lambda>_.
     ofold (\<lambda>r _. omap (\<lambda>_. ()) (free_rule r)) (take (e_count (p_etc p)) (e_rules (p_etc p))) ())"

subsection \<open>Requests\<close>

record dbus_message =
  \<comment> \<open>the members the filter reads\<close>
  m_destination :: "string option"
  m_interface :: "string option"
  m_path :: "string option"
  m_member :: "string option"
  m_args :: "string option list"
    \<comment> \<open>the arguments that were set; \<open>None\<close> for one that is not a string\<close>

record xenstore =
  xs_opens :: bool
  xs_domain_path :: "nat \<Rightarrow> string"
  xs_value :: "string \<Rightarrow> string option"

record broker_env =
  b_xs :: xenstore
  b_db :: "string \<Rightarrow> string option"
  b_find_vm :: "int \<Rightarrow> string option"
    \<comment> \<open>the object path in the reply to \<open>find_vm_by_domid\<close>\<close>

definition is_stubdom :: "xenstore \<Rightarrow> nat \<Rightarrow> bool" where
  \<comment> \<open>without xenstore the result is -1, converted to \<open>bool\<close>\<close>
  "is_stubdom xs domid = (if \<not> xs_opens xs then True else
     case xs_value xs (xs_domain_path xs domid @ ''/target'') of None \<Rightarrow> False | Some v \<Rightarrow> 0 < length v)"

definition get_db_vm_path :: "xenstore \<Rightarrow> nat \<Rightarrow> string option" where
  "get_db_vm_path xs domid = (if \<not> xs_opens xs then None else xs_value xs (''/local/domain/'' @ show_nat domid @ ''/vm''))"

definition filter_if_bool :: "(string \<Rightarrow> string option) \<Rightarrow> string \<Rightarrow> string \<Rightarrow> bool \<Rightarrow> int" where
  "filter_if_bool db uuid bool_cond bool_flag = (case db_query db (uuid @ ''/'' @ bool_cond) of
     None \<Rightarrow> -1
   | Some attr_cond \<Rightarrow> if (attr_cond = ''true'' \<and> \<not> bool_flag) \<or> (attr_cond = ''false'' \<and> bool_flag) then -1 else 0)"

fun field_differs :: "cptr \<Rightarrow> string option \<Rightarrow> bool outcome" where
  "field_differs Null v = Ok False"
| "field_differs (Live s) v = omap (\<lambda>v. s \<noteq> v) (deref v)"
| "field_differs Freed v = Crash Use_After_Free"

definition por :: "bool outcome \<Rightarrow> bool outcome \<Rightarrow> bool outcome" where
  \<comment> \<open>the operator \<open>||\<close>\<close>
  "por a b = obind a (\<lambda>x. if x then Ok True else b)"

definition rule_matches_request ::
  "broker_env \<Rightarrow> policy \<Rightarrow> broker_rule \<Rightarrow> bool \<Rightarrow> dbus_message \<Rightarrow> nat \<Rightarrow> int outcome" where
  "rule_matches_request env p r is_client dmsg domid = (
     if domid = 0 then Ok 1
     else if r_all r then Ok (of_bool (r_policy r))
     else if \<not> is_client \<and> r_out r then Ok (of_bool (r_policy r))
     else if is_client \<and> r_out r then Ok (-1)
     else obind (por (Ok (r_stubdom r \<and> \<not> is_stubdom (b_xs env) domid))
       (por (field_differs (r_destination r) (m_destination dmsg))
       (por (field_differs (r_path r) (m_path dmsg))
       (por (field_differs (r_interface r) (m_interface dmsg))
         (field_differs (r_member r) (m_member dmsg)))))) (\<lambda>differs.
     if differs then Ok (-1)
     else if \<not> p_database p then Ok (of_bool (r_policy r))
     else if r_if_bool r \<noteq> Null \<or> r_domtype r \<noteq> Null then
       (case get_db_vm_path (b_xs env) domid of
          None \<Rightarrow> Ok (-1)
        | Some uuid \<Rightarrow> (case r_if_bool r of
            Null \<Rightarrow> Ok (of_bool (r_policy r))
          | Freed \<Rightarrow> Crash Use_After_Free
          | Live c \<Rightarrow> if filter_if_bool (b_db env) uuid c (r_if_bool_flag r) < 0 then Ok (-1) else Ok (of_bool (r_policy r))))
     else Ok (of_bool (r_policy r))))"

definition get_domain_policy :: "policy \<Rightarrow> string \<Rightarrow> domain_policy option" where
  "get_domain_policy p uuid = find_first (\<lambda>d. dp_uuid_db_fmt d = uuid) (take (p_domain_count p) (p_domains p))"

definition get_uuid_from_domid :: "broker_env \<Rightarrow> int \<Rightarrow> string option outcome" where
  \<comment> \<open>what follows the \<open>/vm/\<close> the path is expected to start with\<close>
  "get_uuid_from_domid env domid = (case b_find_vm env domid of None \<Rightarrow> Ok None
     | Some path \<Rightarrow> if length path < 4 then Crash Buffer_Overflow else Ok (Some (take (MAX_UUID - 1) (drop 4 path))))"

definition get_message_arg :: "dbus_message \<Rightarrow> nat \<Rightarrow> string outcome" where
  "get_message_arg dmsg i = (if i < length (m_args dmsg) \<and> m_args dmsg ! i \<noteq> None then Ok (the (m_args dmsg ! i))
     else Crash Indeterminate_Value)"

definition property_request :: "dbus_message \<Rightarrow> dbus_message outcome" where
  \<comment> \<open>the message \<open>filter_property_request\<close> builds; its arguments stay unset\<close>
  "property_request dmsg =
     obind (get_message_arg dmsg 0) (\<lambda>interface.
     obind (deref (m_member dmsg)) (\<lambda>member.
     obind (if member \<noteq> ''GetAll'' then get_message_arg dmsg 1 else Ok ''None'') (\<lambda>property.
       Ok \<lparr>m_destination = m_destination dmsg, m_interface = Some interface, m_path = Some ''/'', m_member = Some property,
           m_args = []\<rparr>)))"

definition filter_rules ::
  "broker_env \<Rightarrow> policy \<Rightarrow> bool \<Rightarrow> dbus_message \<Rightarrow> nat \<Rightarrow> broker_rule list \<Rightarrow> bool \<Rightarrow> bool outcome" where
  "filter_rules env p is_client dmsg domid rules allowed = ofold (\<lambda>r allowed.
     obind (rule_matches_request env p r is_client dmsg domid) (\<lambda>verdict.
       if verdict = -1 then Ok allowed else Ok (verdict \<noteq> 0))) rules allowed"

definition uint16 :: "int \<Rightarrow> nat" where
  \<comment> \<open>the conversion of \<open>domid\<close> where it is passed to \<open>rule_matches_request\<close>\<close>
  "uint16 i = nat (i mod 2 ^ 16)"

definition UUID_CACHE_LIMIT :: int where "UUID_CACHE_LIMIT = 1024"

lemma property_request_args: "property_request dmsg = Ok req \<Longrightarrow> m_args req = [] \<and> m_args dmsg \<noteq> []"
  by (auto simp: property_request_def get_message_arg_def outcome_simps split: if_splits)

function is_request_allowed ::
  "broker_env \<Rightarrow> policy \<Rightarrow> dbus_message \<Rightarrow> bool \<Rightarrow> int \<Rightarrow> (nat \<Rightarrow> string option) \<Rightarrow> (bool \<times> (nat \<Rightarrow> string option)) outcome" where
  \<comment> \<open>\<open>uuids\<close>: the cache \<open>domain_uuids\<close>. Every caller passes a message, and the policy is built before
     the loops that call it start, so neither pointer is null\<close>
  "is_request_allowed env p dmsg is_client domid uuids =
     obind (filter_rules env p is_client dmsg (uint16 domid) (take (e_count (p_etc p)) (e_rules (p_etc p))) False) (\<lambda>allowed.
     if \<not> p_database p \<or> domid \<ge> UUID_CACHE_LIMIT then Ok (allowed, uuids)
     else if domid < 0 then Crash Buffer_Overflow
     else obind (case uuids (nat domid) of Some u \<Rightarrow> Ok (Some u) | None \<Rightarrow> get_uuid_from_domid env domid) (\<lambda>uuid.
     let uuids = uuids(nat domid := uuid) in
     case uuid of None \<Rightarrow> Ok (allowed, uuids) | Some uuid \<Rightarrow>
     case get_domain_policy p uuid of None \<Rightarrow> Ok (allowed, uuids) | Some domain \<Rightarrow>
     obind (filter_rules env p is_client dmsg (uint16 domid) (take (dp_count domain) (dp_rules domain)) allowed) (\<lambda>allowed.
     obind (deref (m_interface dmsg)) (\<lambda>interface.
     if interface = ''org.freedesktop.DBus.Properties''
     then obind (property_request dmsg) (\<lambda>req. is_request_allowed env p req True domid uuids)
     else Ok (allowed, uuids)))))"
  by auto
termination
  by (relation "measure (\<lambda>(env, p, dmsg, is_client, domid, uuids). length (m_args dmsg))")
    (auto dest: property_request_args)

declare is_request_allowed.simps [simp del]

subsection \<open>The decision, declaratively\<close>

definition strings_live :: "broker_rule \<Rightarrow> bool" where
  "strings_live r \<longleftrightarrow> Freed \<notin> {r_destination r, r_path r, r_interface r, r_member r, r_if_bool r}"

definition msg_complete :: "dbus_message \<Rightarrow> bool" where
  "msg_complete dmsg \<longleftrightarrow> m_destination dmsg \<noteq> None \<and> m_path dmsg \<noteq> None \<and> m_interface dmsg \<noteq> None \<and> m_member dmsg \<noteq> None"

definition field_fits :: "cptr \<Rightarrow> string option \<Rightarrow> bool" where
  "field_fits f v \<longleftrightarrow> (\<forall>s. f = Live s \<longrightarrow> v = Some s)"

definition flag_agrees :: "(string \<Rightarrow> string option) \<Rightarrow> string \<Rightarrow> string \<Rightarrow> bool \<Rightarrow> bool" where
  \<comment> \<open>the database has the entry and it does not say the opposite\<close>
  "flag_agrees db uuid c flag \<longleftrightarrow> (\<exists>v. db (uuid @ ''/'' @ c) = Some v \<and> v \<noteq> [] \<and> v \<noteq> (if flag then ''false'' else ''true''))"

definition applies :: "broker_env \<Rightarrow> policy \<Rightarrow> bool \<Rightarrow> dbus_message \<Rightarrow> nat \<Rightarrow> broker_rule \<Rightarrow> bool" where
  "applies env p is_client dmsg domid r \<longleftrightarrow> domid = 0 \<or> r_all r \<or>
     (if r_out r then \<not> is_client else
       (r_stubdom r \<longrightarrow> is_stubdom (b_xs env) domid) \<and>
       field_fits (r_destination r) (m_destination dmsg) \<and> field_fits (r_path r) (m_path dmsg) \<and>
       field_fits (r_interface r) (m_interface dmsg) \<and> field_fits (r_member r) (m_member dmsg) \<and>
       (p_database p \<and> (r_if_bool r \<noteq> Null \<or> r_domtype r \<noteq> Null) \<longrightarrow>
         (\<exists>uuid. get_db_vm_path (b_xs env) domid = Some uuid \<and>
           (\<forall>c. r_if_bool r = Live c \<longrightarrow> flag_agrees (b_db env) uuid c (r_if_bool_flag r)))))"

definition grants :: "nat \<Rightarrow> broker_rule \<Rightarrow> bool" where
  \<comment> \<open>the control domain is granted whatever the rule says\<close>
  "grants domid r \<longleftrightarrow> domid = 0 \<or> r_policy r"

definition last_match_allows :: "('r \<Rightarrow> bool) \<Rightarrow> ('r \<Rightarrow> bool) \<Rightarrow> 'r list \<Rightarrow> bool" where
  "last_match_allows A G rules \<longleftrightarrow> (\<exists>pre r post. rules = pre @ r # post \<and> A r \<and> G r \<and> (\<forall>x \<in> set post. \<not> A x))"

lemma last_match_Nil [simp]: "\<not> last_match_allows A G []"
  by (simp add: last_match_allows_def)

lemma last_match_snoc:
  "last_match_allows A G (rules @ [r]) \<longleftrightarrow> (if A r then G r else last_match_allows A G rules)"
proof -
  have inner: "y = r \<and> rules = pre @ x # ys" if "rules @ [r] = pre @ x # ys @ [y]" for pre x ys y
    using that append1_eq_conv [of rules r "pre @ x # ys" y] by auto
  show ?thesis
  proof (cases "A r")
    case True
    have "G r" if lm: "last_match_allows A G (rules @ [r])"
    proof -
      obtain pre x post where m: "rules @ [r] = pre @ x # post" "G x" "\<forall>y \<in> set post. \<not> A y"
        using lm unfolding last_match_allows_def by blast
      show ?thesis
      proof (cases post rule: rev_cases)
        case (snoc ys y)
        then have "y = r" using inner [of pre x ys y] m(1) by (simp only: append_assoc append_Cons)
        then show ?thesis using m(3) snoc True by simp
      qed (use m in simp)
    qed
    moreover have "last_match_allows A G (rules @ [r])" if "G r"
      using that True unfolding last_match_allows_def by (intro exI [of _ rules] exI [of _ r] exI [of _ "[]"]) simp
    ultimately show ?thesis using True by auto
  next
    case False
    have "last_match_allows A G rules" if lm: "last_match_allows A G (rules @ [r])"
    proof -
      obtain pre x post where m: "rules @ [r] = pre @ x # post" "A x" "G x" "\<forall>y \<in> set post. \<not> A y"
        using lm unfolding last_match_allows_def by blast
      with False obtain ys y where post: "post = ys @ [y]" by (cases post rule: rev_cases) auto
      then have "rules = pre @ x # ys" using inner [of pre x ys y] m(1) by (simp only:)
      then show ?thesis unfolding last_match_allows_def
        using m post by (intro exI [of _ pre] exI [of _ x] exI [of _ ys]) simp
    qed
    moreover have "last_match_allows A G (rules @ [r])" if lm: "last_match_allows A G rules"
    proof -
      obtain pre x post where "rules = pre @ x # post" "A x" "G x" "\<forall>y \<in> set post. \<not> A y"
        using lm unfolding last_match_allows_def by blast
      then show ?thesis unfolding last_match_allows_def
        using False by (intro exI [of _ pre] exI [of _ x] exI [of _ "post @ [r]"]) simp
    qed
    ultimately show ?thesis using False by auto
  qed
qed

lemma differs_run: "f \<noteq> Freed \<Longrightarrow> v \<noteq> None \<Longrightarrow> field_differs f v = Ok (\<not> field_fits f v)"
  by (cases f) (auto simp: field_fits_def)

lemma filter_if_bool_iff: "filter_if_bool db uuid c flag < 0 \<longleftrightarrow> \<not> flag_agrees db uuid c flag"
  by (auto simp: filter_if_bool_def flag_agrees_def db_query_def split: option.split if_splits)

lemma matches_run:
  assumes "strings_live r" and "msg_complete dmsg"
  shows "rule_matches_request env p r is_client dmsg domid =
    Ok (if applies env p is_client dmsg domid r then of_bool (grants domid r) else -1)"
proof -
  have nf: "r_destination r \<noteq> Freed" "r_path r \<noteq> Freed" "r_interface r \<noteq> Freed" "r_member r \<noteq> Freed" "r_if_bool r \<noteq> Freed"
    using assms(1) by (auto simp: strings_live_def)
  have nn: "m_destination dmsg \<noteq> None" "m_path dmsg \<noteq> None" "m_interface dmsg \<noteq> None" "m_member dmsg \<noteq> None"
    using assms(2) by (simp_all add: msg_complete_def)
  note d = differs_run [OF nf(1) nn(1)] differs_run [OF nf(2) nn(2)] differs_run [OF nf(3) nn(3)] differs_run [OF nf(4) nn(4)]
  show ?thesis using nf(5)
    by (auto simp: rule_matches_request_def applies_def grants_def por_def d filter_if_bool_iff split: option.split cptr.split)
qed

lemma filter_run:
  assumes "\<forall>r \<in> set rules. strings_live r" and "msg_complete dmsg"
  shows "filter_rules env p is_client dmsg domid rules (last_match_allows (applies env p is_client dmsg domid) (grants domid) rs) =
    Ok (last_match_allows (applies env p is_client dmsg domid) (grants domid) (rs @ rules))"
  using assms(1)
proof (induction rules arbitrary: rs)
  case (Cons r rules)
  then have "strings_live r" by simp
  note m = matches_run [OF this assms(2), of env p is_client domid]
  from Cons.IH [of "rs @ [r]"] Cons.prems show ?case
    by (cases "applies env p is_client dmsg domid r") (simp_all add: filter_rules_def m last_match_snoc)
qed (simp add: filter_rules_def)

definition domain_of :: "broker_env \<Rightarrow> policy \<Rightarrow> int \<Rightarrow> domain_policy option" where
  "domain_of env p domid = (if p_database p \<and> domid < UUID_CACHE_LIMIT then
     (case b_find_vm env domid of None \<Rightarrow> None | Some path \<Rightarrow> get_domain_policy p (take (MAX_UUID - 1) (drop 4 path))) else None)"

definition rules_for :: "broker_env \<Rightarrow> policy \<Rightarrow> int \<Rightarrow> broker_rule list" where
  "rules_for env p domid = take (e_count (p_etc p)) (e_rules (p_etc p)) @
     (case domain_of env p domid of None \<Rightarrow> [] | Some d \<Rightarrow> take (dp_count d) (dp_rules d))"

definition decision :: "broker_env \<Rightarrow> policy \<Rightarrow> dbus_message \<Rightarrow> bool \<Rightarrow> int \<Rightarrow> bool" where
  "decision env p dmsg is_client domid = (let d = uint16 domid in
     last_match_allows (applies env p is_client dmsg d) (grants d) (rules_for env p domid))"

definition uuids_ok :: "broker_env \<Rightarrow> (nat \<Rightarrow> string option) \<Rightarrow> bool" where
  "uuids_ok env uuids \<longleftrightarrow> (\<forall>d u. uuids d = Some u \<longrightarrow> get_uuid_from_domid env (int d) = Ok (Some u))"

definition policy_live :: "policy \<Rightarrow> bool" where
  "policy_live p \<longleftrightarrow> (\<forall>r \<in> set (take (e_count (p_etc p)) (e_rules (p_etc p))). strings_live r) \<and>
     (\<forall>d \<in> set (take (p_domain_count p) (p_domains p)). \<forall>r \<in> set (take (dp_count d) (dp_rules d)). strings_live r)"

abbreviation properties_iface :: string where
  "properties_iface \<equiv> ''org.freedesktop.DBus.Properties''"

lemma allowed_unfold:
  assumes live: "policy_live p" and msg: "msg_complete dmsg" and domid: "0 \<le> domid" and uuids: "uuids_ok env uuids"
    and paths: "\<forall>path. b_find_vm env domid = Some path \<longrightarrow> 4 \<le> length path"
  shows "\<exists>uuids'. uuids_ok env uuids' \<and> is_request_allowed env p dmsg is_client domid uuids =
    (if domain_of env p domid \<noteq> None \<and> m_interface dmsg = Some properties_iface
     then obind (property_request dmsg) (\<lambda>req. is_request_allowed env p req True domid uuids')
     else Ok (decision env p dmsg is_client domid, uuids'))"
proof -
  let ?d = "uint16 domid" and ?etc = "take (e_count (p_etc p)) (e_rules (p_etc p))"
  let ?A = "applies env p is_client dmsg ?d"
  have etc: "filter_rules env p is_client dmsg ?d ?etc False = Ok (last_match_allows ?A (grants ?d) ?etc)"
    using filter_run [of ?etc dmsg env p is_client ?d "[]"] live msg by (simp add: policy_live_def)
  show ?thesis
  proof (cases "p_database p \<and> domid < UUID_CACHE_LIMIT")
    case False
    then show ?thesis using uuids
      by (subst is_request_allowed.simps) (auto simp: etc domain_of_def decision_def rules_for_def Let_def)
  next
    case True
    define uuid where "uuid = map_option (\<lambda>path. take (MAX_UUID - 1) (drop 4 path)) (b_find_vm env domid)"
    have uuid: "get_uuid_from_domid env domid = Ok uuid"
      using paths by (cases "b_find_vm env domid") (auto simp: get_uuid_from_domid_def uuid_def)
    let ?u = "uuids(nat domid := uuid)"
    have cache: "(case uuids (nat domid) of Some u \<Rightarrow> Ok (Some u) | None \<Rightarrow> get_uuid_from_domid env domid) = Ok uuid"
      using uuids uuid domid by (cases "uuids (nat domid)") (simp_all add: uuids_ok_def, metis int_nat_eq outcome.inject(1))
    have ok: "uuids_ok env ?u" using uuids uuid domid by (auto simp: uuids_ok_def)
    have dom: "domain_of env p domid = Option.bind uuid (get_domain_policy p)"
      using True by (auto simp: domain_of_def uuid_def split: option.split)
    show ?thesis
    proof (cases "domain_of env p domid")
      case None
      then show ?thesis using True domid ok dom
        by (subst is_request_allowed.simps) (auto simp: etc cache decision_def rules_for_def Let_def split: option.splits)
    next
      case (Some dm)
      then obtain u where u: "uuid = Some u" "get_domain_policy p u = Some dm" using dom by (cases uuid) auto
      let ?rs = "take (dp_count dm) (dp_rules dm)"
      have "\<forall>r \<in> set ?rs. strings_live r"
        using live find_first_Some_in u(2) unfolding policy_live_def get_domain_policy_def by metis
      note rs = filter_run [OF this msg, of env p is_client ?d ?etc]
      obtain i where i: "m_interface dmsg = Some i" using msg by (auto simp: msg_complete_def)
      show ?thesis using True domid ok u i Some
        by (subst is_request_allowed.simps) (auto simp: etc cache rs decision_def rules_for_def Let_def)
    qed
  qed
qed


subsection \<open>Written rules\<close>

datatype clause = Destination string | Path string | Interface string | Member string | Dom_Type string
  | If_Boolean string bool | Stubdom string

datatype rule_spec = Every bool | Out_Any bool | Where bool clause "clause list"

fun clause_words :: "clause \<Rightarrow> string list" where
  "clause_words (Destination w) = [''destination'', w]"
| "clause_words (Path w) = [''path'', w]"
| "clause_words (Interface w) = [''interface'', w]"
| "clause_words (Member w) = [''member'', w]"
| "clause_words (Dom_Type w) = [''dom-type'', w]"
| "clause_words (If_Boolean w b) = [''if-boolean'', w, if b then ''true'' else ''false'']"
| "clause_words (Stubdom w) = [''stubdom'', w]"

definition verb :: "bool \<Rightarrow> string" where
  "verb allow = (if allow then ''allow'' else ''deny'')"

fun spec_words :: "rule_spec \<Rightarrow> string list" where
  "spec_words (Every b) = [verb b, ''all'']"
| "spec_words (Out_Any b) = [verb b, ''out-any'']"
| "spec_words (Where b c cs) = verb b # concat (map clause_words (c # cs))"

fun join :: "string list \<Rightarrow> string" where
  "join [] = []"
| "join [w] = w"
| "join (w # v # ws) = w @ CHR '' '' # join (v # ws)"

declare join.simps(2,3) [simp del]

definition spec_text :: "rule_spec \<Rightarrow> string" where
  "spec_text sp = join (spec_words sp)"

fun set_clause :: "clause \<Rightarrow> broker_rule \<Rightarrow> broker_rule" where
  "set_clause (Destination w) r = r\<lparr>r_destination := Live w\<rparr>"
| "set_clause (Path w) r = r\<lparr>r_path := Live w\<rparr>"
| "set_clause (Interface w) r = r\<lparr>r_interface := Live w\<rparr>"
| "set_clause (Member w) r = r\<lparr>r_member := Live w\<rparr>"
| "set_clause (Dom_Type w) r = r\<lparr>r_domtype := Live w\<rparr>"
| "set_clause (If_Boolean w b) r = r\<lparr>r_if_bool := Live w, r_if_bool_flag := b\<rparr>"
| "set_clause (Stubdom w) r = r\<lparr>r_stubdom := True\<rparr>"

fun set_spec :: "rule_spec \<Rightarrow> broker_rule \<Rightarrow> broker_rule" where
  "set_spec (Every b) r = r\<lparr>r_policy := b, r_all := True\<rparr>"
| "set_spec (Out_Any b) r = r\<lparr>r_policy := b, r_out := True\<rparr>"
| "set_spec (Where b c cs) r = fold set_clause (c # cs) (r\<lparr>r_policy := b\<rparr>)"

definition rule_of :: "rule_spec \<Rightarrow> broker_rule" where
  \<comment> \<open>the rule a text stands for\<close>
  "rule_of sp = set_spec sp (zero_rule\<lparr>r_rule_string := Live (spec_text sp)\<rparr>)"

definition word :: "string \<Rightarrow> bool" where
  "word w \<longleftrightarrow> w \<noteq> [] \<and> CHR '' '' \<notin> set w \<and> line_feed \<notin> set w \<and> CHR 0x00 \<notin> set w"

definition spec_ok :: "rule_spec \<Rightarrow> bool" where
  "spec_ok sp \<longleftrightarrow> (\<forall>w \<in> set (spec_words sp). word w)"

lemma strtok_word:
  assumes "word w"
  shows "strtok (join (w # ws)) = (Some w, join ws)"
proof -
  have w: "w \<noteq> []" "hd w \<noteq> CHR '' ''" "takeWhile (\<lambda>c. c \<noteq> CHR '' '') w = w" "\<forall>c \<in> set w. c \<noteq> CHR '' ''"
    using assms by (auto simp: word_def takeWhile_eq_all_conv) (metis list.set_sel(1))
  have start: "dropWhile (\<lambda>c. c = CHR '' '') (w @ t) = w @ t" for t using w(1,2) by (cases w) auto
  have "takeWhile (\<lambda>c. c \<noteq> CHR '' '') (w @ CHR '' '' # t) = w" "dropWhile (\<lambda>c. c \<noteq> CHR '' '') (w @ CHR '' '' # t) = CHR '' '' # t" for t
    using w(4) by (auto simp: takeWhile_append dropWhile_append)
  moreover have "dropWhile (\<lambda>c. c \<noteq> CHR '' '') w = []" using w(4) by simp
  ultimately show ?thesis using w(1,3) start [of "[]"]
    by (cases ws) (simp_all add: strtok_def Let_def start join.simps del: dropWhile_eq_Nil_conv)
qed

lemma strtok_end [simp]: "strtok [] = (None, [])"
  by (simp add: strtok_def)

lemma set_clause_run:
  assumes "\<forall>w \<in> set (clause_words c). word w"
  shows "\<exists>kw ws. clause_words c = kw # ws \<and> word kw \<and> take 1 kw \<noteq> [] \<and> kw \<noteq> ''all'' \<and> kw \<noteq> ''out-any'' \<and>
    (\<forall>rest cur. \<exists>f rest1. strtok (join (ws @ rest)) = (Some f, rest1) \<and>
      set_field kw (Some f) rest1 cur = Ok (Some (set_clause c cur, join rest)))"
proof -
  have "word ''true''" "word ''false''" by (simp_all add: word_def line_feed_def)
  then show ?thesis using assms by (cases c) (auto simp: strtok_word set_field_def strdup_def)
qed

lemma rule_fields_run:
  assumes "\<forall>c \<in> set (c # cs). \<forall>w \<in> set (clause_words c). word w"
  shows "\<exists>kw rest. strtok (join (concat (map clause_words (c # cs)))) = (Some kw, rest) \<and> kw \<noteq> ''all'' \<and> kw \<noteq> ''out-any'' \<and>
    rule_fields (Some kw) rest cur = Ok (0, fold set_clause (c # cs) cur)"
  using assms
proof (induction cs arbitrary: c cur)
  case Nil
  from set_clause_run [of c] Nil.prems obtain kw ws where kw: "clause_words c = kw # ws" "word kw" "kw \<noteq> ''all''" "kw \<noteq> ''out-any''"
    "\<forall>rest cur. \<exists>f rest1. strtok (join (ws @ rest)) = (Some f, rest1) \<and>
      set_field kw (Some f) rest1 cur = Ok (Some (set_clause c cur, join rest))" by auto
  from kw(5) [rule_format, of "[]" cur] obtain f rest1 where
    "strtok (join ws) = (Some f, rest1)" "set_field kw (Some f) rest1 cur = Ok (Some (set_clause c cur, []))" by auto
  with kw show ?case by (simp add: strtok_word rule_fields.simps(2))
next
  case (Cons d cs)
  from set_clause_run [of c] Cons.prems obtain kw ws where kw: "clause_words c = kw # ws" "word kw" "kw \<noteq> ''all''" "kw \<noteq> ''out-any''"
    "\<forall>rest cur. \<exists>f rest1. strtok (join (ws @ rest)) = (Some f, rest1) \<and>
      set_field kw (Some f) rest1 cur = Ok (Some (set_clause c cur, join rest))" by auto
  let ?more = "concat (map clause_words (d # cs))"
  from kw(5) [rule_format, of ?more cur] obtain f rest1 where
    f: "strtok (join (ws @ ?more)) = (Some f, rest1)" "set_field kw (Some f) rest1 cur = Ok (Some (set_clause c cur, join ?more))" by auto
  from Cons.IH [of d "set_clause c cur"] Cons.prems obtain kw' rest' where
    "strtok (join ?more) = (Some kw', rest')" "rule_fields (Some kw') rest' (set_clause c cur) = Ok (0, fold set_clause (d # cs) (set_clause c cur))"
    by auto
  with kw f show ?case by (simp add: strtok_word rule_fields.simps(2))
qed

lemma verb_word [simp]: "word (verb b)" "(verb b = ''allow'') = b"
  by (simp_all add: word_def verb_def line_feed_def)

lemma create_rule_run:
  assumes "spec_ok sp"
  shows "create_rule cur (Some (spec_text sp)) = Ok (0, set_spec sp (cur\<lparr>r_rule_string := Live (spec_text sp)\<rparr>))"
proof -
  obtain b ws where sp: "spec_words sp = verb b # ws" by (cases sp) auto
  let ?cur = "cur\<lparr>r_rule_string := Live (spec_text sp), r_policy := b\<rparr>"
  have first: "strtok (spec_text sp) = (Some (verb b), join ws)" unfolding spec_text_def sp by (rule strtok_word) simp
  then have ne: "spec_text sp \<noteq> []" by auto
  show ?thesis
  proof (cases sp)
    case (Where b' c cs)
    with sp have b: "b' = b" "ws = concat (map clause_words (c # cs))" by (auto simp: verb_def split: if_splits)
    from assms Where have "\<forall>c \<in> set (c # cs). \<forall>w \<in> set (clause_words c). word w" by (auto simp: spec_ok_def)
    from rule_fields_run [OF this, of ?cur] b(2) obtain kw rest where
      "strtok (join ws) = (Some kw, rest)" "kw \<noteq> ''all''" "kw \<noteq> ''out-any''" "rule_fields (Some kw) rest ?cur = Ok (0, fold set_clause (c # cs) ?cur)" by auto
    then show ?thesis using ne first Where b(1) by (simp add: create_rule_def Let_def)
  qed (use sp ne first strtok_word [of "''all''" "[]"] strtok_word [of "''out-any''" "[]"]
       in \<open>auto simp: create_rule_def Let_def word_def line_feed_def verb_def split: if_splits\<close>)
qed

lemma join_chars: "\<forall>w \<in> set ws. word w \<Longrightarrow> line_feed \<notin> set (join ws) \<and> CHR 0x00 \<notin> set (join ws)"
  by (induction ws rule: join.induct) (auto simp: join.simps word_def line_feed_def)

lemma spec_text_chars:
  assumes "spec_ok sp"
  shows "line_feed \<notin> set (spec_text sp)" "CHR 0x00 \<notin> set (spec_text sp)" "isalpha (hd (spec_text sp))" "spec_text sp \<noteq> []"
proof -
  show "line_feed \<notin> set (spec_text sp)" "CHR 0x00 \<notin> set (spec_text sp)"
    using assms join_chars [of "spec_words sp"] by (simp_all add: spec_ok_def spec_text_def)
  obtain b ws where sp: "spec_words sp = verb b # ws" by (cases sp) auto
  then obtain t where t: "spec_text sp = verb b @ t" by (cases ws) (simp_all add: spec_text_def join.simps)
  then show "isalpha (hd (spec_text sp))" "spec_text sp \<noteq> []" by (simp_all add: verb_def isalpha_def)
qed

lemma getline_text: "line_feed \<notin> set l \<Longrightarrow> getline (l @ line_feed # t) = (l @ [line_feed], t)"
  by (auto simp: getline_def Let_def takeWhile_append dropWhile_append)

lemma insert_next:
  assumes "idx < length rules"
  shows "take (Suc idx) (rules[idx := r]) @ xs @ drop (Suc idx + n) (rules[idx := r]) = take idx rules @ (r # xs) @ drop (idx + Suc n) rules"
  using assms by (simp add: take_Suc_conv_app_nth)

lemma etc_loop_run:
  assumes "\<forall>sp \<in> set specs. spec_ok sp \<and> cap (spec_text sp @ [line_feed]) < RULE_MAX_LENGTH" and "idx + length specs \<le> MAX_RULES"
    and "length rules = MAX_RULES" and "\<forall>i < MAX_RULES. idx \<le> i \<longrightarrow> rules ! i = zero_rule"
  shows "etc_loop cap (concat (map (\<lambda>sp. spec_text sp @ [line_feed]) specs)) idx rules =
    Ok (idx + length specs, take idx rules @ map rule_of specs @ drop (idx + length specs) rules)"
  using assms
proof (induction specs arbitrary: idx rules)
  case (Cons sp specs)
  let ?rest = "concat (map (\<lambda>sp. spec_text sp @ [line_feed]) specs)" and ?rules = "rules[idx := rule_of sp]"
  have ok: "spec_ok sp" "\<not> RULE_MAX_LENGTH - 1 < cap (spec_text sp @ [line_feed])" using Cons.prems(1) by auto
  note chars = spec_text_chars [OF ok(1)]
  have line: "getline ((spec_text sp @ [line_feed]) @ ?rest) = (spec_text sp @ [line_feed], ?rest)" using getline_text [OF chars(1)] by simp
  have cut: "butlast (until_nul (spec_text sp @ [line_feed])) = spec_text sp"
    using chars(2) by (auto simp: until_nul_def line_feed_def takeWhile_append)
  have slot: "create_rule (rules ! idx) (Some (spec_text sp)) = Ok (0, rule_of sp)"
    using create_rule_run [OF ok(1)] Cons.prems(2,4) by (simp add: rule_of_def)
  have "etc_loop cap (concat (map (\<lambda>sp. spec_text sp @ [line_feed]) (sp # specs))) idx rules = etc_loop cap ?rest (Suc idx) ?rules"
    using Cons.prems(2) chars(3,4) ok(2) line by (subst etc_loop.simps) (simp add: slot cut)
  also have "\<dots> = Ok (Suc idx + length specs, take (Suc idx) ?rules @ map rule_of specs @ drop (Suc idx + length specs) ?rules)"
    using Cons.IH [of "Suc idx" ?rules] Cons.prems by auto
  finally show ?case using insert_next [of idx rules "rule_of sp" "map rule_of specs" "length specs"] Cons.prems(2,3) by simp
qed (simp add: etc_loop.simps)

lemma live_fold: "strings_live r \<Longrightarrow> strings_live (fold set_clause cs r)"
proof (induction cs arbitrary: r)
  case (Cons c cs)
  have "strings_live (set_clause c r)" using Cons.prems by (cases c) (auto simp: strings_live_def)
  with Cons.IH show ?case by simp
qed simp

lemma rule_of_live: "strings_live (rule_of sp)"
proof -
  have "strings_live (zero_rule\<lparr>r_rule_string := Live t, r_policy := b\<rparr>)" for t b by (simp add: strings_live_def zero_rule_def)
  note start = live_fold [OF this]
  show ?thesis
  proof (cases sp)
    case (Where b c cs)
    with start [where cs = "c # cs"] show ?thesis unfolding rule_of_def by simp
  qed (simp_all add: rule_of_def zero_rule_def strings_live_def)
qed

text \<open>
  C18. A policy file with one well-formed rule per line, in any order of clauses, is loaded in full:
  the policy has exactly the rules that are written, in the order of the file, each with exactly the
  fields its text names, in slots whose strings are live. The limits are those of the code: at most
  512 rules, and lines for which the buffer of \<open>getline\<close> stays below 512 bytes.
\<close>

theorem policy_file_loaded:
  assumes "\<forall>sp \<in> set specs. spec_ok sp \<and> cap (spec_text sp @ [line_feed]) < RULE_MAX_LENGTH" and "length specs \<le> MAX_RULES"
  shows "build_etc_policy cap (p_etc zero_policy) (Some (concat (map (\<lambda>sp. spec_text sp @ [line_feed]) specs))) =
      Ok \<lparr>e_count = length specs, e_rules = map rule_of specs @ replicate (MAX_RULES - length specs) zero_rule\<rparr> \<and>
    (\<forall>sp \<in> set specs. strings_live (rule_of sp))"
  using etc_loop_run [OF assms(1), of 0 "replicate MAX_RULES zero_rule"] assms(2)
  by (simp add: build_etc_policy_def zero_policy_def rule_of_live)

lemma get_rules_run:
  assumes "\<forall>sp \<in> set specs. spec_ok sp" and "idx + length specs \<le> MAX_RULES"
    and "length (dp_rules dm) = MAX_RULES" and "\<forall>i < MAX_RULES. idx \<le> i \<longrightarrow> dp_rules dm ! i = zero_rule"
    and "\<forall>i < length specs. db (''/vm/'' @ dp_uuid dm @ ''/rpc-firewall-rules/'' @ show_nat (idx + i)) = Some (spec_text (specs ! i))"
    and "db (''/vm/'' @ dp_uuid dm @ ''/rpc-firewall-rules/'' @ show_nat (idx + length specs)) = None"
  shows "get_rules_from db idx dm = Ok (dm\<lparr>dp_rules := take idx (dp_rules dm) @ map rule_of specs @ drop (idx + length specs) (dp_rules dm),
    dp_count := dp_count dm + length specs\<rparr>)"
  using assms
proof (induction specs arbitrary: idx dm)
  case (Cons sp specs)
  let ?dm = "dm\<lparr>dp_rules := (dp_rules dm)[idx := rule_of sp], dp_count := dp_count dm + 1\<rparr>"
  have ok: "spec_ok sp" using Cons.prems(1) by simp
  have slot: "create_rule (dp_rules dm ! idx) (Some (spec_text sp)) = Ok (0, rule_of sp)"
    using create_rule_run [OF ok] Cons.prems(2,4) by (simp add: rule_of_def)
  have q: "db_query db (''/vm/'' @ dp_uuid dm @ ''/rpc-firewall-rules/'' @ show_nat idx) = Some (spec_text sp)"
    using Cons.prems(5) spec_text_chars(4) [OF ok] by (auto simp: db_query_def dest!: spec [of _ 0])
  have "get_rules_from db idx dm = get_rules_from db (Suc idx) ?dm"
    using Cons.prems(2) by (subst get_rules_from.simps) (simp add: slot q del: append.simps)
  also have "\<dots> = Ok (?dm\<lparr>dp_rules := take (Suc idx) (dp_rules ?dm) @ map rule_of specs @ drop (Suc idx + length specs) (dp_rules ?dm),
      dp_count := dp_count ?dm + length specs\<rparr>)"
    using Cons.IH [of "Suc idx" ?dm] Cons.prems by (fastforce simp del: append.simps)
  finally show ?case
    using insert_next [of idx "dp_rules dm" "rule_of sp" "map rule_of specs" "length specs"] Cons.prems(2,3) by simp
qed (subst get_rules_from.simps, simp add: db_query_def)

lemma valueless_rule:
  assumes "word kw" and "kw \<noteq> ''all''" and "kw \<noteq> ''out-any''" and "take 1 kw \<noteq> ''s''"
  shows "create_rule zero_rule (Some (join [''allow'', kw])) = Ok (-1, zero_rule\<lparr>r_rule_string := Live (join [''allow'', kw]), r_policy := True\<rparr>)"
proof -
  have "word ''allow''" by (simp add: word_def line_feed_def)
  note t = strtok_word [OF this, of "[kw]"] strtok_word [OF assms(1), of "[]"]
  moreover have "join [''allow'', kw] \<noteq> []" by (simp add: join.simps)
  ultimately show ?thesis using assms by (simp add: create_rule_def rule_fields.simps(2) Let_def)
qed

text \<open>
  C40. A rule in the database that is refused for lack of a value is not out of force. Reading the rules
  of a domain skips its slot without counting it, so that, with \<open>n\<close> well-formed rules behind it, the
  rules in force are the refused one and the first \<open>n - 1\<close> of the others: the last rule of the domain
  is never consulted, and the refused rule, written \<open>allow\<close> and a keyword, allows every request.
\<close>

theorem refused_rule_in_force:
  assumes "word kw" and "kw \<noteq> ''all''" and "kw \<noteq> ''out-any''" and "take 1 kw \<noteq> ''s''"
    and specs: "\<forall>sp \<in> set specs. spec_ok sp" "specs \<noteq> []" "length specs < MAX_RULES"
    and dm: "dp_rules dm = replicate MAX_RULES zero_rule" "dp_count dm = 0"
    and bad: "db (''/vm/'' @ dp_uuid dm @ ''/rpc-firewall-rules/'' @ show_nat 0) = Some (join [''allow'', kw])"
    and good: "\<forall>i < length specs. db (''/vm/'' @ dp_uuid dm @ ''/rpc-firewall-rules/'' @ show_nat (1 + i)) = Some (spec_text (specs ! i))"
    and stop: "db (''/vm/'' @ dp_uuid dm @ ''/rpc-firewall-rules/'' @ show_nat (1 + length specs)) = None"
  shows "\<exists>dm' r. get_rules db dm = Ok dm' \<and> take (dp_count dm') (dp_rules dm') = r # map rule_of (butlast specs) \<and>
    (\<forall>env p is_client dmsg domid. rule_matches_request env p r is_client dmsg domid = Ok 1)"
proof -
  let ?r = "zero_rule\<lparr>r_rule_string := Freed, r_policy := True\<rparr>"
  let ?dm = "dm\<lparr>dp_rules := (dp_rules dm)[0 := ?r]\<rparr>"
  have q: "db_query db (''/vm/'' @ dp_uuid dm @ ''/rpc-firewall-rules/'' @ show_nat 0) = Some (join [''allow'', kw])"
    using bad by (simp add: db_query_def join.simps del: show_nat.simps)
  have free: "free_rule (zero_rule\<lparr>r_rule_string := Live t, r_policy := True\<rparr>) = Ok ?r" for t
    by (simp add: free_rule_def zero_rule_def)
  have slot: "dp_rules dm ! 0 = zero_rule" "0 < MAX_RULES" using dm by (simp_all add: MAX_RULES_def)
  have "get_rules db dm = get_rules_from db 1 ?dm"
    unfolding get_rules_def using q slot by (subst get_rules_from.simps)
      (simp add: valueless_rule [OF assms(1-4)] free del: append.simps show_nat.simps)
  also have "\<dots> = Ok (?dm\<lparr>dp_rules := take 1 (dp_rules ?dm) @ map rule_of specs @ drop (1 + length specs) (dp_rules ?dm),
      dp_count := dp_count ?dm + length specs\<rparr>)"
    by (rule get_rules_run) (use specs dm good stop in \<open>simp_all del: append.simps show_nat.simps\<close>)
  finally have run: "get_rules db dm = \<dots>" .
  have "take (length specs) ([?r] @ map rule_of specs @ t) = ?r # map rule_of (butlast specs)" for t
    using specs(2) by (cases specs rule: rev_cases) simp_all
  moreover have "take 1 (xs[0 := x]) = [x]" if "xs \<noteq> []" for xs and x :: broker_rule using that by (cases xs) simp_all
  then have "take 1 (dp_rules ?dm) = [?r]" using dm(1) slot(2) by simp
  moreover have "rule_matches_request env p ?r is_client dmsg domid = Ok 1" for env p is_client dmsg domid
    by (simp add: rule_matches_request_def zero_rule_def por_def)
  ultimately show ?thesis using run dm(2) by (intro exI [of _ "?dm\<lparr>dp_rules := take 1 (dp_rules ?dm) @ map rule_of specs @ drop (1 + length specs) (dp_rules ?dm),
      dp_count := dp_count ?dm + length specs\<rparr>"] exI [of _ ?r]) simp
qed

lemma unknown_keyword_freed_twice:
  \<comment> \<open>\<open>create_rule\<close> frees the slot it gives up, and so do its callers\<close>
  assumes "word kw" "word v" and "kw \<notin> {''all'', ''out-any'', ''destination'', ''dom-type'', ''interface'', ''if-boolean'', ''stubdom'', ''path'', ''member''}"
  shows "\<exists>r. create_rule zero_rule (Some (join [''allow'', kw, v])) = Ok (-1, r) \<and> free_rule r = Crash Use_After_Free"
proof -
  have "word ''allow''" by (simp add: word_def line_feed_def)
  note t = strtok_word [OF this, of "[kw, v]"] strtok_word [OF assms(1), of "[v]"] strtok_word [OF assms(2), of "[]"]
  moreover have "join [''allow'', kw, v] \<noteq> []" by (simp add: join.simps)
  ultimately show ?thesis using assms(3)
    by (simp add: create_rule_def rule_fields.simps(2) Let_def set_field_def free_rule_def zero_rule_def)
qed

subsection \<open>A broker with two rules\<close>

definition demo_specs :: "rule_spec list" where
  "demo_specs = [Every False, Where True (Destination ''com.citrix.db'') [Stubdom ''true'']]"

definition demo_broker :: broker_env where
  "demo_broker = \<lparr>b_xs = \<lparr>xs_opens = True, xs_domain_path = (\<lambda>_. ''/local/domain/7''), xs_value = (\<lambda>_. Some ''3'')\<rparr>,
     b_db = (\<lambda>_. None), b_find_vm = (\<lambda>_. Some ''/vm/0001'')\<rparr>"

definition demo_policy :: policy where
  "demo_policy = zero_policy\<lparr>p_etc := \<lparr>e_count = 2, e_rules = map rule_of demo_specs\<rparr>, p_database := True\<rparr>"

definition demo_request :: dbus_message where
  "demo_request = \<lparr>m_destination = Some ''com.citrix.db'', m_interface = Some ''com.citrix.db'', m_path = Some ''/'',
     m_member = Some ''read'', m_args = []\<rparr>"

lemma demo_specs_ok: "\<forall>sp \<in> set demo_specs. spec_ok sp"
  by (simp add: demo_specs_def spec_ok_def word_def line_feed_def verb_def)

theorem policy_file_loaded_witness:
  "build_etc_policy (\<lambda>_. 120) (p_etc zero_policy) (Some (concat (map (\<lambda>sp. spec_text sp @ [line_feed]) demo_specs))) =
     Ok \<lparr>e_count = 2, e_rules = map rule_of demo_specs @ replicate 510 zero_rule\<rparr>"
proof -
  have len: "length demo_specs = 2" by (simp add: demo_specs_def)
  then show ?thesis using policy_file_loaded [of demo_specs "\<lambda>_. 120"] demo_specs_ok by (simp add: RULE_MAX_LENGTH_def MAX_RULES_def)
qed


theorem refused_rule_in_force_witness:
  "\<exists>dm' r. get_rules (\<lambda>k. if k = ''/vm/0001/rpc-firewall-rules/0'' then Some ''allow path'' else
       if k = ''/vm/0001/rpc-firewall-rules/1'' then Some ''deny all'' else None)
       \<lparr>dp_domid = 0, dp_count = 0, dp_uuid = ''0001'', dp_uuid_db_fmt = ''0001'', dp_rules = replicate MAX_RULES zero_rule\<rparr> = Ok dm' \<and>
     take (dp_count dm') (dp_rules dm') = [r] \<and> rule_matches_request demo_broker demo_policy r True demo_request 7 = Ok 1"
proof -
  have d: "show_nat 0 = ''0''" "show_nat (Suc 0) = ''1''" "show_nat (Suc (Suc 0)) = ''2''" by code_simp+
  show ?thesis
    using refused_rule_in_force [of "''path''" "[Every False]"
      "\<lparr>dp_domid = 0, dp_count = 0, dp_uuid = ''0001'', dp_uuid_db_fmt = ''0001'', dp_rules = replicate MAX_RULES zero_rule\<rparr>"
      "\<lambda>k. if k = ''/vm/0001/rpc-firewall-rules/0'' then Some ''allow path'' else
       if k = ''/vm/0001/rpc-firewall-rules/1'' then Some ''deny all'' else None"]
    by (simp add: word_def line_feed_def spec_ok_def verb_def MAX_RULES_def join.simps spec_text_def d del: show_nat.simps) blast
qed

end
