(* ===== verification/Audio_Ring.thy ===== *)
theory Audio_Ring
  imports Prelude
begin

unbundle bit_operations_syntax

text \<open>
  The byte ring of the audio daemon (\<open>audio-daemon/src/ring.c\<close>, \<open>ring.h\<close>): one page shared with
  the sound card emulation of a guest, which fills the request half and empties the reply half.
  The four indices are free-running 32-bit counters that are reduced modulo the size of the ring
  only when the buffer is addressed. An operation is one step here: the peer moves its indices
  between operations, and may set them to anything. The memory barriers have no counterpart.
\<close>

subsection \<open>The shared page\<close>

type_synonym ring_idx = "32 word"

record ring_t =
  req :: string
  rsp :: string
  req_cons :: ring_idx
  req_prod :: ring_idx
  rsp_cons :: ring_idx
  rsp_prod :: ring_idx

definition XC_RING_SIZE :: nat where
  "XC_RING_SIZE = 1024"

definition ring_size :: ring_idx where
  \<comment> \<open>the macro, as an operand of the 32-bit arithmetic\<close>
  "ring_size = 1024"

definition MASK_XC_RING_IDX :: "ring_idx \<Rightarrow> ring_idx" where
  "MASK_XC_RING_IDX idx = idx AND (ring_size - 1)"

definition ring_check_indexes :: "ring_idx \<Rightarrow> ring_idx \<Rightarrow> bool" where
  "ring_check_indexes cns prd \<longleftrightarrow> prd - cns \<le> ring_size"

definition ring_get_output_chunk :: "ring_idx \<Rightarrow> ring_idx \<Rightarrow> nat \<times> ring_idx" where
  \<comment> \<open>the offset of the chunk in the buffer, and its length\<close>
  "ring_get_output_chunk cns prd =
     (let len = ring_size - MASK_XC_RING_IDX prd;
          len = (if ring_size - (prd - cns) < len then ring_size - (prd - cns) else len)
      in (unat (MASK_XC_RING_IDX prd), len))"

definition ring_get_input_chunk :: "ring_idx \<Rightarrow> ring_idx \<Rightarrow> nat \<times> ring_idx" where
  "ring_get_input_chunk cns prd =
     (let len = ring_size - MASK_XC_RING_IDX cns;
          len = (if prd - cns < len then prd - cns else len)
      in (unat (MASK_XC_RING_IDX cns), len))"

definition ring_data_to_read :: "ring_t \<Rightarrow> bool" where
  "ring_data_to_read intf \<longleftrightarrow> req_cons intf \<noteq> req_prod intf"

definition mem_write :: "string \<Rightarrow> nat \<Rightarrow> string \<Rightarrow> string outcome" where
  \<comment> \<open>\<open>memcpy\<close> to an offset of a buffer\<close>
  "mem_write buf p bytes = (if p + length bytes \<le> length buf
     then Ok (take p buf @ bytes @ drop (p + length bytes) buf) else Crash Buffer_Overflow)"

definition mem_read :: "string \<Rightarrow> nat \<Rightarrow> nat \<Rightarrow> string outcome" where
  \<comment> \<open>\<open>memcpy\<close> from an offset of a buffer\<close>
  "mem_read buf p n = (if p + n \<le> length buf then Ok (take n (drop p buf)) else Crash Buffer_Overflow)"

subsection \<open>Bounds of the chunks\<close>

lemma mask_idx [simp]: "unat (MASK_XC_RING_IDX idx) = unat idx mod 1024"
proof -
  have "MASK_XC_RING_IDX idx = take_bit 10 idx"
    by (simp add: MASK_XC_RING_IDX_def ring_size_def take_bit_eq_mask mask_eq_exp_minus_1)
  then show ?thesis by (simp add: take_bit_eq_mod unat_mod)
qed

lemma room_to_end: "unat (ring_size - MASK_XC_RING_IDX idx) = 1024 - unat idx mod 1024"
proof -
  have "MASK_XC_RING_IDX idx \<le> ring_size" by (simp add: word_le_nat_alt ring_size_def)
  then show ?thesis by (simp add: unat_sub ring_size_def)
qed

lemma check_indexes_iff: "ring_check_indexes cns prd \<longleftrightarrow> unat (prd - cns) \<le> 1024"
  by (simp add: ring_check_indexes_def word_le_nat_alt ring_size_def)

lemma output_chunk:
  assumes "ring_check_indexes cns prd"
  shows "fst (ring_get_output_chunk cns prd) = unat prd mod 1024"
    and "unat (snd (ring_get_output_chunk cns prd)) = min (1024 - unat prd mod 1024) (1024 - unat (prd - cns))"
proof -
  have "unat (ring_size - (prd - cns)) = 1024 - unat (prd - cns)"
    using assms by (simp add: unat_sub ring_check_indexes_def) (simp add: ring_size_def)
  then show "unat (snd (ring_get_output_chunk cns prd)) = min (1024 - unat prd mod 1024) (1024 - unat (prd - cns))"
    by (auto simp: ring_get_output_chunk_def Let_def word_less_nat_alt room_to_end)
qed (simp add: ring_get_output_chunk_def Let_def)

lemma input_chunk:
  "fst (ring_get_input_chunk cns prd) = unat cns mod 1024"
  "unat (snd (ring_get_input_chunk cns prd)) = min (1024 - unat cns mod 1024) (unat (prd - cns))"
  by (auto simp: ring_get_input_chunk_def Let_def word_less_nat_alt room_to_end)

lemma input_chunk_pos:
  assumes "cns \<noteq> prd"
  shows "0 < unat (snd (ring_get_input_chunk cns prd))"
proof -
  have "prd - cns \<noteq> 0" using assms by simp
  then have "unat (prd - cns) \<noteq> 0" by (simp only: unat_eq_0) simp
  then show ?thesis unfolding input_chunk by simp
qed

subsection \<open>Operations\<close>

function ring_write_loop :: "string \<Rightarrow> ring_t \<Rightarrow> (int \<times> ring_t) outcome" where
  "ring_write_loop data intf = (if data = [] then Ok (0, intf) else
     let cns = rsp_cons intf; prd = rsp_prod intf in
     if \<not> ring_check_indexes cns prd then Ok (-1, intf\<lparr>rsp_cons := 0, rsp_prod := 0\<rparr>) else
     let (dst, avail) = ring_get_output_chunk cns prd in
     if unat avail < length data then Ok (-1, intf) else
     let avail = min (unat avail) (length data) in
     obind (mem_write (rsp intf) dst (take avail data)) (\<lambda>buf.
       ring_write_loop (drop avail data) (intf\<lparr>rsp := buf, rsp_prod := prd + of_nat avail\<rparr>)))"
  by auto
termination
  by (relation "measure (length \<circ> fst)") auto

definition ring_write :: "ring_t \<Rightarrow> string \<Rightarrow> (int \<times> ring_t) outcome" where
  "ring_write intf data =
     (if rsp_prod intf - rsp_cons intf = ring_size then Ok (-1, intf) else ring_write_loop data intf)"

function ring_read_loop :: "nat \<Rightarrow> nat \<Rightarrow> string \<Rightarrow> ring_t \<Rightarrow> (int \<times> string \<times> ring_t) outcome" where
  \<comment> \<open>\<open>got\<close>: the bytes stored through the pointer \<open>data\<close> so far\<close>
  "ring_read_loop rc len got intf = (if len = 0 then Ok (to_int32 (int rc), got, intf) else
     if \<not> ring_data_to_read intf then Ok (0, got, intf) else
     let cns = req_cons intf; prd = req_prod intf in
     if \<not> ring_check_indexes cns prd then Ok (-1, got, intf\<lparr>req_cons := 0, req_prod := 0\<rparr>) else
     let (src, avail) = ring_get_input_chunk cns prd in
     if unat avail = 0 then ring_read_loop rc len got intf else
     let avail = min (unat avail) len in
     obind (mem_read (req intf) src avail) (\<lambda>bytes.
       ring_read_loop rc (len - avail) (got @ bytes) (intf\<lparr>req_cons := cns + of_nat avail\<rparr>)))"
  by auto
termination
proof (relation "measure (\<lambda>(rc, len, got, intf). len)", goal_cases)
  case (2 rc len got intf cns prd c src avail)
  then have "0 < unat avail"
    using input_chunk_pos [of cns prd] by (metis ring_data_to_read_def snd_conv)
  with 2 show ?case by (metis less_irrefl)
qed auto

definition ring_read :: "ring_t \<Rightarrow> nat \<Rightarrow> (int \<times> string \<times> ring_t) outcome" where
  "ring_read intf len = ring_read_loop len len [] intf"

definition ring_init :: "ring_t \<Rightarrow> ring_t" where
  "ring_init intf = intf\<lparr>rsp_cons := 0, rsp_prod := 0, req_cons := 0, req_prod := 0\<rparr>"

declare ring_write_loop.simps [simp del]
declare ring_read_loop.simps [simp del]


subsection \<open>The queues the ring stands for\<close>

definition fifo :: "string \<Rightarrow> nat \<Rightarrow> nat \<Rightarrow> string" where
  \<comment> \<open>\<open>n\<close> bytes from the free-running index \<open>c\<close> on\<close>
  "fifo buf c n = map (\<lambda>i. buf ! ((c + i) mod 1024)) [0..<n]"

definition requests :: "ring_t \<Rightarrow> string" where
  "requests r = fifo (req r) (unat (req_cons r)) (unat (req_prod r - req_cons r))"

definition replies :: "ring_t \<Rightarrow> string" where
  "replies r = fifo (rsp r) (unat (rsp_cons r)) (unat (rsp_prod r - rsp_cons r))"

lemma length_fifo [simp]: "length (fifo buf c n) = n"
  by (simp add: fifo_def)

lemma fifo_mod: "fifo buf (c mod 1024) n = fifo buf c n"
  by (simp add: fifo_def mod_add_left_eq)

lemma fifo_split: "fifo buf c (k + n) = fifo buf c k @ fifo buf (c + k) n"
  by (rule nth_equalityI) (auto simp: fifo_def nth_append add.assoc)

lemma chunk_apart:
  assumes "i < n" and "n + k \<le> 1024" and "(c + n) mod 1024 \<le> (c + i) mod (1024 :: nat)"
  shows "(c + n) mod 1024 + k \<le> (c + i) mod 1024"
proof (rule ccontr)
  define p q where "p = (c + n) mod 1024" and "q = (c + i) mod 1024"
  assume "\<not> ?thesis"
  then have q: "p \<le> q" "q < p + k" using assms(3) by (simp_all add: p_def q_def)
  have "(c + n + (q - p)) mod 1024 = (p + (q - p)) mod 1024" by (simp only: p_def mod_add_left_eq)
  also have "\<dots> = q" using q by (simp add: q_def)
  finally have "(c + n + (q - p)) mod 1024 = (c + i) mod 1024" by (simp only: q_def)
  moreover have "c + n + (q - p) - (c + i) = n - i + (q - p)" "c + i \<le> c + n + (q - p)" using assms(1) by linarith+
  ultimately have "1024 dvd n - i + (q - p)" by (metis mod_eq_dvd_iff_nat)
  moreover have "n - i + (q - p) < 1024" "0 < n - i + (q - p)" using assms(1,2) q by linarith+
  ultimately show False by (simp add: nat_dvd_not_less)
qed

lemma fifo_write:
  assumes "length buf = 1024" and "n + length bytes \<le> 1024" and fits: "(c + n) mod 1024 + length bytes \<le> 1024"
  shows "fifo (take ((c + n) mod 1024) buf @ bytes @ drop ((c + n) mod 1024 + length bytes) buf) c (n + length bytes) =
    fifo buf c n @ bytes" (is "fifo ?b _ _ = _")
proof (rule nth_equalityI)
  let ?p = "(c + n) mod 1024"
  fix i
  assume "i < length (fifo ?b c (n + length bytes))"
  then have i: "i < n + length bytes" by simp
  show "fifo ?b c (n + length bytes) ! i = (fifo buf c n @ bytes) ! i"
  proof (cases "i < n")
    case True
    let ?q = "(c + i) mod 1024"
    have "?q < ?p \<or> ?p + length bytes \<le> ?q" using chunk_apart [OF True assms(2), of c] by linarith
    moreover have "?p < 1024" "?q < 1024" by simp_all
    ultimately show ?thesis using True i assms(1) by (auto simp: fifo_def nth_append)
  next
    case False
    then obtain j where j: "i = n + j" "j < length bytes" using i by (metis add_less_cancel_left le_add_diff_inverse not_less)
    have "(c + i) mod 1024 = (?p + j) mod 1024" using j(1) by (simp add: mod_add_left_eq add.assoc)
    then have "(c + i) mod 1024 = ?p + j" using j(2) fits by simp
    then show ?thesis using i j assms(1) by (simp add: fifo_def nth_append)
  qed
qed simp

lemma fifo_read:
  assumes "length buf = 1024" and "c mod 1024 + k \<le> 1024"
  shows "take k (drop (c mod 1024) buf) = fifo buf c k"
proof (rule nth_equalityI)
  fix i
  assume "i < length (take k (drop (c mod 1024) buf))"
  then have i: "i < k" by simp
  then have "(c + i) mod 1024 = c mod 1024 + i" using assms(2) by (simp add: mod_add_left_eq [symmetric, of c])
  then show "take k (drop (c mod 1024) buf) ! i = fifo buf c k ! i" using i assms by (simp add: fifo_def)
qed (use assms in simp)

lemma unat_advance:
  fixes a :: ring_idx
  assumes "unat a + k \<le> 1024"
  shows "unat (a + of_nat k) = unat a + k"
proof -
  have "a + of_nat k = of_nat (unat a + k)" by simp
  then show ?thesis using assms by (simp only: unsigned_of_nat) (simp add: take_bit_nat_eq_self)
qed

lemma unat_retreat:
  fixes a :: ring_idx
  assumes "k \<le> unat a"
  shows "unat (a - of_nat k) = unat a - k"
proof -
  have "a - of_nat k = of_nat (unat a - k)" using assms by (simp add: of_nat_diff)
  moreover have "unat a < 2 ^ LENGTH(32)" by (rule unsigned_less)
  ultimately show ?thesis by (simp only: unsigned_of_nat) (simp add: take_bit_nat_eq_self less_imp_diff_less)
qed

lemma idx_distance:
  fixes a b :: ring_idx
  shows "(unat b + unat (a - b)) mod 1024 = unat a mod 1024"
proof -
  have "unat a = (unat b + unat (a - b)) mod 2 ^ 32" using unat_word_ariths(1) [of b "a - b"] by simp
  then show ?thesis by (simp add: mod_mod_cancel)
qed

subsection \<open>Refinement\<close>

definition reply_room :: "ring_t \<Rightarrow> nat" where
  \<comment> \<open>the free bytes up to the end of the buffer\<close>
  "reply_room r = min (1024 - unat (rsp_prod r) mod 1024) (1024 - length (replies r))"

lemma write_loop_run:
  assumes len: "length (rsp r) = 1024" and ok: "ring_check_indexes (rsp_cons r) (rsp_prod r)"
  shows "\<exists>r'. ring_write_loop data r = Ok (if length data \<le> reply_room r then 0 else -1, r') \<and>
    replies r' = (if length data \<le> reply_room r then replies r @ data else replies r) \<and>
    length (rsp r') = 1024 \<and> (length data \<le> reply_room r \<or> r' = r) \<and>
    req r' = req r \<and> req_cons r' = req_cons r \<and> req_prod r' = req_prod r \<and> rsp_cons r' = rsp_cons r"
proof (cases "data = [] \<or> reply_room r < length data")
  case True
  obtain p a where c: "ring_get_output_chunk (rsp_cons r) (rsp_prod r) = (p, a)" by (metis surj_pair)
  with output_chunk [OF ok] have "unat a = reply_room r" by (simp add: reply_room_def replies_def)
  then show ?thesis using True ok len by (subst ring_write_loop.simps) (auto simp: c)
next
  case False
  let ?n = "unat (rsp_prod r - rsp_cons r)" and ?p = "unat (rsp_prod r) mod 1024"
  let ?b = "take ?p (rsp r) @ data @ drop (?p + length data) (rsp r)"
  let ?r = "r\<lparr>rsp := ?b, rsp_prod := rsp_prod r + of_nat (length data)\<rparr>"
  obtain p a where c: "ring_get_output_chunk (rsp_cons r) (rsp_prod r) = (p, a)" by (metis surj_pair)
  with output_chunk [OF ok] have a: "p = ?p" "unat a = reply_room r" by (simp_all add: reply_room_def replies_def)
  have le: "?n \<le> 1024" using ok by (simp add: check_indexes_iff)
  then have fit: "?p + length data \<le> 1024" "?n + length data \<le> 1024" using False by (auto simp: reply_room_def replies_def)
  have "ring_write_loop data r = ring_write_loop [] ?r"
    using False fit len ok by (subst ring_write_loop.simps) (simp add: c a mem_write_def Let_def)
  then have run: "ring_write_loop data r = Ok (0, ?r)" by (simp add: ring_write_loop.simps)
  have "unat (rsp_prod ?r - rsp_cons ?r) = ?n + length data"
    using unat_advance [OF fit(2)] by (simp add: algebra_simps)
  then have "replies ?r = fifo ?b (unat (rsp_cons r)) (?n + length data)" by (simp add: replies_def)
  also have "\<dots> = replies r @ data"
    using fifo_write [OF len fit(2), of "unat (rsp_cons r)"] fit(1) by (simp add: idx_distance replies_def)
  finally have "replies ?r = replies r @ data" .
  then show ?thesis using run False fit(1) len by (intro exI [of _ ?r]) auto
qed

lemma read_loop_run:
  assumes "length (req r) = 1024" and "ring_check_indexes (req_cons r) (req_prod r)"
  shows "\<exists>r'. ring_read_loop rc n got r =
      Ok (if n \<le> length (requests r) then to_int32 (int rc) else 0, got @ take n (requests r), r') \<and>
    requests r' = drop n (requests r) \<and> req r' = req r \<and> req_prod r' = req_prod r \<and>
    rsp r' = rsp r \<and> rsp_cons r' = rsp_cons r \<and> rsp_prod r' = rsp_prod r"
  using assms
proof (induction n arbitrary: got r rule: less_induct)
  case (less n)
  let ?n = "unat (req_prod r - req_cons r)"
  consider "n = 0" | "0 < n" "req_cons r = req_prod r" | "0 < n" "req_cons r \<noteq> req_prod r" by auto
  then show ?case
  proof cases
    case 3
    obtain p a where c: "ring_get_input_chunk (req_cons r) (req_prod r) = (p, a)" by (metis surj_pair)
    define k where "k = min (unat a) n"
    have a: "p = unat (req_cons r) mod 1024" "unat a = min (1024 - unat (req_cons r) mod 1024) ?n"
      using input_chunk [of "req_cons r" "req_prod r"] c by simp_all
    have pos: "0 < unat a" using input_chunk_pos [OF 3(2)] c by simp
    have fit: "unat (req_cons r) mod 1024 + k \<le> 1024" "k \<le> ?n" "k \<le> n" "0 < k"
      using a(2) pos 3(1) mod_less_divisor [of 1024 "unat (req_cons r)"] unfolding k_def by linarith+
    let ?r = "r\<lparr>req_cons := req_cons r + of_nat k\<rparr>"
    have step: "ring_read_loop rc n got r = ring_read_loop rc (n - k) (got @ take k (drop p (req r))) ?r"
      using 3 less.prems pos fit by (subst ring_read_loop.simps) (simp add: c ring_data_to_read_def mem_read_def a(1) k_def [symmetric] Let_def)
    have dist: "unat (req_prod ?r - req_cons ?r) = ?n - k"
      using unat_retreat [OF fit(2)] by (simp add: algebra_simps)
    have cns: "unat (req_cons ?r) mod 1024 = (unat (req_cons r) + k) mod 1024"
      using idx_distance [where b = "req_cons r" and a = "req_cons ?r"] unat_advance [of 0 k] fit(2) less.prems(2)
      by (simp add: check_indexes_iff)
    have "requests r = fifo (req r) (unat (req_cons r)) (k + (?n - k))" using fit(2) by (simp add: requests_def)
    moreover have "fifo (req r) (unat (req_cons r) + k) (?n - k) = requests ?r"
      using fifo_mod [of "req r" "unat (req_cons ?r)"] fifo_mod [of "req r" "unat (req_cons r) + k"] dist cns
      by (simp add: requests_def)
    moreover have "take k (drop p (req r)) = fifo (req r) (unat (req_cons r)) k"
      using fifo_read [OF less.prems(1) fit(1)] a(1) by simp
    ultimately have split: "requests r = take k (drop p (req r)) @ requests ?r" "length (take k (drop p (req r))) = k"
      by (simp_all add: fifo_split del: length_take length_drop)
    have "ring_check_indexes (req_cons ?r) (req_prod ?r)" using less.prems(2) dist by (simp add: check_indexes_iff)
    then obtain r' where r': "ring_read_loop rc (n - k) (got @ take k (drop p (req r))) ?r =
          Ok (if n - k \<le> length (requests ?r) then to_int32 (int rc) else 0, (got @ take k (drop p (req r))) @ take (n - k) (requests ?r), r')"
        "requests r' = drop (n - k) (requests ?r)" "req r' = req r" "req_prod r' = req_prod r"
        "rsp r' = rsp r" "rsp_cons r' = rsp_cons r" "rsp_prod r' = rsp_prod r"
      using less.IH [of "n - k" ?r "got @ take k (drop p (req r))"] less.prems(1) fit 3(1) by auto
    have "take n (requests r) = take k (drop p (req r)) @ take (n - k) (requests ?r)" "drop n (requests r) = drop (n - k) (requests ?r)"
        "n \<le> length (requests r) \<longleftrightarrow> n - k \<le> length (requests ?r)"
      unfolding split(1) using split(2) fit(3) by (simp_all del: length_take length_drop) linarith
    with r' show ?thesis unfolding step by (intro exI [of _ r']) simp
  qed (use less.prems in \<open>auto simp: ring_read_loop.simps ring_data_to_read_def requests_def fifo_def\<close>)
qed

text \<open>
  C17. The two halves of the ring are byte queues, whatever the free-running indices are, also
  across their wrap-around. A write appends its bytes and returns 0 when the queue is not full and
  they fit before the end of the buffer, and is refused without effect otherwise. A read of \<open>n\<close>
  bytes takes the first \<open>n\<close> and returns \<open>n\<close> when there are that many; otherwise it returns 0 and
  the bytes there were are gone from the ring. Neither ever leaves the buffer, even if the peer has
  stored indices that make no sense: these are detected, and reset.
\<close>

theorem ring_refines_queues:
  assumes "length (rsp r) = XC_RING_SIZE" and "length (req r) = XC_RING_SIZE" and "n < 2 ^ 31"
  shows "\<exists>rc r' rc' got r''. ring_write r data = Ok (rc, r') \<and> ring_read r n = Ok (rc', got, r'') \<and>
    length (rsp r') = XC_RING_SIZE \<and> req r'' = req r \<and> requests r' = requests r \<and> replies r'' = replies r \<and>
    (if ring_check_indexes (rsp_cons r) (rsp_prod r)
     then (if length (replies r) < XC_RING_SIZE \<and> length data \<le> reply_room r
           then rc = 0 \<and> replies r' = replies r @ data else rc = -1 \<and> r' = r)
     else data = [] \<or> rc = -1 \<and> replies r' = []) \<and>
    (if ring_check_indexes (req_cons r) (req_prod r)
     then got = take n (requests r) \<and> requests r'' = drop n (requests r) \<and>
       rc' = (if n \<le> length (requests r) then int n else 0)
     else n = 0 \<or> rc' = -1 \<and> requests r'' = [])"
proof -
  have len: "length (rsp r) = 1024" "length (req r) = 1024" using assms by (simp_all add: XC_RING_SIZE_def)
  have full: "rsp_prod r - rsp_cons r = ring_size \<longleftrightarrow> length (replies r) = 1024"
    by (simp add: word_unat_eq_iff ring_size_def replies_def)
  have "\<exists>rc r'. ring_write r data = Ok (rc, r') \<and> length (rsp r') = XC_RING_SIZE \<and> requests r' = requests r \<and>
    (if ring_check_indexes (rsp_cons r) (rsp_prod r)
     then (if length (replies r) < XC_RING_SIZE \<and> length data \<le> reply_room r
           then rc = 0 \<and> replies r' = replies r @ data else rc = -1 \<and> r' = r)
     else data = [] \<or> rc = -1 \<and> replies r' = [])"
  proof (cases "ring_check_indexes (rsp_cons r) (rsp_prod r)")
    case True
    then have "length (replies r) \<le> 1024" by (simp add: check_indexes_iff replies_def)
    with write_loop_run [OF len(1) True, of data] show ?thesis
      using True full len by (cases "length data \<le> reply_room r") (auto simp: ring_write_def XC_RING_SIZE_def requests_def)
  next
    case False
    then have "length (replies r) \<noteq> 1024" by (simp add: check_indexes_iff replies_def)
    then show ?thesis using False full len
      by (auto simp: ring_write_def ring_write_loop.simps XC_RING_SIZE_def requests_def replies_def fifo_def)
  qed
  moreover have "\<exists>rc got r'. ring_read r n = Ok (rc, got, r') \<and> req r' = req r \<and> replies r' = replies r \<and>
    (if ring_check_indexes (req_cons r) (req_prod r)
     then got = take n (requests r) \<and> requests r' = drop n (requests r) \<and>
       rc = (if n \<le> length (requests r) then int n else 0)
     else n = 0 \<or> rc = -1 \<and> requests r' = [])"
  proof (cases "ring_check_indexes (req_cons r) (req_prod r)")
    case True
    have "to_int32 (int n) = int n" using assms(3) by (simp add: in_int32_def)
    with read_loop_run [OF len(2) True, of n n "[]"] show ?thesis using True by (auto simp: ring_read_def replies_def)
  next
    case False
    then have "req_cons r \<noteq> req_prod r" by (auto simp: check_indexes_iff)
    with False show ?thesis
      by (auto simp: ring_read_def ring_read_loop.simps ring_data_to_read_def requests_def replies_def fifo_def)
  qed
  ultimately show ?thesis by blast
qed

definition demo_ring :: ring_t where
  \<comment> \<open>a request of three bytes across the wrap-around of the indices; replies two bytes before the end\<close>
  "demo_ring = \<lparr>req = (''bc'' @ replicate 1021 CHR ''.'') @ ''a'', rsp = replicate 1024 CHR ''.'',
     req_cons = - 1, req_prod = 2, rsp_cons = 1022, rsp_prod = 1022\<rparr>"

theorem ring_refines_queues_witness:
  "\<exists>r''. ring_read demo_ring 2 = Ok (2, ''ab'', r'') \<and> requests r'' = ''c'' \<and> ring_write demo_ring ''xyz'' = Ok (-1, demo_ring)"
proof -
  have len: "length (rsp demo_ring) = XC_RING_SIZE" "length (req demo_ring) = XC_RING_SIZE" "2 < (2 :: nat) ^ 31"
    by (simp_all add: demo_ring_def XC_RING_SIZE_def)
  have ok: "ring_check_indexes (rsp_cons demo_ring) (rsp_prod demo_ring)" "ring_check_indexes (req_cons demo_ring) (req_prod demo_ring)"
    by (simp_all add: ring_check_indexes_def demo_ring_def ring_size_def)
  have "unat (- 1 :: ring_idx) mod 1024 = 1023" by (simp add: unsigned_minus_1_eq_mask mask_eq_exp_minus_1)
  then have "fifo (req demo_ring) (unat (- 1 :: ring_idx)) 3 = ''abc''"
    using fifo_mod [of "req demo_ring" "unat (- 1 :: ring_idx)" 3] by (simp add: fifo_def demo_ring_def upt_rec nth_append)
  then have q: "requests demo_ring = ''abc''" by (simp add: requests_def demo_ring_def)
  have "reply_room demo_ring = 2" "replies demo_ring = []" by (simp_all add: reply_room_def replies_def fifo_def demo_ring_def)
  then show ?thesis using ring_refines_queues [OF len, of "''xyz''"] ok q by (auto simp: XC_RING_SIZE_def)
qed

end
