(* ===== verification/Spec2Isabelle.thy ===== *)
theory Spec2Isabelle
  imports Policy_File Daemon Action_Modules Platform Broker_Policy Audio_Ring
begin

text \<open>
  Verification of xctools, the helper programs of the XenClient/OpenXT control domain.

  \<^bold>\<open>The programs.\<close> The repository holds several C programs. Most of its own logic is in
  \<open>xcpmd\<close>, the power management daemon: it receives ACPI events, key codes, signals of the VM
  manager and the state of the batteries, keeps a policy of rules (conditions, actions, undo
  actions) that users write in a small language, and runs the actions of the rules that become
  true. Two more parts with logic of their own are modelled: the request filter of
  \<open>rpc-broker\<close> (a firewall for D-Bus messages of guests), and the byte ring \<open>audio-daemon\<close> shares
  with the sound card emulation of a guest. The three do not call each other.

  \<^bold>\<open>How C is modelled\<close> (\<open>Prelude\<close>). An operation of the code is a function on explicit state. Its
  result is \<open>Ok x\<close>, or \<open>Crash k\<close> when it leaves the defined behaviour of C: null dereference, use
  after free, access out of bounds, stack overflow, use of an unset variable, signed overflow.
  Structs are records, enums and unions are datatypes, arrays are lists with explicit bounds,
  objects with identity (rules, conditions, list nodes) live in heaps indexed by address; a freed
  object is absent from its heap. Unsigned integers are words where their width matters, \<open>int\<close> is
  a 32-bit value with the conversions written out. The platform is x86-64 Linux with glibc and
  signed \<open>char\<close>; allocation does not fail. Names are those of the source.

  \<^bold>\<open>xcpmd, from the bottom up\<close> (all files under \<open>src/xcpmd/src\<close>).

  \<^item> \<open>List_Head\<close>: \<open>list.h\<close> at the level of \<open>next\<close> and \<open>prev\<close> pointers. The operations refine sequences
    (the locale \<open>node_list\<close> is their contract); the traversal macros are partial functions and are
    shown to end.
  \<^item> \<open>Arg_Types\<close>: the tagged arguments of \<open>rules.h\<close>.
  \<^item> \<open>Parser\<close>: the state machine of \<open>parser.c\<close> with its transition table, actions, 256-byte
    accumulators and error reports. What it calls (looking up and adding variables, loading a rule)
    is a record of operations. \<open>Parser_Text\<close> shows that printing a rule and parsing it is the
    identity, \<open>Var_Text\<close> the same for variable definitions, \<open>Parser_Safe\<close> that strings of at most
    255 characters never overflow a buffer, in the locale \<open>parser_env\<close>.
  \<^item> \<open>Var_Cache\<close>: the global state of \<open>rules.h\<close> and the write-through cache of variables of
    \<open>db-helper.c\<close>, with reference counts (locale \<open>ref_counter\<close>).
  \<^item> \<open>Rule_Engine\<close>, \<open>Apply_Rule\<close>: registration, construction, validation, linking, evaluation and
    deletion of rules (\<open>rules.c\<close>), and \<open>apply_rule\<close> of \<open>parser.c\<close>, which builds a rule from parsed
    functions. \<open>Engine_Inv\<close> states the invariant of the heaps (listener lists and condition lists
    agree, reference counts are exact) and that deletion keeps it; \<open>Load_Rule\<close> gives the complete
    effect of \<open>apply_rule\<close>; \<open>Policy_Types\<close> says what validation guarantees to checkers and actions.
  \<^item> \<open>Policy_Modules\<close>, \<open>Policy_Eval\<close>: \<open>handle_events\<close>, \<open>evaluate_policy\<close> and module loading of
    \<open>modules.c\<close>: which actions and undo actions run for stateful and stateless events, in which
    order, and that a rule is active exactly when all its conditions are true.
  \<^item> \<open>Parser_System\<close>, \<open>Rule_Outcome\<close>: the parser connected to the engine, as interpretations of
    \<open>parser_env\<close> and its extension \<open>rule_env\<close>: no text of bounded length breaks the engine, and every
    refusal has an error that can be reported.
  \<^item> \<open>Rule_Db\<close>: rules as JSON trees in the database (\<open>db-helper.c\<close>), and that a stored rule
    survives a restart. \<open>Policy_File\<close>: policy files, line by line.
  \<^item> \<open>Condition_Modules\<close>, \<open>Acpi_Module\<close>, \<open>Vm_Events\<close>, \<open>Vm_Utils\<close>: the modules that provide events and
    conditions, as interpretations of the locale \<open>condition_module\<close>. \<open>Action_Modules\<close>, \<open>Vm_Deps\<close>: the
    modules that provide actions (locale \<open>action_module\<close>), with the dependency analysis that
    decides which service VMs to stop.
  \<^item> \<open>Battery\<close>, \<open>Battery_Update\<close>: \<open>battery.c\<close>, with the arithmetic at its width, the arrays that are
    resized when batteries come and go, and what is published in xenstore.
  \<^item> \<open>Platform\<close>: \<open>platform.c\<close>, the SMBIOS tables of the firmware and the quirks derived from them.
  \<^item> \<open>Acpi_Events\<close>: \<open>acpi-events.c\<close>, from the bytes of acpid to the handlers. \<open>Event_System\<close>: the
    engine with its modules and event sources, and what a lid, adapter or power button event does.
  \<^item> \<open>Dbus_Server\<close>: every method of \<open>xcpmd-dbus-server.c\<close>. \<open>Daemon\<close>: the daemon as a state machine
    (\<open>daemon_step\<close>, \<open>daemon_reaches\<close>) and that no sequence of admissible inputs crashes it.

  \<^bold>\<open>rpc-broker\<close> (\<open>Broker_Policy\<close>; \<open>policy.c\<close>, \<open>msg.c\<close> and the queries of \<open>rpc-dbus.c\<close> they use under
  \<open>src/rpc-broker/src\<close>): loading rules from a file and from the database, and deciding a request by
  the last rule that applies. \<^bold>\<open>audio-daemon\<close> (\<open>Audio_Ring\<close>; \<open>ring.c\<close>): the ring refines two byte
  queues, with 32-bit indices that wrap around.

  \<^bold>\<open>What is proved\<close>, by kind. Safety: the daemon, the text of a policy, the battery queries.
  Invariants: the engine under events. Types: the arguments of actions. Functional behaviour:
  loading and removing rules and variables, stateful and stateless events, evaluation of the whole
  policy, lid and adapter, VM actions, policy files, SMBIOS tables. Liveness: the power button gets
  its actions run. Refinement: the pointer lists, the batteries as a mirror of sysfs, the request
  filter, the ring. Equivalence: the worklist of dependencies and its specification by
  reachability. Round trips: rules through printer and parser, rules and variables through the
  database, broker rules through their file. Termination: unlinking a whole list; a policy file
  without a final newline is never finished. Bounds: percentages and times without wrap-around.
  Errors: inputs for which the code leaves defined behaviour or does other than its comments say,
  each with its condition.

  \<^bold>\<open>Bounds and fuel.\<close> The parser resolves a variable by parsing its stored value, which may again
  name a variable: \<open>xops env il fl k\<close> allows \<open>k\<close> levels, and running out is \<open>Crash Stack_Overflow\<close>;
  the theorems hold for every \<open>k > 0\<close> once stored variables are cached, which is what the daemon's
  start brings about. \<open>gather_dependencies\<close> is given a number of stack frames, and one per machine
  is proved to be enough. \<open>parse_loop\<close> ends by a measure on the characters left. Loops that may not
  end (list traversal, skipping an over-long line) are partial functions with \<open>None\<close> for a run that
  does not return, and returning is part of the theorems about them. Everything else recurses on
  its data.

  \<^bold>\<open>What is relied on.\<close> The database (\<open>db_laws\<close>, \<open>store_laws\<close>), the JSON library (\<open>yajl_laws\<close>), xenmgr
  (\<open>xenmgr_ok\<close>, \<open>xenmgr_serves\<close>), sysfs, xenstore, firmware memory, PCI and \<open>getline\<close>'s buffer sizes are
  parameters; their laws are hypotheses of the theorems and are satisfied by concrete instances
  in the witnesses. Answers of xenmgr do not change while one action runs. Inputs of the daemon are
  admissible (\<open>input_ok\<close>) when rule texts have at most 255 characters per part, variables are given
  in printed form and a battery refresh finds the slots of the last one; the theorems on errors
  show what happens otherwise.

  \<^bold>\<open>Not modelled.\<close> Of xcpmd: \<open>main\<close> and libevent (the machine of \<open>Daemon\<close> takes their place), debug
  printers, the wrappers around libdbus, the dummy module \<open>default-inputs-module.c\<close>. Of rpc-broker:
  the socket loops, JSON, XML and websocket bindings, and the list of signal subscribers. The mixer
  code of audio-daemon, \<open>audio_helper\<close>, \<open>atapi_pt_helper\<close>, \<open>qmp_helper\<close>, \<open>carrier-detect\<close>, \<open>libdmbus\<close>
  and \<open>xcdbus_example\<close> are calls of ALSA, Argo, ioctls, netlink and libdbus with little logic between
  them; \<open>compleat\<close> is a Haskell program for shell completion. Concurrency with the peer of the audio ring is modelled between operations, not within one.
\<close>

end
